(* ===== verification/Prelude.thy ===== *)
theory Prelude
  imports Main "HOL-Library.Word" "HOL-Library.Monad_Syntax" "HOL-Library.Signed_Division"
begin

text \<open>
  Shared vocabulary of the development: bytes and the buffers C code fills in place, the
  little-endian and big-endian field codecs used by the command wrappers and the directory
  records, checked reads, C integer division, and the collections of rewrite rules the
  component theories extend.
\<close>

unbundle bit_operations_syntax

named_theorems frame_simps \<open>what an operation leaves unchanged in the device state\<close>
named_theorems trace_simps \<open>what an operation appends to the trace of calls\<close>
named_theorems bot_defs \<open>definitions of the phases of one Bulk-Only transaction\<close>

type_synonym byte = "8 word"
type_synonym u16 = "16 word"
type_synonym u32 = "32 word"
type_synonym u64 = "64 word"

section \<open>Buffers\<close>

text \<open>
  A call that writes \<open>bs\<close> at the start of a caller's buffer leaves the rest of the buffer as
  it was.
\<close>

definition write_prefix :: "'a list \<Rightarrow> 'a list \<Rightarrow> 'a list" where
  "write_prefix bs buf = bs @ drop (length bs) buf"

text \<open>A write at an offset, for a read helper that fills a buffer chunk by chunk.\<close>

definition write_at :: "nat \<Rightarrow> 'a list \<Rightarrow> 'a list \<Rightarrow> 'a list" where
  "write_at off bs buf = take off buf @ bs @ drop (off + length bs) buf"

text \<open>A checked read: \<open>None\<close> is a read past the end of the buffer.\<close>

definition rd :: "'a list \<Rightarrow> nat \<Rightarrow> 'a option" where
  "rd buf i = (if i < length buf then Some (buf ! i) else None)"

lemma length_write_prefix [simp]:
  "length bs \<le> length buf \<Longrightarrow> length (write_prefix bs buf) = length buf"
  by (simp add: write_prefix_def)

lemma take_write_prefix [simp]: "take (length bs) (write_prefix bs buf) = bs"
  by (simp add: write_prefix_def)

lemma length_write_at [simp]:
  "off + length bs \<le> length buf \<Longrightarrow> length (write_at off bs buf) = length buf"
  by (simp add: write_at_def)

lemma rd_Some [simp]: "i < length buf \<Longrightarrow> rd buf i = Some (buf ! i)"
  by (simp add: rd_def)

lemma rd_None [simp]: "length buf \<le> i \<Longrightarrow> rd buf i = None"
  by (simp add: rd_def)

section \<open>C integer division\<close>

text \<open>C division truncates towards zero.\<close>

abbreviation c_div :: "int \<Rightarrow> int \<Rightarrow> int" where
  "c_div a b \<equiv> a sdiv b"

lemma c_div_nonneg [simp]: "0 \<le> a \<Longrightarrow> 0 < b \<Longrightarrow> a sdiv b = a div (b::int)"
  by (cases "a = 0") (simp_all add: signed_divide_int_def)

lemma c_div_bounds:
  assumes "0 < (b::int)"
  shows "a - b < b * (a sdiv b) \<and> b * (a sdiv b) < a + b"
proof (cases "0 \<le> a")
  case True
  have "a mod b < b" and "0 \<le> a mod b" and "b * (a div b) = a - a mod b"
    using assms by (simp_all add: minus_mod_eq_mult_div)
  with True assms show ?thesis by simp
next
  case False
  have *: "(- a) mod b < b" "0 \<le> (- a) mod b" "b * ((- a) div b) = - a - (- a) mod b"
    using assms by (simp_all add: minus_mod_eq_mult_div)
  from False assms have "a sdiv b = - ((- a) div b)"
    by (simp add: signed_divide_int_def)
  with * show ?thesis by (simp only: mult_minus_right) linarith
qed

section \<open>Field codecs\<close>

text \<open>
  A 32-bit field as the four bytes of its little-endian layout, and the other way round the
  way \<open>iso_le32()\<close> of disc.c assembles it.
\<close>

definition le32_bytes :: "u32 \<Rightarrow> byte list" where
  "le32_bytes w = [ucast w, ucast (drop_bit 8 w), ucast (drop_bit 16 w), ucast (drop_bit 24 w)]"

definition le32_word :: "byte \<Rightarrow> byte \<Rightarrow> byte \<Rightarrow> byte \<Rightarrow> u32" where
  "le32_word a b c d =
     ucast a OR push_bit 8 (ucast b) OR push_bit 16 (ucast c) OR push_bit 24 (ucast d)"

definition be32_bytes :: "u32 \<Rightarrow> byte list" where
  "be32_bytes w = [ucast (drop_bit 24 w), ucast (drop_bit 16 w), ucast (drop_bit 8 w), ucast w]"

lemma length_le32_bytes [simp]: "length (le32_bytes w) = 4"
  by (simp add: le32_bytes_def)

lemma le32_word_bytes:
  "le32_word (ucast w) (ucast (drop_bit 8 w)) (ucast (drop_bit 16 w)) (ucast (drop_bit 24 w)) = w"
proof (rule bit_word_eqI)
  fix n assume n: "n < LENGTH(32)"
  consider "n < 8" | "8 \<le> n" "n < 16" | "16 \<le> n" "n < 24" | "24 \<le> n"
    by linarith
  then show "bit (le32_word (ucast w) (ucast (drop_bit 8 w)) (ucast (drop_bit 16 w))
      (ucast (drop_bit 24 w))) n = bit w n"
    using n by cases (auto simp: le32_word_def bit_simps)
qed

lemma le32_bytes_word:
  "le32_bytes (le32_word a b c d) = [a, b, c, d]"
proof -
  have bits: "bit x n \<Longrightarrow> n < 8" for x :: byte and n
    by (drule bit_imp_le_length) simp
  have "ucast (le32_word a b c d) = a"
    by (rule bit_word_eqI) (auto simp: le32_word_def bit_simps)
  moreover have "ucast (drop_bit 8 (le32_word a b c d)) = b"
    by (rule bit_word_eqI) (auto simp: le32_word_def bit_simps dest: bits)
  moreover have "ucast (drop_bit 16 (le32_word a b c d)) = c"
    by (rule bit_word_eqI) (auto simp: le32_word_def bit_simps dest: bits)
  moreover have "ucast (drop_bit 24 (le32_word a b c d)) = d"
    by (rule bit_word_eqI) (auto simp: le32_word_def bit_simps dest: bits)
  ultimately show ?thesis by (simp add: le32_bytes_def)
qed

section \<open>Options\<close>

lemma bind_Some_iff: "Option.bind m f = Some y \<longleftrightarrow> (\<exists>x. m = Some x \<and> f x = Some y)"
  by (cases m) simp_all

lemma reply2_exhaust: obtains a b c where "x = ((a, b), c)"
  by (cases x, cases "fst x") auto

lemma reply3_exhaust: obtains a b c d where "x = ((a, b, c), d)"
  by (cases x, cases "fst x", cases "snd (fst x)") auto

lemma map_option_eq_None_iff: "map_option f m = None \<longleftrightarrow> m = None"
  by simp

section \<open>Runs\<close>

text \<open>Runs of any labelled step relation.\<close>

inductive labelled_run :: "('s \<Rightarrow> 'e \<Rightarrow> 's \<Rightarrow> bool) \<Rightarrow> 's \<Rightarrow> 'e list \<Rightarrow> 's \<Rightarrow> bool" for step where
  Stop: "labelled_run step s [] s"
| Step: "labelled_run step s evs s' \<Longrightarrow> step s' ev s'' \<Longrightarrow> labelled_run step s (evs @ [ev]) s''"

end
