(* ===== verification/Api.thy ===== *)
theory Api
  imports Prelude
begin

text \<open>
  The public vocabulary of laser.h: the outcome of a call, its integer encoding, the CD sector
  kinds, and the one pure function of the interface, \<open>laser_status_is_positional()\<close> (scsi.c).
\<close>

section \<open>Outcomes\<close>

datatype laser_status =
    LASER_OK
  | LASER_ERR_NO_SUCH_TOKEN
  | LASER_ERR_IO
  | LASER_ERR_MEDIA_GONE
  | LASER_ERR_REFUSED
  | LASER_ERR_SCRAMBLED
  | LASER_ERR_NO_KEY
  | LASER_ERR_REGION
  | LASER_ERR_INVALID
  | LASER_ERR_CANCELLED
  | LASER_ERR_NO_DEVICE

text \<open>The enumerators' values: a block helper returns either a count or one of these.\<close>

fun status_code :: "laser_status \<Rightarrow> int" where
  "status_code LASER_OK = 0"
| "status_code LASER_ERR_NO_SUCH_TOKEN = -1"
| "status_code LASER_ERR_IO = -2"
| "status_code LASER_ERR_MEDIA_GONE = -3"
| "status_code LASER_ERR_REFUSED = -4"
| "status_code LASER_ERR_SCRAMBLED = -5"
| "status_code LASER_ERR_NO_KEY = -6"
| "status_code LASER_ERR_REGION = -7"
| "status_code LASER_ERR_INVALID = -8"
| "status_code LASER_ERR_CANCELLED = -9"
| "status_code LASER_ERR_NO_DEVICE = -10"

definition laser_status_is_positional :: "int \<Rightarrow> bool" where
  "laser_status_is_positional status =
     (status = status_code LASER_ERR_SCRAMBLED \<or> status = status_code LASER_ERR_REGION \<or>
      status = status_code LASER_ERR_REFUSED)"

lemma status_code_inj: "status_code a = status_code b \<longleftrightarrow> a = b"
  by (cases a; cases b) simp_all

lemma status_code_neg_iff: "status_code st < 0 \<longleftrightarrow> st \<noteq> LASER_OK"
  by (cases st) simp_all

lemma status_code_le_0: "status_code st \<le> 0"
  by (cases st) simp_all

section \<open>CD sector kinds\<close>

text \<open>
  A caller passes the kind as an integer; anything outside the enumeration is a caller bug
  that \<open>laser_read_cd_blocks()\<close> refuses.
\<close>

datatype laser_cd_sector =
    LASER_CD_SECTOR_AUDIO
  | LASER_CD_SECTOR_MODE2_FORM2
  | LASER_CD_SECTOR_ANY
  | CD_SECTOR_OTHER int

end
