(* ===== verification/Device.thy ===== *)
theory Device
  imports Api
begin

text \<open>
  The per-device state of laser_internal.h and everything outside the library: libusb, the
  clock, sleeping, the system calls of registration, and the other threads of the process.
  The outside is a parameter of the model (a record of functions over an arbitrary world);
  every call goes through a wrapper that also records it in a trace, so that what was sent to
  the drive, and in what order, can be stated.
\<close>

section \<open>The registry entry\<close>

type_synonym handle = nat
type_synonym cookie = nat

abbreviation LASER_MAX_DEVICES :: nat where "LASER_MAX_DEVICES \<equiv> 8"
abbreviation LASER_MAX_BYTES_PER_TRANSFER :: int where
  "LASER_MAX_BYTES_PER_TRANSFER \<equiv> 65536"
abbreviation LASER_MIN_BYTES_PER_TRANSFER :: int where
  "LASER_MIN_BYTES_PER_TRANSFER \<equiv> 8192"

text \<open>
  \<open>laser_entry_t\<close>. The three pthread objects are represented by the resource events below;
  the cookie of a CSS session is \<open>None\<close> for the NULL pointer.
\<close>

record laser_entry =
  in_use :: bool
  token :: int
  refs :: int
  max_transfer_bytes :: int
  cancelled :: bool
  device_gone :: bool
  reg_dev :: nat
  reg_ino :: nat
  ctx :: nat
  handle :: handle
  iface_num :: byte
  ep_in :: byte
  ep_out :: byte
  ep_max_packet :: u16
  kernel_driver_detached :: bool
  xfer_bytes :: u64
  xfer_us :: u64
  xfer_count :: u64
  slow_warned :: bool
  tag :: u32
  vid :: u16
  pid :: u16
  bcd_device :: u16
  residue_quirk_logged :: bool
  csw_stall_quirk_logged :: bool
  probe_timeouts :: bool
  lun :: byte
  css_open :: bool
  css_owner :: "cookie option"
  not_ready :: bool

text \<open>The all-zero entry \<open>memset()\<close> leaves.\<close>

definition zero_entry :: laser_entry where
  "zero_entry = \<lparr>in_use = False, token = 0, refs = 0, max_transfer_bytes = 0,
     cancelled = False, device_gone = False, reg_dev = 0, reg_ino = 0, ctx = 0, handle = 0,
     iface_num = 0, ep_in = 0, ep_out = 0, ep_max_packet = 0, kernel_driver_detached = False,
     xfer_bytes = 0, xfer_us = 0, xfer_count = 0, slow_warned = False, tag = 0, vid = 0,
     pid = 0, bcd_device = 0, residue_quirk_logged = False, csw_stall_quirk_logged = False,
     probe_timeouts = False, lun = 0, css_open = False, css_owner = None, not_ready = False\<rparr>"

text \<open>
  What one Bulk-Only transaction may change of an entry: the command tag and the two
  log-once flags.
\<close>

definition entry_frame :: "laser_entry \<Rightarrow> laser_entry \<Rightarrow> bool" where
  "entry_frame e e' \<longleftrightarrow>
     (\<exists>t r s. e' = e\<lparr>tag := t, residue_quirk_logged := r, csw_stall_quirk_logged := s\<rparr>)"

text \<open>
  What may happen to a published entry's shared fields while a thread is not looking: the
  two terminal flags only rise, the transfer cap only shrinks and stays at or above its floor,
  and what registration fixed does not change. The comments on the fields promise exactly
  this; it is what another thread may rely on.
\<close>

definition entry_rely :: "laser_entry \<Rightarrow> laser_entry \<Rightarrow> bool" where
  "entry_rely e e' \<longleftrightarrow>
     (cancelled e \<longrightarrow> cancelled e') \<and> (device_gone e \<longrightarrow> device_gone e') \<and>
     max_transfer_bytes e' \<le> max_transfer_bytes e \<and>
     (LASER_MIN_BYTES_PER_TRANSFER \<le> max_transfer_bytes e \<longrightarrow>
      LASER_MIN_BYTES_PER_TRANSFER \<le> max_transfer_bytes e') \<and>
     in_use e' = in_use e \<and> token e' = token e \<and> ctx e' = ctx e \<and> handle e' = handle e \<and>
     iface_num e' = iface_num e \<and> ep_in e' = ep_in e \<and> ep_out e' = ep_out e \<and>
     ep_max_packet e' = ep_max_packet e \<and> lun e' = lun e \<and>
     kernel_driver_detached e' = kernel_driver_detached e"

lemma entry_frame_refl [simp, intro]: "entry_frame e e"
  unfolding entry_frame_def
  by (intro exI [of _ "tag e"] exI [of _ "residue_quirk_logged e"]
      exI [of _ "csw_stall_quirk_logged e"]) simp

lemma entry_frame_updates [simp, intro]:
  "entry_frame e (e\<lparr>tag := t\<rparr>)" "entry_frame e (e\<lparr>residue_quirk_logged := r\<rparr>)"
  "entry_frame e (e\<lparr>csw_stall_quirk_logged := s\<rparr>)"
proof -
  have "e\<lparr>tag := t\<rparr> = e\<lparr>tag := t, residue_quirk_logged := residue_quirk_logged e,
    csw_stall_quirk_logged := csw_stall_quirk_logged e\<rparr>" by simp
  then show "entry_frame e (e\<lparr>tag := t\<rparr>)" unfolding entry_frame_def by blast
  have "e\<lparr>residue_quirk_logged := r\<rparr> = e\<lparr>tag := tag e, residue_quirk_logged := r,
    csw_stall_quirk_logged := csw_stall_quirk_logged e\<rparr>" by simp
  then show "entry_frame e (e\<lparr>residue_quirk_logged := r\<rparr>)"
    unfolding entry_frame_def by blast
  have "e\<lparr>csw_stall_quirk_logged := s\<rparr> = e\<lparr>tag := tag e,
    residue_quirk_logged := residue_quirk_logged e, csw_stall_quirk_logged := s\<rparr>" by simp
  then show "entry_frame e (e\<lparr>csw_stall_quirk_logged := s\<rparr>)"
    unfolding entry_frame_def by blast
qed

lemma entry_frame_trans [trans]:
  "entry_frame a b \<Longrightarrow> entry_frame b c \<Longrightarrow> entry_frame a c"
  unfolding entry_frame_def by (elim exE, intro exI) simp

lemma entry_rely_refl [simp, intro]: "entry_rely e e"
  by (simp add: entry_rely_def)

lemma entry_rely_trans [trans]:
  "entry_rely a b \<Longrightarrow> entry_rely b c \<Longrightarrow> entry_rely a c"
  unfolding entry_rely_def by (elim conjE, intro conjI) auto

section \<open>The outside world\<close>

text \<open>libusb's result codes, as its documentation lists them.\<close>

datatype libusb_ret =
    LIBUSB_SUCCESS
  | LIBUSB_ERROR_IO
  | LIBUSB_ERROR_INVALID_PARAM
  | LIBUSB_ERROR_ACCESS
  | LIBUSB_ERROR_NO_DEVICE
  | LIBUSB_ERROR_NOT_FOUND
  | LIBUSB_ERROR_BUSY
  | LIBUSB_ERROR_TIMEOUT
  | LIBUSB_ERROR_OVERFLOW
  | LIBUSB_ERROR_PIPE
  | LIBUSB_ERROR_INTERRUPTED
  | LIBUSB_ERROR_NO_MEM
  | LIBUSB_ERROR_NOT_SUPPORTED
  | LIBUSB_ERROR_OTHER

record timespec =
  tv_sec :: int
  tv_nsec :: int

text \<open>The descriptors \<open>laser_find_bulk_endpoints()\<close> walks.\<close>

record usb_endpoint =
  bEndpointAddress :: byte
  bmAttributes :: byte
  wMaxPacketSize :: u16

record usb_interface =
  bInterfaceNumber :: byte
  bInterfaceClass :: byte
  bInterfaceSubClass :: byte
  bInterfaceProtocol :: byte
  endpoint :: "usb_endpoint list"

text \<open>A configuration: per interface, its alternate settings (possibly none).\<close>

type_synonym usb_config = "usb_interface list list"

record usb_device_desc =
  idVendor :: u16
  idProduct :: u16
  bcdDevice :: u16

text \<open>
  What registration sets up and teardown or the unwind ladder must give back: the pthread
  objects of an entry, the libusb context, the wrapped handle, the configuration descriptor,
  the claimed interface, and a kernel driver that was detached.
\<close>

datatype resource =
    Res_Io_Lock
  | Res_Css_Mtx
  | Res_Cv_Attr
  | Res_Css_Cv
  | Res_Context nat
  | Res_Handle handle
  | Res_Config handle
  | Res_Kernel_Driver handle byte
  | Res_Interface handle byte

datatype iface_op = Op_Detach_Kernel_Driver | Op_Attach_Kernel_Driver | Op_Claim | Op_Release

text \<open>
  The calls out of the library. A bulk transfer answers a result code with the number of
  bytes that moved (out) or the bytes that arrived (in). \<open>other_threads\<close> is what other
  threads did to a shared entry while the I/O lock was not held, \<open>other_cancel\<close> whether one
  of them has meanwhile dropped the last claim.
\<close>

record 'w host =
  bulk_out :: "handle \<Rightarrow> byte \<Rightarrow> byte list \<Rightarrow> nat \<Rightarrow> 'w \<Rightarrow> (libusb_ret \<times> nat) \<times> 'w"
  bulk_in :: "handle \<Rightarrow> byte \<Rightarrow> nat \<Rightarrow> nat \<Rightarrow> 'w \<Rightarrow> (libusb_ret \<times> byte list) \<times> 'w"
  clear_halt :: "handle \<Rightarrow> byte \<Rightarrow> 'w \<Rightarrow> libusb_ret \<times> 'w"
  control_transfer :: "handle \<Rightarrow> byte \<Rightarrow> byte \<Rightarrow> byte \<Rightarrow> nat \<Rightarrow> 'w \<Rightarrow> (int \<times> byte list) \<times> 'w"
  clock_gettime :: "'w \<Rightarrow> timespec \<times> 'w"
  usleep :: "nat \<Rightarrow> 'w \<Rightarrow> 'w"
  other_threads :: "laser_entry \<Rightarrow> 'w \<Rightarrow> laser_entry \<times> 'w"
  other_cancel :: "'w \<Rightarrow> bool \<times> 'w"
  fstat :: "int \<Rightarrow> 'w \<Rightarrow> (nat \<times> nat) option \<times> 'w"
  pthread_init :: "resource \<Rightarrow> 'w \<Rightarrow> bool \<times> 'w"
  condattr_setclock :: "'w \<Rightarrow> bool \<times> 'w"
  libusb_init_context :: "'w \<Rightarrow> (libusb_ret \<times> nat) \<times> 'w"
  libusb_wrap_sys_device :: "nat \<Rightarrow> int \<Rightarrow> 'w \<Rightarrow> (libusb_ret \<times> handle) \<times> 'w"
  libusb_get_device_descriptor :: "handle \<Rightarrow> 'w \<Rightarrow> usb_device_desc option \<times> 'w"
  libusb_get_active_config_descriptor :: "handle \<Rightarrow> 'w \<Rightarrow> usb_config option \<times> 'w"
  libusb_kernel_driver_active :: "handle \<Rightarrow> byte \<Rightarrow> 'w \<Rightarrow> int \<times> 'w"
  libusb_interface :: "iface_op \<Rightarrow> handle \<Rightarrow> byte \<Rightarrow> 'w \<Rightarrow> libusb_ret \<times> 'w"
  libusb_close :: "handle \<Rightarrow> 'w \<Rightarrow> 'w"
  libusb_exit :: "nat \<Rightarrow> 'w \<Rightarrow> 'w"

section \<open>Traces and device contexts\<close>

text \<open>Which of the three phases of a transaction issued a bulk transfer.\<close>

datatype phase = CBW_Phase | Data_Phase | CSW_Phase

datatype event =
    Ev_Bulk_Out phase handle byte "byte list" libusb_ret nat
  | Ev_Bulk_In phase handle byte nat libusb_ret "byte list"
  | Ev_Clear_Halt handle byte libusb_ret
  | Ev_Control handle byte byte byte int
  | Ev_Sleep nat
  | Ev_Acquire resource
  | Ev_Release resource

text \<open>
  The world and the trace of calls made so far, extended by what a function works on: one
  entry (a device context, for code running on a \<open>laser_entry_t *\<close>) or the whole table.
\<close>

record 'w io =
  world :: 'w
  trace :: "event list"

record 'w dev = "'w io" +
  ent :: laser_entry

definition upd_ent :: "(laser_entry \<Rightarrow> laser_entry) \<Rightarrow> 'w dev \<Rightarrow> 'w dev" where
  "upd_ent f d = d\<lparr>ent := f (ent d)\<rparr>"

lemma upd_ent_sel [simp]:
  "ent (upd_ent f d) = f (ent d)" "world (upd_ent f d) = world d"
  "trace (upd_ent f d) = trace d"
  by (simp_all add: upd_ent_def)

section \<open>Calls\<close>

definition do_bulk_out ::
  "'w host \<Rightarrow> phase \<Rightarrow> byte \<Rightarrow> byte list \<Rightarrow> nat \<Rightarrow> 'w dev \<Rightarrow> (libusb_ret \<times> nat) \<times> 'w dev" where
  "do_bulk_out h ph ep bs timeout d =
     (case bulk_out h (handle (ent d)) ep bs timeout (world d) of ((ret, n), w) \<Rightarrow>
       ((ret, n), d\<lparr>world := w,
          trace := trace d @ [Ev_Bulk_Out ph (handle (ent d)) ep bs ret n]\<rparr>))"

definition do_bulk_in ::
  "'w host \<Rightarrow> phase \<Rightarrow> byte \<Rightarrow> nat \<Rightarrow> nat \<Rightarrow> 'w dev \<Rightarrow> (libusb_ret \<times> byte list) \<times> 'w dev" where
  "do_bulk_in h ph ep len timeout d =
     (case bulk_in h (handle (ent d)) ep len timeout (world d) of ((ret, bs), w) \<Rightarrow>
       ((ret, bs), d\<lparr>world := w,
          trace := trace d @ [Ev_Bulk_In ph (handle (ent d)) ep len ret bs]\<rparr>))"

definition do_clear_halt :: "'w host \<Rightarrow> byte \<Rightarrow> 'w dev \<Rightarrow> 'w dev" where
  "do_clear_halt h ep d =
     (case clear_halt h (handle (ent d)) ep (world d) of (ret, w) \<Rightarrow>
       d\<lparr>world := w, trace := trace d @ [Ev_Clear_Halt (handle (ent d)) ep ret]\<rparr>)"

definition do_control ::
  "'w host \<Rightarrow> byte \<Rightarrow> byte \<Rightarrow> byte \<Rightarrow> nat \<Rightarrow> 'w dev \<Rightarrow> (int \<times> byte list) \<times> 'w dev" where
  "do_control h bmRequestType bRequest wIndex len d =
     (case control_transfer h (handle (ent d)) bmRequestType bRequest wIndex len (world d) of
       ((ret, bs), w) \<Rightarrow>
         ((ret, bs), d\<lparr>world := w, trace := trace d @
            [Ev_Control (handle (ent d)) bmRequestType bRequest wIndex ret]\<rparr>))"

definition do_usleep :: "'w host \<Rightarrow> nat \<Rightarrow> 'w dev \<Rightarrow> 'w dev" where
  "do_usleep h us d = d\<lparr>world := usleep h us (world d), trace := trace d @ [Ev_Sleep us]\<rparr>"

definition do_clock :: "'w host \<Rightarrow> 'w dev \<Rightarrow> timespec \<times> 'w dev" where
  "do_clock h d = (case clock_gettime h (world d) of (t, w) \<Rightarrow> (t, d\<lparr>world := w\<rparr>))"

text \<open>
  Taking \<open>entry->io_lock\<close>: whatever other threads did while it was free has happened by then.
\<close>

definition lock_io :: "'w host \<Rightarrow> 'w dev \<Rightarrow> 'w dev" where
  "lock_io h d =
     (case other_threads h (ent d) (world d) of (e, w) \<Rightarrow> d\<lparr>world := w, ent := e\<rparr>)"

text \<open>
  \<open>laser_is_cancelled()\<close>, with the other threads' \<open>laser_set_cancelled()\<close> taking effect first:
  the flag only ever goes from 0 to 1.
\<close>

definition laser_set_cancelled :: "laser_entry \<Rightarrow> laser_entry" where
  "laser_set_cancelled e = e\<lparr>cancelled := True\<rparr>"

definition laser_is_cancelled :: "'w host \<Rightarrow> 'w dev \<Rightarrow> bool \<times> 'w dev" where
  "laser_is_cancelled h d =
     (case other_cancel h (world d) of (raised, w) \<Rightarrow>
       let e = (if raised then laser_set_cancelled (ent d) else ent d)
       in (cancelled e, d\<lparr>world := w, ent := e\<rparr>))"

text \<open>\<open>monotonic_ms_since()\<close> of scsi.c, between two readings of the clock.\<close>

definition monotonic_ms_since :: "timespec \<Rightarrow> timespec \<Rightarrow> int" where
  "monotonic_ms_since start now =
     (tv_sec now - tv_sec start) * 1000 + c_div (tv_nsec now - tv_nsec start) 1000000"

definition ms_since :: "'w host \<Rightarrow> timespec \<Rightarrow> 'w dev \<Rightarrow> int \<times> 'w dev" where
  "ms_since h start d = (case do_clock h d of (now, d') \<Rightarrow> (monotonic_ms_since start now, d'))"

section \<open>Documented behaviour of the outside\<close>

text \<open>
  libusb never moves more than it was asked to: the number it reports is within the length of
  the transfer. \<open>libusb_bulk_transfer()\<close> documents \<open>transferred\<close> so.
\<close>

definition usb_bounded :: "'w host \<Rightarrow> bool" where
  "usb_bounded h \<longleftrightarrow>
     (\<forall>hn ep len t w. length (snd (fst (bulk_in h hn ep len t w))) \<le> len) \<and>
     (\<forall>hn ep bs t w. snd (fst (bulk_out h hn ep bs t w)) \<le> length bs)"

text \<open>
  A relation between worlds that every call keeps: the generic way to say that something
  outside (the time, a script of answers) only moves one way.
\<close>

definition host_rel :: "'w host \<Rightarrow> ('w \<Rightarrow> 'w \<Rightarrow> bool) \<Rightarrow> bool" where
  "host_rel h R \<longleftrightarrow> reflp R \<and> transp R \<and>
     (\<forall>hn ep bs t w. R w (snd (bulk_out h hn ep bs t w))) \<and>
     (\<forall>hn ep len t w. R w (snd (bulk_in h hn ep len t w))) \<and>
     (\<forall>hn ep w. R w (snd (clear_halt h hn ep w))) \<and>
     (\<forall>hn a b c len w. R w (snd (control_transfer h hn a b c len w))) \<and>
     (\<forall>w. R w (snd (clock_gettime h w))) \<and>
     (\<forall>us w. R w (usleep h us w)) \<and>
     (\<forall>e w. R w (snd (other_threads h e w))) \<and>
     (\<forall>w. R w (snd (other_cancel h w))) \<and>
     (\<forall>fd w. R w (snd (fstat h fd w))) \<and>
     (\<forall>r w. R w (snd (pthread_init h r w))) \<and>
     (\<forall>w. R w (snd (condattr_setclock h w))) \<and>
     (\<forall>w. R w (snd (libusb_init_context h w))) \<and>
     (\<forall>c fd w. R w (snd (libusb_wrap_sys_device h c fd w))) \<and>
     (\<forall>hn w. R w (snd (libusb_get_device_descriptor h hn w))) \<and>
     (\<forall>hn w. R w (snd (libusb_get_active_config_descriptor h hn w))) \<and>
     (\<forall>hn i w. R w (snd (libusb_kernel_driver_active h hn i w))) \<and>
     (\<forall>op hn i w. R w (snd (libusb_interface h op hn i w))) \<and>
     (\<forall>hn w. R w (libusb_close h hn w)) \<and>
     (\<forall>c w. R w (libusb_exit h c w))"

text \<open>
  CLOCK_MONOTONIC: there is a time, in nanoseconds, that the clock reads with a normalised
  \<open>tv_nsec\<close>, that no call moves back, and that \<open>usleep(us)\<close> moves on by at least \<open>us\<close>
  microseconds.
\<close>

definition clock_monotonic :: "'w host \<Rightarrow> ('w \<Rightarrow> int) \<Rightarrow> bool" where
  "clock_monotonic h now_ns \<longleftrightarrow>
     host_rel h (\<lambda>w w'. now_ns w \<le> now_ns w') \<and>
     (\<forall>w. let t = fst (clock_gettime h w) in
        0 \<le> tv_nsec t \<and> tv_nsec t < 1000000000 \<and>
        now_ns w \<le> tv_sec t * 1000000000 + tv_nsec t \<and>
        tv_sec t * 1000000000 + tv_nsec t \<le> now_ns (snd (clock_gettime h w))) \<and>
     (\<forall>us w. now_ns w + int us * 1000 \<le> now_ns (usleep h us w))"

text \<open>Other threads keep to what the entry's comments promise.\<close>

definition threads_rely :: "'w host \<Rightarrow> bool" where
  "threads_rely h \<longleftrightarrow> (\<forall>e w. entry_rely e (fst (other_threads h e w)))"

section \<open>Basic facts\<close>

lemma host_relD:
  assumes "host_rel h R"
  shows "R w w" and "R a b \<Longrightarrow> R b c \<Longrightarrow> R a c"
    and "R w (snd (bulk_out h hn ep bs t w))" and "R w (snd (bulk_in h hn ep len t w))"
    and "R w (snd (clear_halt h hn ep w))" and "R w (snd (control_transfer h hn x y z len w))"
    and "R w (snd (clock_gettime h w))" and "R w (usleep h us w)"
    and "R w (snd (other_threads h e w))" and "R w (snd (other_cancel h w))"
  using assms unfolding host_rel_def by (auto dest: reflpD transpD)

lemma do_bulk_out_frame [frame_simps]:
  "ent (snd (do_bulk_out h ph ep bs t d)) = ent d"
  by (simp add: do_bulk_out_def split: prod.split)

lemma do_bulk_in_frame [frame_simps]:
  "ent (snd (do_bulk_in h ph ep len t d)) = ent d"
  by (simp add: do_bulk_in_def split: prod.split)

lemma do_clear_halt_frame [frame_simps]: "ent (do_clear_halt h ep d) = ent d"
  by (simp add: do_clear_halt_def split: prod.split)

lemma do_control_frame [frame_simps]:
  "ent (snd (do_control h a b c len d)) = ent d"
  by (simp add: do_control_def split: prod.split)

lemma do_usleep_frame [frame_simps]: "ent (do_usleep h us d) = ent d"
  by (simp add: do_usleep_def)

lemma do_clock_frame [frame_simps]:
  "ent (snd (do_clock h d)) = ent d" "trace (snd (do_clock h d)) = trace d"
  by (simp_all add: do_clock_def split: prod.split)

lemma ms_since_frame [frame_simps]:
  "ent (snd (ms_since h s d)) = ent d" "trace (snd (ms_since h s d)) = trace d"
  by (simp_all add: ms_since_def do_clock_def split: prod.split)

lemma lock_io_frame [frame_simps]: "trace (lock_io h d) = trace d"
  by (simp add: lock_io_def split: prod.split)

lemma laser_is_cancelled_frame [frame_simps]:
  "trace (snd (laser_is_cancelled h d)) = trace d"
  by (simp add: laser_is_cancelled_def Let_def split: prod.split)

lemma call_worlds:
  assumes "host_rel h R"
  shows "R (world d) (world (snd (do_bulk_out h ph ep bs t d)))"
    and "R (world d) (world (snd (do_bulk_in h ph ep len t d)))"
    and "R (world d) (world (do_clear_halt h ep d))"
    and "R (world d) (world (snd (do_control h a b c len d)))"
    and "R (world d) (world (do_usleep h us d))"
    and "R (world d) (world (snd (do_clock h d)))"
    and "R (world d) (world (snd (ms_since h s d)))"
    and "R (world d) (world (lock_io h d))"
    and "R (world d) (world (snd (laser_is_cancelled h d)))"
  using host_relD(3-) [OF assms]
  by (auto simp: do_bulk_out_def do_bulk_in_def do_clear_halt_def do_control_def do_usleep_def
      do_clock_def ms_since_def lock_io_def laser_is_cancelled_def Let_def split: prod.split)
    (metis snd_conv)+

text \<open>The same facts in the shape a chain of calls is discharged with, last call first.\<close>

lemma world_after:
  assumes R: "host_rel h R"
  shows "R w (world d) \<Longrightarrow> R w (world (snd (do_bulk_out h ph ep bs t d)))"
    and "R w (world d) \<Longrightarrow> R w (world (snd (do_bulk_in h ph ep len t d)))"
    and "R w (world d) \<Longrightarrow> R w (world (do_clear_halt h ep d))"
    and "R w (world d) \<Longrightarrow> R w (world (snd (do_control h a b c len d)))"
    and "R w (world d) \<Longrightarrow> R w (world (do_usleep h us d))"
    and "R w (world d) \<Longrightarrow> R w (world (snd (do_clock h d)))"
    and "R w (world d) \<Longrightarrow> R w (world (snd (ms_since h s d)))"
    and "R w (world d) \<Longrightarrow> R w (world (lock_io h d))"
    and "R w (world d) \<Longrightarrow> R w (world (snd (laser_is_cancelled h d)))"
  by (rule host_relD(2) [OF R], assumption, rule call_worlds [OF R])+

lemma entry_frameD:
  assumes "entry_frame e e'"
  shows "in_use e' = in_use e" "token e' = token e" "refs e' = refs e"
    "max_transfer_bytes e' = max_transfer_bytes e" "cancelled e' = cancelled e"
    "device_gone e' = device_gone e" "handle e' = handle e" "ctx e' = ctx e"
    "iface_num e' = iface_num e" "ep_in e' = ep_in e" "ep_out e' = ep_out e"
    "probe_timeouts e' = probe_timeouts e" "lun e' = lun e" "not_ready e' = not_ready e"
    "css_open e' = css_open e" "css_owner e' = css_owner e"
    "kernel_driver_detached e' = kernel_driver_detached e"
    "ep_max_packet e' = ep_max_packet e" "slow_warned e' = slow_warned e"
  using assms unfolding entry_frame_def by (elim exE; simp)+

lemma entry_frame_rely: "entry_frame e e' \<Longrightarrow> entry_rely e e'"
  unfolding entry_frame_def by (elim exE) (simp add: entry_rely_def)

end
