(* ===== verification/Usb.thy ===== *)
theory Usb
  imports Device
begin

text \<open>
  usb.c: finding the interface that carries the Bulk-Only function with its bulk endpoint pair,
  and the Mass Storage Reset.
\<close>

abbreviation USB_CLASS_MASS_STORAGE :: byte where "USB_CLASS_MASS_STORAGE \<equiv> 0x08"
abbreviation USB_MS_PROTOCOL_BULK_ONLY :: byte where "USB_MS_PROTOCOL_BULK_ONLY \<equiv> 0x50"
abbreviation LIBUSB_TRANSFER_TYPE_MASK :: byte where "LIBUSB_TRANSFER_TYPE_MASK \<equiv> 0x03"
abbreviation LIBUSB_TRANSFER_TYPE_BULK :: byte where "LIBUSB_TRANSFER_TYPE_BULK \<equiv> 0x02"
abbreviation LIBUSB_ENDPOINT_IN :: byte where "LIBUSB_ENDPOINT_IN \<equiv> 0x80"

section \<open>Endpoint discovery\<close>

text \<open>The locals of the endpoint scan: the pair found so far (0 is none) and its packet sizes.\<close>

record ep_scan =
  s_in :: byte
  s_out :: byte
  s_in_mps :: u16
  s_out_mps :: u16

definition scan_endpoint :: "usb_endpoint \<Rightarrow> ep_scan \<Rightarrow> ep_scan" where
  "scan_endpoint ep s =
     (if bmAttributes ep AND LIBUSB_TRANSFER_TYPE_MASK \<noteq> LIBUSB_TRANSFER_TYPE_BULK then s
      else if bEndpointAddress ep AND LIBUSB_ENDPOINT_IN \<noteq> 0 \<and> s_in s = 0 then
        s\<lparr>s_in := bEndpointAddress ep, s_in_mps := wMaxPacketSize ep AND 0x07ff\<rparr>
      else if bEndpointAddress ep AND LIBUSB_ENDPOINT_IN = 0 \<and> s_out s = 0 then
        s\<lparr>s_out := bEndpointAddress ep, s_out_mps := wMaxPacketSize ep AND 0x07ff\<rparr>
      else s)"

definition scan_endpoints :: "usb_endpoint list \<Rightarrow> ep_scan" where
  "scan_endpoints eps =
     fold scan_endpoint eps \<lparr>s_in = 0, s_out = 0, s_in_mps = 0, s_out_mps = 0\<rparr>"

definition is_bulk_only :: "usb_interface \<Rightarrow> bool" where
  "is_bulk_only ifc \<longleftrightarrow>
     bInterfaceClass ifc = USB_CLASS_MASS_STORAGE \<and>
     bInterfaceProtocol ifc = USB_MS_PROTOCOL_BULK_ONLY"

text \<open>The interface loop: the first interface that is Bulk-Only and has both endpoints.\<close>

fun choose_interface :: "usb_config \<Rightarrow> laser_entry \<Rightarrow> laser_entry option" where
  "choose_interface [] e = None"
| "choose_interface ([] # rest) e = choose_interface rest e"
| "choose_interface ((ifc # alts) # rest) e =
     (if \<not> is_bulk_only ifc then choose_interface rest e
      else let s = scan_endpoints (endpoint ifc) in
        if s_in s = 0 \<or> s_out s = 0 then choose_interface rest e
        else Some (e\<lparr>iface_num := bInterfaceNumber ifc, ep_in := s_in s, ep_out := s_out s,
               ep_max_packet := (if s_in_mps s < s_out_mps s then s_in_mps s else s_out_mps s)\<rparr>))"

definition laser_find_bulk_endpoints :: "'w host \<Rightarrow> 'w dev \<Rightarrow> bool \<times> 'w dev" where
  "laser_find_bulk_endpoints h d =
     (case libusb_get_active_config_descriptor h (handle (ent d)) (world d) of
        (None, w) \<Rightarrow> (False, d\<lparr>world := w\<rparr>)
      | (Some cfg, w) \<Rightarrow>
          let d1 = d\<lparr>world := w, trace := trace d @ [Ev_Acquire (Res_Config (handle (ent d)))]\<rparr>;
              d2 = d1\<lparr>trace := trace d1 @ [Ev_Release (Res_Config (handle (ent d)))]\<rparr>
          in (case choose_interface cfg (ent d) of
                Some e \<Rightarrow> (True, d2\<lparr>ent := e\<rparr>)
              | None \<Rightarrow> (False, d2)))"

section \<open>Mass Storage Reset\<close>

abbreviation USB_BOT_RESET_bREQUEST :: byte where "USB_BOT_RESET_bREQUEST \<equiv> 0xFF"
abbreviation USB_BOT_RESET_bmREQUESTTYPE :: byte where "USB_BOT_RESET_bmREQUESTTYPE \<equiv> 0x21"

text \<open>The request's result is only logged, and the two halts are cleared whatever it was.\<close>

definition laser_mass_storage_reset :: "'w host \<Rightarrow> 'w dev \<Rightarrow> 'w dev" where
  "laser_mass_storage_reset h d =
     (let d1 = snd (do_control h USB_BOT_RESET_bmREQUESTTYPE USB_BOT_RESET_bREQUEST
                      (iface_num (ent d)) 0 d);
          d2 = do_clear_halt h (ep_in (ent d)) d1;
          d3 = do_clear_halt h (ep_out (ent d)) d2
      in do_usleep h (100 * 1000) d3)"

text \<open>The calls of one Reset Recovery on an entry's interface and endpoints.\<close>

fun is_reset_recovery :: "laser_entry \<Rightarrow> event list \<Rightarrow> bool" where
  "is_reset_recovery e [Ev_Control hn rt rq ifn _, Ev_Clear_Halt h1 ep1 _, Ev_Clear_Halt h2 ep2 _,
       Ev_Sleep us] =
     (hn = handle e \<and> h1 = handle e \<and> h2 = handle e \<and> rt = USB_BOT_RESET_bmREQUESTTYPE \<and>
      rq = USB_BOT_RESET_bREQUEST \<and> ifn = iface_num e \<and> ep1 = ep_in e \<and> ep2 = ep_out e \<and>
      us = 100000)"
| "is_reset_recovery e _ = False"

lemma is_reset_recovery_iff:
  "is_reset_recovery e evs \<longleftrightarrow>
     (\<exists>r a b. evs = [Ev_Control (handle e) USB_BOT_RESET_bmREQUESTTYPE USB_BOT_RESET_bREQUEST
         (iface_num e) r, Ev_Clear_Halt (handle e) (ep_in e) a,
         Ev_Clear_Halt (handle e) (ep_out e) b, Ev_Sleep 100000])"
  by (cases "(e, evs)" rule: is_reset_recovery.cases) auto

lemma is_reset_recovery_frame:
  "entry_frame e e' \<Longrightarrow> is_reset_recovery e' evs = is_reset_recovery e evs"
  by (simp add: is_reset_recovery_iff entry_frameD)

lemma laser_mass_storage_reset_frame [frame_simps]:
  "ent (laser_mass_storage_reset h d) = ent d"
  by (simp add: laser_mass_storage_reset_def Let_def frame_simps)

lemma laser_mass_storage_reset_trace:
  "\<exists>evs. is_reset_recovery (ent d) evs \<and>
     trace (laser_mass_storage_reset h d) = trace d @ evs"
  by (simp add: laser_mass_storage_reset_def Let_def do_control_def do_clear_halt_def
      do_usleep_def split: prod.split)

lemma laser_mass_storage_reset_world:
  assumes R: "host_rel h R"
  shows "R (world d) (world (laser_mass_storage_reset h d))"
proof -
  note step = call_worlds [OF R] and trans = host_relD(2) [OF R]
  show ?thesis
    unfolding laser_mass_storage_reset_def Let_def
    by (rule trans [OF trans [OF trans [OF step(4) step(3)] step(3)] step(5)])
qed

section \<open>What endpoint discovery promises\<close>

text \<open>
  The specification, independent of the scan: the endpoint with the given direction that comes
  first among an interface's bulk endpoints.
\<close>

definition bulk_with :: "bool \<Rightarrow> usb_endpoint \<Rightarrow> bool" where
  "bulk_with inward ep \<longleftrightarrow>
     bmAttributes ep AND LIBUSB_TRANSFER_TYPE_MASK = LIBUSB_TRANSFER_TYPE_BULK \<and>
     (bEndpointAddress ep AND LIBUSB_ENDPOINT_IN \<noteq> 0) = inward \<and> bEndpointAddress ep \<noteq> 0"

definition first_bulk :: "bool \<Rightarrow> usb_endpoint list \<Rightarrow> usb_endpoint option" where
  "first_bulk inward eps = find (bulk_with inward) eps"

definition usable_interface :: "usb_interface list \<Rightarrow> bool" where
  "usable_interface alts =
     (case alts of [] \<Rightarrow> False
      | ifc # _ \<Rightarrow> is_bulk_only ifc \<and> first_bulk True (endpoint ifc) \<noteq> None \<and>
          first_bulk False (endpoint ifc) \<noteq> None)"

lemma in_addr_nonzero: "bEndpointAddress ep AND LIBUSB_ENDPOINT_IN \<noteq> 0 \<Longrightarrow> bEndpointAddress ep \<noteq> 0"
  by auto

lemma scan_fold_in:
  "(s_in (fold scan_endpoint eps s), s_in_mps (fold scan_endpoint eps s)) =
     (if s_in s \<noteq> 0 then (s_in s, s_in_mps s)
      else case first_bulk True eps of None \<Rightarrow> (0, s_in_mps s)
           | Some ep \<Rightarrow> (bEndpointAddress ep, wMaxPacketSize ep AND 0x07ff))"
proof (induction eps arbitrary: s)
  case Nil
  show ?case by (simp add: first_bulk_def)
next
  case (Cons ep eps)
  show ?case
    unfolding fold.simps comp_apply Cons.IH
    by (auto simp: scan_endpoint_def first_bulk_def bulk_with_def dest: in_addr_nonzero
        split: option.split)
qed

lemma scan_fold_out:
  "(s_out (fold scan_endpoint eps s), s_out (fold scan_endpoint eps s) \<noteq> 0 \<longrightarrow>
      s_out_mps (fold scan_endpoint eps s) = (if s_out s \<noteq> 0 then s_out_mps s else
        case first_bulk False eps of None \<Rightarrow> 0 | Some ep \<Rightarrow> wMaxPacketSize ep AND 0x07ff)) =
     (if s_out s \<noteq> 0 then s_out s
      else case first_bulk False eps of None \<Rightarrow> 0 | Some ep \<Rightarrow> bEndpointAddress ep, True)"
proof (induction eps arbitrary: s)
  case Nil
  show ?case by (simp add: first_bulk_def)
next
  case (Cons ep eps)
  show ?case
    using Cons.IH [of "scan_endpoint ep s"]
    by (auto simp: scan_endpoint_def first_bulk_def bulk_with_def dest: in_addr_nonzero
        split: option.splits if_splits)
qed

lemma scan_endpoints_in:
  "s_in (scan_endpoints eps) =
     (case first_bulk True eps of None \<Rightarrow> 0 | Some ep \<Rightarrow> bEndpointAddress ep)"
  "first_bulk True eps = Some ep \<Longrightarrow> s_in_mps (scan_endpoints eps) = wMaxPacketSize ep AND 0x07ff"
  using scan_fold_in [of eps "\<lparr>s_in = 0, s_out = 0, s_in_mps = 0, s_out_mps = 0\<rparr>"]
  by (auto simp: scan_endpoints_def split: option.splits)

lemma first_bulk_Some: "first_bulk inward eps = Some ep \<Longrightarrow> ep \<in> set eps \<and> bulk_with inward ep"
  by (auto simp: first_bulk_def find_Some_iff)

lemma first_bulk_nonzero: "first_bulk inward eps = Some ep \<Longrightarrow> bEndpointAddress ep \<noteq> 0"
  by (auto dest: first_bulk_Some simp: bulk_with_def)

lemma scan_endpoints_out:
  "s_out (scan_endpoints eps) =
     (case first_bulk False eps of None \<Rightarrow> 0 | Some ep \<Rightarrow> bEndpointAddress ep)"
  "first_bulk False eps = Some ep \<Longrightarrow> s_out_mps (scan_endpoints eps) = wMaxPacketSize ep AND 0x07ff"
  using scan_fold_out [of eps "\<lparr>s_in = 0, s_out = 0, s_in_mps = 0, s_out_mps = 0\<rparr>"]
  by (auto simp: scan_endpoints_def dest: first_bulk_nonzero split: option.splits)

text \<open>The interface with its pair that the specification picks.\<close>

definition bulk_interface_spec ::
  "usb_config \<Rightarrow> (usb_interface \<times> usb_endpoint \<times> usb_endpoint) option" where
  "bulk_interface_spec cfg =
     map_option (\<lambda>alts. let ifc = hd alts in
        (ifc, the (first_bulk True (endpoint ifc)), the (first_bulk False (endpoint ifc))))
       (find usable_interface cfg)"

lemma if_less_is_min: "(if a < b then a else b) = min a (b :: 'a :: linorder)"
  by (auto simp: min_def)

lemma choose_interface_spec:
  "choose_interface cfg e =
     map_option (\<lambda>(ifc, i, out). e\<lparr>iface_num := bInterfaceNumber ifc,
         ep_in := bEndpointAddress i, ep_out := bEndpointAddress out,
         ep_max_packet := min (wMaxPacketSize i AND 0x07ff) (wMaxPacketSize out AND 0x07ff)\<rparr>)
       (bulk_interface_spec cfg)"
proof (induction cfg)
  case Nil
  show ?case by (simp add: bulk_interface_spec_def)
next
  case (Cons alts rest)
  show ?case
  proof (cases "usable_interface alts")
    case True
    then obtain ifc tl_alts i out where alts: "alts = ifc # tl_alts" and "is_bulk_only ifc"
      and i: "first_bulk True (endpoint ifc) = Some i"
      and out: "first_bulk False (endpoint ifc) = Some out"
      by (auto simp: usable_interface_def split: list.splits)
    then show ?thesis
      using True first_bulk_nonzero [OF i] first_bulk_nonzero [OF out]
      by (simp add: bulk_interface_spec_def Let_def scan_endpoints_in(1) scan_endpoints_out(1)
          scan_endpoints_in(2) [OF i] scan_endpoints_out(2) [OF out] if_less_is_min)
  next
    case False
    then have "choose_interface (alts # rest) e = choose_interface rest e"
      by (cases alts) (auto simp: usable_interface_def scan_endpoints_in(1)
          scan_endpoints_out(1) Let_def)
    with False Cons.IH show ?thesis by (simp add: bulk_interface_spec_def)
  qed
qed

lemma laser_find_bulk_endpoints_frame:
  "fst (laser_find_bulk_endpoints h d) = False \<Longrightarrow>
     ent (snd (laser_find_bulk_endpoints h d)) = ent d"
  by (auto simp: laser_find_bulk_endpoints_def Let_def split: prod.splits option.splits)

end
