(* ===== verification/Bot.thy ===== *)
theory Bot
  imports Usb
begin

text \<open>
  bot.c: exactly one Bulk-Only transaction - CBW, data phase in either direction, CSW - with the
  stall recovery and the Reset Recovery the class specification requires. The phases of
  \<open>laser_bot_send_locked()\<close> are definitions of their own, each answering either the code the C
  function returns at that point (\<open>Inl\<close>) or what the next phase needs (\<open>Inr\<close>).
\<close>

section \<open>Wrappers on the wire\<close>

abbreviation USB_BOT_CBW_SIGNATURE :: u32 where "USB_BOT_CBW_SIGNATURE \<equiv> 0x43425355"
abbreviation USB_BOT_CSW_SIGNATURE :: u32 where "USB_BOT_CSW_SIGNATURE \<equiv> 0x53425355"
abbreviation USB_BOT_CBW_SIZE :: nat where "USB_BOT_CBW_SIZE \<equiv> 31"
abbreviation USB_BOT_CSW_SIZE :: nat where "USB_BOT_CSW_SIZE \<equiv> 13"

abbreviation USB_BOT_STATUS_PASS :: byte where "USB_BOT_STATUS_PASS \<equiv> 0x00"
abbreviation USB_BOT_STATUS_FAIL :: byte where "USB_BOT_STATUS_FAIL \<equiv> 0x01"
abbreviation USB_BOT_STATUS_PHASE_ERROR :: byte where "USB_BOT_STATUS_PHASE_ERROR \<equiv> 0x02"

record bot_cbw =
  dCBWSignature :: u32
  dCBWTag :: u32
  dCBWDataTransferLength :: u32
  bmCBWFlags :: byte
  bCBWLUN :: byte
  bCBWCBLength :: byte
  CBWCB :: "byte list"

record bot_csw =
  dCSWSignature :: u32
  dCSWTag :: u32
  dCSWDataResidue :: u32
  bCSWStatus :: byte

text \<open>The packed struct layouts, on the little-endian host the source insists on.\<close>

definition cbw_bytes :: "bot_cbw \<Rightarrow> byte list" where
  "cbw_bytes c = le32_bytes (dCBWSignature c) @ le32_bytes (dCBWTag c) @
     le32_bytes (dCBWDataTransferLength c) @ [bmCBWFlags c, bCBWLUN c, bCBWCBLength c] @ CBWCB c"

definition le32_at :: "byte list \<Rightarrow> nat \<Rightarrow> u32" where
  "le32_at bs i = le32_word (bs ! i) (bs ! (i + 1)) (bs ! (i + 2)) (bs ! (i + 3))"

definition csw_of_bytes :: "byte list \<Rightarrow> bot_csw" where
  "csw_of_bytes bs = \<lparr>dCSWSignature = le32_at bs 0, dCSWTag = le32_at bs 4,
     dCSWDataResidue = le32_at bs 8, bCSWStatus = bs ! 12\<rparr>"

definition csw_bytes :: "bot_csw \<Rightarrow> byte list" where
  "csw_bytes c = le32_bytes (dCSWSignature c) @ le32_bytes (dCSWTag c) @
     le32_bytes (dCSWDataResidue c) @ [bCSWStatus c]"

text \<open>What the device reads out of 31 bytes.\<close>

definition cbw_of_bytes :: "byte list \<Rightarrow> bot_cbw option" where
  "cbw_of_bytes bs =
     (if length bs = USB_BOT_CBW_SIZE \<and> le32_at bs 0 = USB_BOT_CBW_SIGNATURE then
        Some \<lparr>dCBWSignature = le32_at bs 0, dCBWTag = le32_at bs 4,
          dCBWDataTransferLength = le32_at bs 8, bmCBWFlags = bs ! 12, bCBWLUN = bs ! 13,
          bCBWCBLength = bs ! 14, CBWCB = drop 15 bs\<rparr>
      else None)"

section \<open>Results\<close>

datatype bot_rc =
    BOT_OK
  | BOT_FAIL
  | BOT_FAIL_NOT_SENT
  | BOT_FAIL_PHASE_ERROR
  | BOT_FAIL_NO_DEVICE

text \<open>
  Everything the C function hands back: its return value, the caller's data buffer, and the
  targets of its two optional out-pointers (\<open>None\<close> for a NULL pointer).
\<close>

record bot_out =
  rc :: bot_rc
  buf :: "byte list option"
  actual_len :: "int option"
  csw_status :: "int option"

abbreviation CBW_PHASE_TIMEOUT_MS :: nat where "CBW_PHASE_TIMEOUT_MS \<equiv> 3000"
abbreviation DATA_PHASE_TIMEOUT_MS :: nat where "DATA_PHASE_TIMEOUT_MS \<equiv> 5000"
abbreviation CSW_PHASE_TIMEOUT_MS :: nat where "CSW_PHASE_TIMEOUT_MS \<equiv> 3000"
abbreviation PROBE_CBW_PHASE_TIMEOUT_MS :: nat where "PROBE_CBW_PHASE_TIMEOUT_MS \<equiv> 500"
abbreviation PROBE_DATA_PHASE_TIMEOUT_MS :: nat where "PROBE_DATA_PHASE_TIMEOUT_MS \<equiv> 700"
abbreviation PROBE_CSW_PHASE_TIMEOUT_MS :: nat where "PROBE_CSW_PHASE_TIMEOUT_MS \<equiv> 500"

definition phase_timeout :: "laser_entry \<Rightarrow> phase \<Rightarrow> nat" where
  "phase_timeout e ph =
     (case ph of
        CBW_Phase \<Rightarrow> if probe_timeouts e then PROBE_CBW_PHASE_TIMEOUT_MS else CBW_PHASE_TIMEOUT_MS
      | Data_Phase \<Rightarrow> if probe_timeouts e then PROBE_DATA_PHASE_TIMEOUT_MS else DATA_PHASE_TIMEOUT_MS
      | CSW_Phase \<Rightarrow> if probe_timeouts e then PROBE_CSW_PHASE_TIMEOUT_MS else CSW_PHASE_TIMEOUT_MS)"

definition bot_clear_stall :: "'w host \<Rightarrow> byte \<Rightarrow> 'w dev \<Rightarrow> 'w dev" where
  "bot_clear_stall h endpoint_addr d = do_clear_halt h endpoint_addr d"

section \<open>The phases\<close>

definition build_cbw :: "laser_entry \<Rightarrow> byte list \<Rightarrow> int \<Rightarrow> int \<Rightarrow> bool \<Rightarrow> bot_cbw" where
  "build_cbw e cdb cdb_len data_len data_in =
     \<lparr>dCBWSignature = USB_BOT_CBW_SIGNATURE, dCBWTag = tag e,
      dCBWDataTransferLength = word_of_int data_len,
      bmCBWFlags = (if data_in then 0x80 else 0x00), bCBWLUN = lun e,
      bCBWCBLength = word_of_int cdb_len,
      CBWCB = write_prefix (take (nat cdb_len) cdb) (replicate 16 0)\<rparr>"

text \<open>The command phase: the tag is advanced first, whatever happens next.\<close>

definition bot_cbw_phase ::
  "'w host \<Rightarrow> byte list \<Rightarrow> int \<Rightarrow> int \<Rightarrow> bool \<Rightarrow> 'w dev \<Rightarrow> (bot_rc + bot_cbw) \<times> 'w dev" where
  "bot_cbw_phase h cdb cdb_len data_len data_in d =
     (let d1 = upd_ent (\<lambda>e. e\<lparr>tag := tag e + 1\<rparr>) d;
          cbw = build_cbw (ent d1) cdb cdb_len data_len data_in
      in case do_bulk_out h CBW_Phase (ep_out (ent d1)) (cbw_bytes cbw)
                (phase_timeout (ent d1) CBW_Phase) d1 of
           ((ret, transferred), d2) \<Rightarrow>
             if ret = LIBUSB_ERROR_NO_DEVICE then (Inl BOT_FAIL_NO_DEVICE, d2)
             else if transferred = USB_BOT_CBW_SIZE \<and>
                     (ret = LIBUSB_SUCCESS \<or> ret = LIBUSB_ERROR_TIMEOUT) then (Inr cbw, d2)
             else if transferred = 0 \<and> ret \<noteq> LIBUSB_ERROR_PIPE then (Inl BOT_FAIL_NOT_SENT, d2)
             else (Inl BOT_FAIL_NOT_SENT, laser_mass_storage_reset h d2))"

text \<open>The bulk transfer of the data phase: bytes moved, the buffer after it.\<close>

definition bot_data_transfer ::
  "'w host \<Rightarrow> byte list \<Rightarrow> int \<Rightarrow> bool \<Rightarrow> 'w dev \<Rightarrow> (libusb_ret \<times> int \<times> byte list) \<times> 'w dev" where
  "bot_data_transfer h data data_len data_in d =
     (if data_in then
        (case do_bulk_in h Data_Phase (ep_in (ent d)) (nat data_len)
                (phase_timeout (ent d) Data_Phase) d of
           ((ret, bs), d1) \<Rightarrow> ((ret, int (length bs), write_prefix bs data), d1))
      else
        (case do_bulk_out h Data_Phase (ep_out (ent d)) (take (nat data_len) data)
                (phase_timeout (ent d) Data_Phase) d of
           ((ret, n), d1) \<Rightarrow> ((ret, int n, data), d1)))"

text \<open>
  The data phase answers the bytes it moved, the buffer and \<open>*actual_len\<close>. The paths that
  return early leave \<open>*actual_len\<close> untouched.
\<close>

definition bot_data_phase ::
  "'w host \<Rightarrow> byte list option \<Rightarrow> int \<Rightarrow> bool \<Rightarrow> int option \<Rightarrow> 'w dev \<Rightarrow>
     (bot_rc + int) \<times> byte list option \<times> int option \<times> 'w dev" where
  "bot_data_phase h data data_len data_in actual d =
     (case data of
        Some bytes \<Rightarrow>
          if 0 < data_len then
            (case bot_data_transfer h bytes data_len data_in d of
               ((ret, transferred, bytes'), d1) \<Rightarrow>
                 let ep = (if data_in then ep_in (ent d) else ep_out (ent d));
                     go = (\<lambda>d'. (Inr transferred, Some bytes',
                             map_option (\<lambda>_. transferred) actual, d'));
                     stop = (\<lambda>r d'. (Inl r, Some bytes', actual, d'))
                 in if ret = LIBUSB_ERROR_PIPE then go (bot_clear_stall h ep d1)
                    else if ret = LIBUSB_ERROR_TIMEOUT then
                      (if transferred = data_len then go d1
                       else stop BOT_FAIL_PHASE_ERROR (laser_mass_storage_reset h d1))
                    else if ret = LIBUSB_ERROR_NO_DEVICE then stop BOT_FAIL_NO_DEVICE d1
                    else if ret \<noteq> LIBUSB_SUCCESS then
                      stop BOT_FAIL_PHASE_ERROR (laser_mass_storage_reset h d1)
                    else go d1)
          else (Inr 0, data, map_option (\<lambda>_. 0) actual, d)
      | None \<Rightarrow> (Inr 0, data, map_option (\<lambda>_. 0) actual, d))"

text \<open>The status phase: one more chance after a stall, then a CSW of 13 bytes or recovery.\<close>

definition bot_csw_read :: "'w host \<Rightarrow> 'w dev \<Rightarrow> (libusb_ret \<times> byte list) \<times> 'w dev" where
  "bot_csw_read h d =
     do_bulk_in h CSW_Phase (ep_in (ent d)) USB_BOT_CSW_SIZE (phase_timeout (ent d) CSW_Phase) d"

definition bot_csw_phase :: "'w host \<Rightarrow> 'w dev \<Rightarrow> (bot_rc + bot_csw) \<times> 'w dev" where
  "bot_csw_phase h d =
     (case bot_csw_read h d of ((ret1, bs1), d1) \<Rightarrow>
       case (if ret1 = LIBUSB_ERROR_PIPE then
               bot_csw_read h (bot_clear_stall h (ep_in (ent d1))
                 (upd_ent (\<lambda>e. e\<lparr>csw_stall_quirk_logged := True\<rparr>) d1))
             else ((ret1, bs1), d1)) of ((ret, bs), d2) \<Rightarrow>
         if ret = LIBUSB_ERROR_NO_DEVICE then (Inl BOT_FAIL_NO_DEVICE, d2)
         else if length bs \<noteq> USB_BOT_CSW_SIZE \<or>
                 (ret \<noteq> LIBUSB_SUCCESS \<and> ret \<noteq> LIBUSB_ERROR_TIMEOUT) then
           (Inl BOT_FAIL_PHASE_ERROR, laser_mass_storage_reset h d2)
         else (Inr (csw_of_bytes bs), d2))"

text \<open>How many bytes of the data phase count, given a residue within the request.\<close>

definition bot_residue ::
  "int \<Rightarrow> int \<Rightarrow> u32 \<Rightarrow> laser_entry \<Rightarrow> int \<times> laser_entry" where
  "bot_residue data_len data_transferred residue e =
     (let by_residue = data_len - sint residue in
      if residue = 0 then (data_transferred, e)
      else if data_transferred < data_len then
        (if by_residue < data_transferred then by_residue else data_transferred, e)
      else (data_transferred, e\<lparr>residue_quirk_logged := True\<rparr>))"

definition bot_finish ::
  "'w host \<Rightarrow> bot_cbw \<Rightarrow> bot_csw \<Rightarrow> byte list option \<Rightarrow> int \<Rightarrow> int \<Rightarrow> int option \<Rightarrow> int option \<Rightarrow>
     'w dev \<Rightarrow> bot_out \<times> 'w dev" where
  "bot_finish h cbw csw data data_len data_transferred actual csw0 d =
     (if dCSWSignature csw \<noteq> USB_BOT_CSW_SIGNATURE \<or> dCSWTag csw \<noteq> dCBWTag cbw then
        (\<lparr>rc = BOT_FAIL_PHASE_ERROR, buf = data, actual_len = actual, csw_status = csw0\<rparr>,
         laser_mass_storage_reset h d)
      else
        let st = map_option (\<lambda>_. uint (bCSWStatus csw)) csw0 in
        if bCSWStatus csw = USB_BOT_STATUS_PHASE_ERROR then
          (\<lparr>rc = BOT_FAIL_PHASE_ERROR, buf = data, actual_len = actual, csw_status = st\<rparr>,
           laser_mass_storage_reset h d)
        else if word_of_int data_len < dCSWDataResidue csw then
          (\<lparr>rc = BOT_FAIL, buf = data, actual_len = actual, csw_status = st\<rparr>, d)
        else
          let (actual', d') =
            (if 0 < data_len \<and> data \<noteq> None \<and> actual \<noteq> None then
               (case bot_residue data_len data_transferred (dCSWDataResidue csw) (ent d) of
                  (n, e) \<Rightarrow> (Some n, upd_ent (\<lambda>_. e) d))
             else (actual, d))
          in (\<lparr>rc = (if bCSWStatus csw \<noteq> USB_BOT_STATUS_PASS then BOT_FAIL else BOT_OK),
               buf = data, actual_len = actual', csw_status = st\<rparr>, d'))"

section \<open>One transaction\<close>

definition laser_bot_send_locked ::
  "'w host \<Rightarrow> byte list \<Rightarrow> int \<Rightarrow> byte list option \<Rightarrow> int \<Rightarrow> bool \<Rightarrow> int option \<Rightarrow> int option \<Rightarrow>
     'w dev \<Rightarrow> bot_out \<times> 'w dev" where
  "laser_bot_send_locked h cdb cdb_len data data_len data_in actual csw_ptr d =
     (let csw0 = map_option (\<lambda>_. -1) csw_ptr in
      if cdb_len < 0 \<or> 16 < cdb_len then
        (\<lparr>rc = BOT_FAIL_NOT_SENT, buf = data, actual_len = actual, csw_status = csw0\<rparr>, d)
      else case bot_cbw_phase h cdb cdb_len data_len data_in d of
        (Inl r, d1) \<Rightarrow> (\<lparr>rc = r, buf = data, actual_len = actual, csw_status = csw0\<rparr>, d1)
      | (Inr cbw, d1) \<Rightarrow>
          (case bot_data_phase h data data_len data_in actual d1 of
             (Inl r, data', actual', d2) \<Rightarrow>
               (\<lparr>rc = r, buf = data', actual_len = actual', csw_status = csw0\<rparr>, d2)
           | (Inr data_transferred, data', actual', d2) \<Rightarrow>
               (case bot_csw_phase h d2 of
                  (Inl r, d3) \<Rightarrow>
                    (\<lparr>rc = r, buf = data', actual_len = actual', csw_status = csw0\<rparr>, d3)
                | (Inr csw, d3) \<Rightarrow>
                    bot_finish h cbw csw data' data_len data_transferred actual' csw0 d3)))"

declare bot_cbw_phase_def [bot_defs] bot_data_transfer_def [bot_defs] bot_data_phase_def [bot_defs]
  bot_csw_read_def [bot_defs] bot_csw_phase_def [bot_defs] bot_residue_def [bot_defs]
  bot_finish_def [bot_defs] bot_clear_stall_def [bot_defs]

section \<open>Reading a trace\<close>

text \<open>
  The device has been handed a command once all 31 bytes of its wrapper have moved, whatever
  the transfer's return code says; bot.c's own judgement is stricter. The wrappers on which
  the two differ moved whole in a transfer that ended in an error other than a timeout or the
  device leaving. Recoveries are counted by their class request.
\<close>

fun cbw_taken :: "event \<Rightarrow> bool" where
  "cbw_taken (Ev_Bulk_Out CBW_Phase hn ep bs ret n) = (n = USB_BOT_CBW_SIZE)"
| "cbw_taken _ = False"

fun transfer_failed :: "event \<Rightarrow> bool" where
  "transfer_failed (Ev_Bulk_Out ph hn ep bs ret n) =
     (ret \<notin> {LIBUSB_SUCCESS, LIBUSB_ERROR_TIMEOUT, LIBUSB_ERROR_NO_DEVICE})"
| "transfer_failed _ = False"

text \<open>
  Every event of a kind (the wrappers handed over, or those of one command) is a failed
  transfer, and what was done next is a Reset Recovery, after which the device waits for a new
  wrapper. It may have acted on the old one before that.
\<close>

fun failed_and_reset :: "(event \<Rightarrow> bool) \<Rightarrow> laser_entry \<Rightarrow> event list \<Rightarrow> bool" where
  "failed_and_reset P e [] = True"
| "failed_and_reset P e (ev # evs) =
     ((P ev \<longrightarrow> transfer_failed ev \<and> is_reset_recovery e (take 4 evs)) \<and>
      failed_and_reset P e evs)"

fun is_class_request :: "event \<Rightarrow> bool" where
  "is_class_request (Ev_Control hn a b c r) = True"
| "is_class_request _ = False"

definition wrapper_lost :: "event list \<Rightarrow> bool" where
  "wrapper_lost evs \<longleftrightarrow> (\<exists>ev \<in> set evs. cbw_taken ev \<and> transfer_failed ev)"

definition commands_taken :: "event list \<Rightarrow> nat" where
  "commands_taken evs = length (filter cbw_taken evs)"

definition recoveries :: "event list \<Rightarrow> nat" where
  "recoveries evs = length (filter is_class_request evs)"

definition ends_in_recovery :: "laser_entry \<Rightarrow> event list \<Rightarrow> bool" where
  "ends_in_recovery e evs \<longleftrightarrow> is_reset_recovery e (drop (length evs - 4) evs)"

lemma count_simps [simp]:
  "commands_taken [] = 0" "recoveries [] = 0"
  "commands_taken (ev # evs) = (if cbw_taken ev then 1 else 0) + commands_taken evs"
  "recoveries (ev # evs) = (if is_class_request ev then 1 else 0) + recoveries evs"
  "commands_taken (xs @ ys) = commands_taken xs + commands_taken ys"
  "recoveries (xs @ ys) = recoveries xs + recoveries ys"
  by (simp_all add: commands_taken_def recoveries_def)

lemma none_taken: "commands_taken evs = 0 \<longleftrightarrow> (\<forall>ev \<in> set evs. \<not> cbw_taken ev)"
  by (induction evs) simp_all

lemma wrapper_lost_simps [simp]:
  "\<not> wrapper_lost []"
  "wrapper_lost (ev # evs) \<longleftrightarrow> cbw_taken ev \<and> transfer_failed ev \<or> wrapper_lost evs"
  "wrapper_lost (xs @ ys) \<longleftrightarrow> wrapper_lost xs \<or> wrapper_lost ys"
  by (auto simp: wrapper_lost_def)

lemma none_lost: "commands_taken evs = 0 \<Longrightarrow> \<not> wrapper_lost evs"
  by (auto simp: wrapper_lost_def none_taken)

lemma reset_recovery_counts:
  assumes "is_reset_recovery e evs"
  shows "commands_taken evs = 0" "recoveries evs = 1" "length evs = 4"
  using assms by (auto simp: is_reset_recovery_iff)

lemma failed_and_reset_append:
  "failed_and_reset P e xs \<Longrightarrow> failed_and_reset P e ys \<Longrightarrow> failed_and_reset P e (xs @ ys)"
proof (induction xs)
  case (Cons x xs)
  have "is_reset_recovery e (take 4 xs) \<Longrightarrow> take 4 (xs @ ys) = take 4 xs"
    using reset_recovery_counts(3) [of e "take 4 xs"] by simp
  with Cons show ?case by auto
qed simp

lemma failed_and_reset_none: "\<forall>ev \<in> set evs. \<not> P ev \<Longrightarrow> failed_and_reset P e evs"
  by (induction evs) simp_all

lemma failed_and_reset_mono:
  "failed_and_reset P e evs \<Longrightarrow> (\<And>ev. Q ev \<Longrightarrow> P ev) \<Longrightarrow> failed_and_reset Q e evs"
  by (induction evs) auto

lemma failed_and_reset_entry:
  "handle e' = handle e \<Longrightarrow> iface_num e' = iface_num e \<Longrightarrow> ep_in e' = ep_in e \<Longrightarrow>
     ep_out e' = ep_out e \<Longrightarrow> failed_and_reset P e' evs = failed_and_reset P e evs"
  by (induction evs) (simp_all add: is_reset_recovery_iff)

lemma ends_in_recoveryI: "is_reset_recovery e evs \<Longrightarrow> ends_in_recovery e (pre @ evs)"
  by (simp add: ends_in_recovery_def reset_recovery_counts)

lemma recovery_extends:
  "\<exists>evs. is_reset_recovery (ent d) evs \<and>
     trace (laser_mass_storage_reset h d) = trace d @ evs"
  by (rule laser_mass_storage_reset_trace)

section \<open>The phases, case by case\<close>

lemma bot_cbw_phase_ent [frame_simps]:
  "ent (snd (bot_cbw_phase h cdb cdb_len data_len data_in d)) =
     (ent d)\<lparr>tag := tag (ent d) + 1\<rparr>"
  by (simp add: bot_cbw_phase_def Let_def case_prod_unfold frame_simps)

lemma bot_cbw_phase_cases:
  assumes run: "bot_cbw_phase h cdb cdb_len data_len data_in d = (r, d')"
  obtains (sent) ret where "r = Inr (build_cbw (ent d') cdb cdb_len data_len data_in)"
      and "ret = LIBUSB_SUCCESS \<or> ret = LIBUSB_ERROR_TIMEOUT"
      and "trace d' = trace d @ [Ev_Bulk_Out CBW_Phase (handle (ent d)) (ep_out (ent d))
             (cbw_bytes (build_cbw (ent d') cdb cdb_len data_len data_in)) ret USB_BOT_CBW_SIZE]"
  | (unsent) bs ret where "r = Inl BOT_FAIL_NOT_SENT"
      and "trace d' = trace d @ [Ev_Bulk_Out CBW_Phase (handle (ent d)) (ep_out (ent d)) bs ret 0]"
      and "bs = cbw_bytes (build_cbw (ent d') cdb cdb_len data_len data_in)"
  | (gone) bs n where "r = Inl BOT_FAIL_NO_DEVICE"
      and "trace d' = trace d @ [Ev_Bulk_Out CBW_Phase (handle (ent d)) (ep_out (ent d)) bs
             LIBUSB_ERROR_NO_DEVICE n]"
      and "bs = cbw_bytes (build_cbw (ent d') cdb cdb_len data_len data_in)"
  | (refused) bs ret n evs where "r = Inl BOT_FAIL_NOT_SENT"
      and "n = USB_BOT_CBW_SIZE \<longrightarrow>
             ret \<notin> {LIBUSB_SUCCESS, LIBUSB_ERROR_TIMEOUT, LIBUSB_ERROR_NO_DEVICE}"
      and "is_reset_recovery (ent d) evs"
      and "trace d' = trace d @
             Ev_Bulk_Out CBW_Phase (handle (ent d)) (ep_out (ent d)) bs ret n # evs"
      and "bs = cbw_bytes (build_cbw (ent d') cdb cdb_len data_len data_in)"
proof -
  let ?d1 = "upd_ent (\<lambda>e. e\<lparr>tag := tag e + 1\<rparr>) d"
  let ?c = "build_cbw (ent ?d1) cdb cdb_len data_len data_in"
  obtain ret n d2 where out: "do_bulk_out h CBW_Phase (ep_out (ent ?d1)) (cbw_bytes ?c)
      (phase_timeout (ent ?d1) CBW_Phase) ?d1 = ((ret, n), d2)"
    by (rule reply2_exhaust)
  then have tr: "trace d2 = trace d @
      [Ev_Bulk_Out CBW_Phase (handle (ent d)) (ep_out (ent d)) (cbw_bytes ?c) ret n]"
    and ent2: "ent d2 = ent ?d1"
    by (auto simp: do_bulk_out_def split: prod.splits)
  obtain evs where rec: "is_reset_recovery (ent d2) evs"
    "trace (laser_mass_storage_reset h d2) = trace d2 @ evs"
    using recovery_extends by blast
  then have rec_d: "is_reset_recovery (ent d) evs"
    using ent2 by (simp add: is_reset_recovery_iff)
  have run': "(r, d') =
      (if ret = LIBUSB_ERROR_NO_DEVICE then (Inl BOT_FAIL_NO_DEVICE, d2)
       else if n = USB_BOT_CBW_SIZE \<and> (ret = LIBUSB_SUCCESS \<or> ret = LIBUSB_ERROR_TIMEOUT)
         then (Inr ?c, d2)
       else if n = 0 \<and> ret \<noteq> LIBUSB_ERROR_PIPE then (Inl BOT_FAIL_NOT_SENT, d2)
       else (Inl BOT_FAIL_NOT_SENT, laser_mass_storage_reset h d2))"
    unfolding run [symmetric] by (simp only: bot_cbw_phase_def Let_def out prod.case)
  show thesis
  proof (cases "ret = LIBUSB_ERROR_NO_DEVICE")
    case True
    with run' tr ent2 show thesis by (intro gone) auto
  next
    case gone_no: False
    show thesis
    proof (cases "n = USB_BOT_CBW_SIZE \<and> (ret = LIBUSB_SUCCESS \<or> ret = LIBUSB_ERROR_TIMEOUT)")
      case True
      with run' gone_no tr ent2 show thesis by (intro sent [of ret]) auto
    next
      case no: False
      show thesis
      proof (cases "n = 0 \<and> ret \<noteq> LIBUSB_ERROR_PIPE")
        case True
        with run' gone_no no tr ent2 show thesis by (intro unsent) auto
      next
        case False
        with run' gone_no no tr ent2 rec rec_d show thesis
          by (intro refused) (auto simp: frame_simps)
      qed
    qed
  qed
qed

lemma bot_data_transfer_frame [frame_simps]:
  "ent (snd (bot_data_transfer h bytes data_len data_in d)) = ent d"
  by (simp add: bot_data_transfer_def case_prod_unfold frame_simps)

lemma bot_data_transfer_trace:
  "\<exists>ev. trace (snd (bot_data_transfer h bytes data_len data_in d)) = trace d @ [ev] \<and>
     \<not> cbw_taken ev \<and> \<not> is_class_request ev"
  by (auto simp: bot_data_transfer_def do_bulk_in_def do_bulk_out_def case_prod_unfold)

lemma bot_data_phase_ent [frame_simps]:
  "bot_data_phase h data data_len data_in actual d = (r, data', actual', d') \<Longrightarrow> ent d' = ent d"
  by (auto simp: bot_data_phase_def bot_clear_stall_def Let_def case_prod_unfold frame_simps
      split: option.splits if_splits)

lemma bot_data_phase_cases:
  assumes run: "bot_data_phase h data data_len data_in actual d = (r, data', actual', d')"
  obtains (skip) "data = None \<or> data_len \<le> 0" and "r = Inr 0" and "data' = data"
      and "actual' = map_option (\<lambda>_. 0) actual" and "d' = d"
  | (moved) bytes ret n bytes' d1 evs where "data = Some bytes" and "0 < data_len"
      and "bot_data_transfer h bytes data_len data_in d = ((ret, n, bytes'), d1)"
      and "r = Inr n" and "data' = Some bytes'" and "actual' = map_option (\<lambda>_. n) actual"
      and "trace d' = trace d @ evs" and "commands_taken evs = 0" and "recoveries evs = 0"
  | (gone) bytes ret n bytes' d1 ev where "data = Some bytes" and "0 < data_len"
      and "bot_data_transfer h bytes data_len data_in d = ((ret, n, bytes'), d1)"
      and "r = Inl BOT_FAIL_NO_DEVICE" and "data' = Some bytes'" and "actual' = actual"
      and "trace d' = trace d @ [ev]" and "\<not> cbw_taken ev" and "\<not> is_class_request ev"
  | (recovered) bytes ret n bytes' d1 ev evs where "data = Some bytes" and "0 < data_len"
      and "bot_data_transfer h bytes data_len data_in d = ((ret, n, bytes'), d1)"
      and "r = Inl BOT_FAIL_PHASE_ERROR" and "data' = Some bytes'" and "actual' = actual"
      and "\<not> cbw_taken ev" and "\<not> is_class_request ev" and "is_reset_recovery (ent d) evs"
      and "trace d' = trace d @ ev # evs"
proof (cases "\<exists>bytes. data = Some bytes \<and> 0 < data_len")
  case False
  then show thesis
    using run by (intro skip) (auto simp: bot_data_phase_def split: option.splits)
next
  case True
  then obtain bytes where data: "data = Some bytes" and pos: "0 < data_len" by blast
  obtain ret n bytes' d1 where x:
    "bot_data_transfer h bytes data_len data_in d = ((ret, n, bytes'), d1)"
    by (rule reply3_exhaust)
  then obtain ev where ev: "trace d1 = trace d @ [ev]" "\<not> cbw_taken ev" "\<not> is_class_request ev"
    and ent1: "ent d1 = ent d"
    using bot_data_transfer_trace [of h bytes data_len data_in d]
      bot_data_transfer_frame [of h bytes data_len data_in d] by auto
  obtain evs where rec: "is_reset_recovery (ent d) evs"
    "trace (laser_mass_storage_reset h d1) = trace d1 @ evs"
    using recovery_extends [of d1 h] ent1 by auto
  have halt: "\<exists>ev'. trace (bot_clear_stall h ep d1) = trace d1 @ [ev'] \<and> \<not> cbw_taken ev' \<and>
      \<not> is_class_request ev'" for ep
    by (auto simp: bot_clear_stall_def do_clear_halt_def split: prod.splits)
  consider (go) "r = Inr n" "data' = Some bytes'" "actual' = map_option (\<lambda>_. n) actual"
      "d' = d1 \<or> (\<exists>ep. d' = bot_clear_stall h ep d1)"
    | (lost) "r = Inl BOT_FAIL_NO_DEVICE" "data' = Some bytes'" "actual' = actual" "d' = d1"
    | (rec) "r = Inl BOT_FAIL_PHASE_ERROR" "data' = Some bytes'" "actual' = actual"
      "d' = laser_mass_storage_reset h d1"
    using run data pos x by (auto simp: bot_data_phase_def Let_def split: if_splits)
  then show thesis
  proof cases
    case go
    obtain evs' where "trace d' = trace d @ evs'" "commands_taken evs' = 0" "recoveries evs' = 0"
      using go(4) ev halt by fastforce
    with go data pos x show thesis by (intro moved) auto
  next
    case lost
    with data pos x ev show thesis by (intro gone) auto
  next
    case rec
    with data pos x ev \<open>is_reset_recovery (ent d) evs\<close>
      \<open>trace (laser_mass_storage_reset h d1) = trace d1 @ evs\<close>
    show thesis by (intro recovered) auto
  qed
qed

lemma bot_csw_read_frame [frame_simps]: "ent (snd (bot_csw_read h d)) = ent d"
  by (simp add: bot_csw_read_def frame_simps)

lemma bot_csw_read_trace:
  "bot_csw_read h d = ((ret, bs), d') \<Longrightarrow>
     trace d' = trace d @ [Ev_Bulk_In CSW_Phase (handle (ent d)) (ep_in (ent d))
       USB_BOT_CSW_SIZE ret bs]"
  by (auto simp: bot_csw_read_def do_bulk_in_def split: prod.splits)

lemma bot_csw_phase_cases:
  assumes run: "bot_csw_phase h d = (r, d')"
  obtains (valid) ret bs evs where "r = Inr (csw_of_bytes bs)" and "length bs = USB_BOT_CSW_SIZE"
      and "entry_frame (ent d) (ent d')" and "commands_taken evs = 0" and "recoveries evs = 0"
      and "trace d' = trace d @ evs @
             [Ev_Bulk_In CSW_Phase (handle (ent d)) (ep_in (ent d)) USB_BOT_CSW_SIZE ret bs]"
  | (gone) evs where "r = Inl BOT_FAIL_NO_DEVICE" and "entry_frame (ent d) (ent d')"
      and "commands_taken evs = 0" and "recoveries evs = 0" and "trace d' = trace d @ evs"
  | (recovered) pre evs where "r = Inl BOT_FAIL_PHASE_ERROR" and "entry_frame (ent d) (ent d')"
      and "commands_taken pre = 0" and "recoveries pre = 0" and "is_reset_recovery (ent d) evs"
      and "trace d' = trace d @ pre @ evs"
proof -
  obtain ret1 bs1 d1 where one: "bot_csw_read h d = ((ret1, bs1), d1)"
    by (rule reply2_exhaust)
  define again where "again = bot_csw_read h (bot_clear_stall h (ep_in (ent d1))
    (upd_ent (\<lambda>e. e\<lparr>csw_stall_quirk_logged := True\<rparr>) d1))"
  obtain ret bs d2 where two:
    "(if ret1 = LIBUSB_ERROR_PIPE then again else ((ret1, bs1), d1)) = ((ret, bs), d2)"
    by (rule reply2_exhaust)
  have tr1: "trace d1 = trace d @ [Ev_Bulk_In CSW_Phase (handle (ent d)) (ep_in (ent d))
      USB_BOT_CSW_SIZE ret1 bs1]" and ent1: "ent d1 = ent d"
    using bot_csw_read_trace [OF one] bot_csw_read_frame [of h d] one by auto
  have last: "\<exists>evs. trace d2 = trace d @ evs @ [Ev_Bulk_In CSW_Phase (handle (ent d))
      (ep_in (ent d)) USB_BOT_CSW_SIZE ret bs] \<and> commands_taken evs = 0 \<and> recoveries evs = 0"
    and frame: "entry_frame (ent d) (ent d2)"
  proof (atomize (full), cases "ret1 = LIBUSB_ERROR_PIPE")
    case True
    with two have a: "again = ((ret, bs), d2)" by simp
    from bot_csw_read_trace [OF this [unfolded again_def]] tr1 ent1
    have "trace d2 = trace d @ [Ev_Bulk_In CSW_Phase (handle (ent d)) (ep_in (ent d))
        USB_BOT_CSW_SIZE ret1 bs1] @ [Ev_Clear_Halt (handle (ent d)) (ep_in (ent d))
        (fst (clear_halt h (handle (ent d)) (ep_in (ent d)) (world d1)))] @
        [Ev_Bulk_In CSW_Phase (handle (ent d)) (ep_in (ent d)) USB_BOT_CSW_SIZE ret bs]"
      by (simp add: bot_clear_stall_def do_clear_halt_def case_prod_unfold)
    moreover have "ent d2 = (ent d)\<lparr>csw_stall_quirk_logged := True\<rparr>"
      using a ent1 bot_csw_read_frame [of h "bot_clear_stall h (ep_in (ent d1))
        (upd_ent (\<lambda>e. e\<lparr>csw_stall_quirk_logged := True\<rparr>) d1)"]
      by (simp add: again_def bot_clear_stall_def frame_simps)
    ultimately show "(\<exists>evs. trace d2 = trace d @ evs @ [Ev_Bulk_In CSW_Phase (handle (ent d))
      (ep_in (ent d)) USB_BOT_CSW_SIZE ret bs] \<and> commands_taken evs = 0 \<and> recoveries evs = 0) \<and>
      entry_frame (ent d) (ent d2)"
      by (intro conjI exI [of _ "[Ev_Bulk_In CSW_Phase (handle (ent d)) (ep_in (ent d))
        USB_BOT_CSW_SIZE ret1 bs1, Ev_Clear_Halt (handle (ent d)) (ep_in (ent d))
        (fst (clear_halt h (handle (ent d)) (ep_in (ent d)) (world d1)))]"]) simp_all
  next
    case False
    with two tr1 ent1 show "(\<exists>evs. trace d2 = trace d @ evs @ [Ev_Bulk_In CSW_Phase
      (handle (ent d)) (ep_in (ent d)) USB_BOT_CSW_SIZE ret bs] \<and> commands_taken evs = 0 \<and>
      recoveries evs = 0) \<and> entry_frame (ent d) (ent d2)"
      by (intro conjI exI [of _ "[]"]) simp_all
  qed
  obtain evs where rec: "is_reset_recovery (ent d) evs"
    "trace (laser_mass_storage_reset h d2) = trace d2 @ evs"
    using recovery_extends [of d2 h] is_reset_recovery_frame [OF frame] by blast
  have "(r, d') = (if ret = LIBUSB_ERROR_NO_DEVICE then (Inl BOT_FAIL_NO_DEVICE, d2)
         else if length bs \<noteq> USB_BOT_CSW_SIZE \<or>
                 (ret \<noteq> LIBUSB_SUCCESS \<and> ret \<noteq> LIBUSB_ERROR_TIMEOUT) then
           (Inl BOT_FAIL_PHASE_ERROR, laser_mass_storage_reset h d2)
         else (Inr (csw_of_bytes bs), d2))"
    unfolding run [symmetric]
    by (simp only: bot_csw_phase_def one prod.case again_def [symmetric] two)
  then consider "r = Inl BOT_FAIL_NO_DEVICE" "d' = d2"
    | "r = Inl BOT_FAIL_PHASE_ERROR" "d' = laser_mass_storage_reset h d2"
    | "r = Inr (csw_of_bytes bs)" "length bs = USB_BOT_CSW_SIZE" "d' = d2"
    by (auto split: if_splits)
  then show thesis
  proof cases
    case 1
    from last obtain pre where "trace d2 = trace d @ pre" "commands_taken pre = 0"
      "recoveries pre = 0" by fastforce
    with 1 frame show thesis by (intro gone [of pre]) simp_all
  next
    case 2
    from last obtain pre where "trace d2 = trace d @ pre" "commands_taken pre = 0"
      "recoveries pre = 0" by fastforce
    with 2 frame rec show thesis
      by (intro recovered [of pre evs]) (simp_all add: frame_simps)
  next
    case 3
    with last frame show thesis by (auto intro: valid)
  qed
qed

lemma bot_residue_frame: "entry_frame e (snd (bot_residue data_len n residue e))"
  by (simp add: bot_residue_def Let_def)

lemma bot_residue_range:
  assumes "0 \<le> n" and "n \<le> data_len" and "sint residue \<le> data_len"
  shows "0 \<le> fst (bot_residue data_len n residue e) \<and> fst (bot_residue data_len n residue e) \<le> n"
  using assms by (auto simp: bot_residue_def Let_def)

lemma bot_finish_buf: "buf (fst (bot_finish h cbw csw data data_len n actual csw0 d)) = data"
  by (simp add: bot_finish_def Let_def case_prod_unfold)

lemma bot_finish_cases:
  assumes run: "bot_finish h cbw csw data data_len n actual csw0 d = (out, d')"
  obtains (mismatch) evs where "rc out = BOT_FAIL_PHASE_ERROR" and "csw_status out = csw0"
      and "ent d' = ent d" and "is_reset_recovery (ent d) evs" and "trace d' = trace d @ evs"
  | (phase_error) evs where "rc out = BOT_FAIL_PHASE_ERROR"
      and "bCSWStatus csw = USB_BOT_STATUS_PHASE_ERROR"
      and "csw_status out = map_option (\<lambda>_. 2) csw0" and "ent d' = ent d"
      and "is_reset_recovery (ent d) evs" and "trace d' = trace d @ evs"
  | (status) "rc out \<in> {BOT_OK, BOT_FAIL}" and "entry_frame (ent d) (ent d')"
      and "trace d' = trace d" and "dCSWSignature csw = USB_BOT_CSW_SIGNATURE"
      and "dCSWTag csw = dCBWTag cbw" and "world d' = world d"
      and "csw_status out = map_option (\<lambda>_. uint (bCSWStatus csw)) csw0"
      and "bCSWStatus csw \<noteq> USB_BOT_STATUS_PHASE_ERROR"
      and "rc out = BOT_OK \<longleftrightarrow> bCSWStatus csw = USB_BOT_STATUS_PASS \<and>
             dCSWDataResidue csw \<le> word_of_int data_len"
proof -
  obtain evs where rec: "is_reset_recovery (ent d) evs"
    "trace (laser_mass_storage_reset h d) = trace d @ evs"
    using recovery_extends by blast
  consider "dCSWSignature csw \<noteq> USB_BOT_CSW_SIGNATURE \<or> dCSWTag csw \<noteq> dCBWTag cbw"
    | "dCSWSignature csw = USB_BOT_CSW_SIGNATURE" "dCSWTag csw = dCBWTag cbw"
      "bCSWStatus csw = USB_BOT_STATUS_PHASE_ERROR"
    | "dCSWSignature csw = USB_BOT_CSW_SIGNATURE" "dCSWTag csw = dCBWTag cbw"
      "bCSWStatus csw \<noteq> USB_BOT_STATUS_PHASE_ERROR" "word_of_int data_len < dCSWDataResidue csw"
    | "dCSWSignature csw = USB_BOT_CSW_SIGNATURE" "dCSWTag csw = dCBWTag cbw"
      "bCSWStatus csw \<noteq> USB_BOT_STATUS_PHASE_ERROR" "dCSWDataResidue csw \<le> word_of_int data_len"
    by (meson linorder_not_less)
  then show thesis
  proof cases
    case 1
    with run rec show thesis
      by (intro mismatch [of evs]) (auto simp: bot_finish_def frame_simps)
  next
    case 2
    with run rec show thesis
      by (intro phase_error [of evs]) (auto simp: bot_finish_def Let_def frame_simps)
  next
    case 3
    with run show thesis by (intro status) (auto simp: bot_finish_def Let_def)
  next
    case 4
    with run show thesis
      by (intro status)
        (auto simp: bot_finish_def Let_def case_prod_unfold bot_residue_frame linorder_not_less
          split: if_splits)
  qed
qed

section \<open>The contract of one transaction\<close>

text \<open>
  What each return code says of the calls made: success, FAIL and PHASE_ERROR, that the command
  was handed over exactly once; PHASE_ERROR, that the recovery has already been done, once, as
  the last thing; NO_DEVICE, nothing of the command. laser_internal.h has NOT_SENT mean that
  the command was never executed, its wrapper not having gone out, or not whole. What holds is
  that a wrapper that went out whole all the same was in a failed transfer, and that the
  recovery followed it at once; and every such wrapper is reported NOT_SENT.
\<close>

definition bot_promise :: "laser_entry \<Rightarrow> bot_rc \<Rightarrow> event list \<Rightarrow> bool" where
  "bot_promise e r evs =
     ((wrapper_lost evs \<longrightarrow> r = BOT_FAIL_NOT_SENT) \<and>
      (case r of
        BOT_OK \<Rightarrow> commands_taken evs = 1 \<and> recoveries evs = 0
      | BOT_FAIL \<Rightarrow> commands_taken evs = 1 \<and> recoveries evs = 0
      | BOT_FAIL_NOT_SENT \<Rightarrow> commands_taken evs \<le> 1 \<and> failed_and_reset cbw_taken e evs \<and>
          (recoveries evs = 0 \<and> length evs \<le> 1 \<or> recoveries evs = 1 \<and> ends_in_recovery e evs)
      | BOT_FAIL_PHASE_ERROR \<Rightarrow> commands_taken evs = 1 \<and> recoveries evs = 1 \<and> ends_in_recovery e evs
      | BOT_FAIL_NO_DEVICE \<Rightarrow> commands_taken evs \<le> 1 \<and> recoveries evs = 0))"

lemma entry_frame_tag: "entry_frame (e\<lparr>tag := t\<rparr>) e' \<Longrightarrow> entry_frame e e'"
  using entry_frame_trans entry_frame_updates(1) by blast

text \<open>
  A transaction either fails its length check without touching anything, ends in one of its
  phases, or reaches the verdict on a CSW. The events before and after each phase are known.
\<close>

lemma bot_send_cases:
  assumes run: "laser_bot_send_locked h cdb cdb_len data data_len data_in actual csw_ptr d =
      (out, d')"
  obtains (too_long) "cdb_len < 0 \<or> 16 < cdb_len" and "d' = d"
      and "out = \<lparr>rc = BOT_FAIL_NOT_SENT, buf = data, actual_len = actual,
             csw_status = map_option (\<lambda>_. -1) csw_ptr\<rparr>"
  | (cbw) r where "bot_cbw_phase h cdb cdb_len data_len data_in d = (Inl r, d')"
      and "0 \<le> cdb_len" and "cdb_len \<le> 16"
      and "out = \<lparr>rc = r, buf = data, actual_len = actual,
             csw_status = map_option (\<lambda>_. -1) csw_ptr\<rparr>"
  | (data) c d1 r data' actual' where
      "bot_cbw_phase h cdb cdb_len data_len data_in d = (Inr c, d1)"
      and "bot_data_phase h data data_len data_in actual d1 = (Inl r, data', actual', d')"
      and "0 \<le> cdb_len" and "cdb_len \<le> 16"
      and "out = \<lparr>rc = r, buf = data', actual_len = actual',
             csw_status = map_option (\<lambda>_. -1) csw_ptr\<rparr>"
  | (csw) c d1 n data' actual' d2 r where
      "bot_cbw_phase h cdb cdb_len data_len data_in d = (Inr c, d1)"
      and "bot_data_phase h data data_len data_in actual d1 = (Inr n, data', actual', d2)"
      and "bot_csw_phase h d2 = (Inl r, d')" and "0 \<le> cdb_len" and "cdb_len \<le> 16"
      and "out = \<lparr>rc = r, buf = data', actual_len = actual',
             csw_status = map_option (\<lambda>_. -1) csw_ptr\<rparr>"
  | (verdict) c d1 n data' actual' d2 w d3 where
      "bot_cbw_phase h cdb cdb_len data_len data_in d = (Inr c, d1)"
      and "bot_data_phase h data data_len data_in actual d1 = (Inr n, data', actual', d2)"
      and "bot_csw_phase h d2 = (Inr w, d3)" and "0 \<le> cdb_len" and "cdb_len \<le> 16"
      and "bot_finish h c w data' data_len n actual' (map_option (\<lambda>_. -1) csw_ptr) d3 = (out, d')"
proof (cases "cdb_len < 0 \<or> 16 < cdb_len")
  case True
  with run show thesis by (intro too_long) (auto simp: laser_bot_send_locked_def)
next
  case False
  then have len: "0 \<le> cdb_len" "cdb_len \<le> 16" by auto
  obtain r1 d1 where one: "bot_cbw_phase h cdb cdb_len data_len data_in d = (r1, d1)"
    by fastforce
  show thesis
  proof (cases r1)
    case (Inl r)
    with run False one len show thesis
      by (intro cbw [of r]) (auto simp: laser_bot_send_locked_def)
  next
    case c: (Inr c)
    obtain r2 data' actual' d2 where two:
      "bot_data_phase h data data_len data_in actual d1 = (r2, data', actual', d2)"
      by (metis prod_cases4)
    show thesis
    proof (cases r2)
      case (Inl r)
      with run False one two c len show thesis
        by (intro data [of c d1 r]) (auto simp: laser_bot_send_locked_def)
    next
      case n: (Inr n)
      obtain r3 d3 where three: "bot_csw_phase h d2 = (r3, d3)" by fastforce
      show thesis
      proof (cases r3)
        case (Inl r)
        with run False one two three c n len show thesis
          by (intro csw [of c d1 n _ _ d2 r]) (auto simp: laser_bot_send_locked_def)
      next
        case (Inr w)
        with run False one two three c n len show thesis
          by (intro verdict [of c d1 n _ _ d2 w d3]) (auto simp: laser_bot_send_locked_def)
      qed
    qed
  qed
qed

lemma cbw_phase_sentE:
  assumes "bot_cbw_phase h cdb cdb_len data_len data_in d = (Inr c, d1)"
  obtains ev where "trace d1 = trace d @ [ev]" and "cbw_taken ev \<and> \<not> transfer_failed ev"
    and "\<not> is_class_request ev"
    and "ent d1 = (ent d)\<lparr>tag := tag (ent d) + 1\<rparr>"
    and "c = build_cbw (ent d1) cdb cdb_len data_len data_in"
  using assms
proof (cases rule: bot_cbw_phase_cases)
  case (sent ret)
  then show thesis
    using bot_cbw_phase_ent [of h cdb cdb_len data_len data_in d] assms by (intro that) auto
qed simp_all

lemma data_phase_doneE:
  assumes "bot_data_phase h data data_len data_in actual d = (Inr n, data', actual', d')"
  obtains evs where "trace d' = trace d @ evs" and "commands_taken evs = 0"
    and "recoveries evs = 0" and "ent d' = ent d"
  using assms
proof (cases rule: bot_data_phase_cases)
  case skip
  then show thesis by (intro that [of "[]"]) simp_all
next
  case (moved bytes ret k bytes' d1 evs)
  then show thesis using bot_data_phase_ent [OF assms] by (intro that) auto
qed simp_all

lemma bot_cbw_phase_promise:
  assumes "bot_cbw_phase h cdb cdb_len data_len data_in d = (Inl r, d')"
  shows "\<exists>evs. trace d' = trace d @ evs \<and> bot_promise (ent d) r evs"
  using assms
proof (cases rule: bot_cbw_phase_cases)
  case (refused bs ret n evs)
  have four: "take 4 evs = evs" and none: "\<forall>ev \<in> set evs. \<not> cbw_taken ev"
    using reset_recovery_counts(1,3) [OF refused(3)] by (simp_all add: none_taken)
  from refused show ?thesis
    using ends_in_recoveryI [OF refused(3), of "[Ev_Bulk_Out CBW_Phase (handle (ent d))
      (ep_out (ent d)) bs ret n]"] failed_and_reset_none [of evs cbw_taken, OF none]
    by (auto simp: bot_promise_def reset_recovery_counts four)
qed (auto simp: bot_promise_def)

lemma ends_in_recovery_frame:
  "entry_frame e e' \<Longrightarrow> ends_in_recovery e' evs = ends_in_recovery e evs"
  by (simp add: ends_in_recovery_def is_reset_recovery_frame)

lemma ends_in_recovery_tag [simp]:
  "ends_in_recovery (e\<lparr>tag := t\<rparr>) evs = ends_in_recovery e evs"
  by (rule ends_in_recovery_frame) simp

lemma bot_send_promise:
  assumes run: "laser_bot_send_locked h cdb cdb_len data data_len data_in actual csw_ptr d =
      (out, d')"
  shows "\<exists>evs. trace d' = trace d @ evs \<and> bot_promise (ent d) (rc out) evs"
  using run
proof (cases rule: bot_send_cases)
  case too_long
  then show ?thesis by (simp add: bot_promise_def none_lost)
next
  case (cbw r)
  then show ?thesis using bot_cbw_phase_promise by auto
next
  case (data c d1 r data' actual')
  obtain ev where one: "trace d1 = trace d @ [ev]" "cbw_taken ev \<and> \<not> transfer_failed ev" "\<not> is_class_request ev"
    "ent d1 = (ent d)\<lparr>tag := tag (ent d) + 1\<rparr>"
    using data(1) by (rule cbw_phase_sentE)
  from data(2) show ?thesis
  proof (cases rule: bot_data_phase_cases)
    case (gone bytes ret n bytes' d2 ev')
    with one data show ?thesis by (auto simp: bot_promise_def none_lost)
  next
    case (recovered bytes ret n bytes' d2 ev' evs)
    with one data ends_in_recoveryI [OF recovered(9), of "[ev, ev']"] show ?thesis
      by (auto simp: bot_promise_def none_lost reset_recovery_counts)
  qed simp_all
next
  case (csw c d1 n data' actual' d2 r)
  obtain ev where one: "trace d1 = trace d @ [ev]" "cbw_taken ev \<and> \<not> transfer_failed ev" "\<not> is_class_request ev"
    "ent d1 = (ent d)\<lparr>tag := tag (ent d) + 1\<rparr>"
    using csw(1) by (rule cbw_phase_sentE)
  obtain evs2 where two: "trace d2 = trace d1 @ evs2" "commands_taken evs2 = 0"
    "recoveries evs2 = 0" "ent d2 = ent d1"
    using csw(2) by (rule data_phase_doneE)
  from csw(3) show ?thesis
  proof (cases rule: bot_csw_phase_cases)
    case (gone evs)
    with one two csw show ?thesis by (auto simp: bot_promise_def none_lost)
  next
    case (recovered pre evs)
    with one two csw ends_in_recoveryI [OF recovered(5), of "ev # evs2 @ pre"] show ?thesis
      by (auto simp: bot_promise_def none_lost reset_recovery_counts)
  qed simp_all
next
  case (verdict c d1 n data' actual' d2 w d3)
  obtain ev where one: "trace d1 = trace d @ [ev]" "cbw_taken ev \<and> \<not> transfer_failed ev" "\<not> is_class_request ev"
    "ent d1 = (ent d)\<lparr>tag := tag (ent d) + 1\<rparr>"
    using verdict(1) by (rule cbw_phase_sentE)
  obtain evs2 where two: "trace d2 = trace d1 @ evs2" "commands_taken evs2 = 0"
    "recoveries evs2 = 0" "ent d2 = ent d1"
    using verdict(2) by (rule data_phase_doneE)
  obtain evs3 where three: "trace d3 = trace d2 @ evs3" "commands_taken evs3 = 0"
    "recoveries evs3 = 0" "entry_frame (ent d2) (ent d3)"
    using verdict(3) by (cases rule: bot_csw_phase_cases) fastforce+
  then have frame: "entry_frame (ent d) (ent d3)"
    using one(4) two(4) entry_frame_tag by metis
  from verdict(6) show ?thesis
  proof (cases rule: bot_finish_cases)
    case (mismatch evs)
    with one two three ends_in_recoveryI [OF mismatch(4), of "ev # evs2 @ evs3"] frame
    show ?thesis
      by (auto simp: bot_promise_def none_lost reset_recovery_counts ends_in_recovery_frame)
  next
    case (phase_error evs)
    with one two three ends_in_recoveryI [OF phase_error(5), of "ev # evs2 @ evs3"] frame
    show ?thesis
      by (auto simp: bot_promise_def none_lost reset_recovery_counts ends_in_recovery_frame)
  next
    case status
    with one two three show ?thesis by (auto simp: bot_promise_def none_lost)
  qed
qed

lemma bot_send_frame:
  "entry_frame (ent d)
     (ent (snd (laser_bot_send_locked h cdb cdb_len data data_len data_in actual csw_ptr d)))"
proof -
  obtain out d' where run: "laser_bot_send_locked h cdb cdb_len data data_len data_in actual csw_ptr d =
      (out, d')" by fastforce
  then have "entry_frame (ent d) (ent d')"
  proof (cases rule: bot_send_cases)
    case too_long
    then show ?thesis by simp
  next
    case (cbw r)
    then show ?thesis using bot_cbw_phase_ent [of h cdb cdb_len data_len data_in d] by simp
  next
    case (data c d1 r data' actual')
    then show ?thesis
      using bot_cbw_phase_ent [of h cdb cdb_len data_len data_in d] bot_data_phase_ent by fastforce
  next
    case (csw c d1 n data' actual' d2 r)
    have "entry_frame (ent d2) (ent d')"
      using csw(3) by (cases rule: bot_csw_phase_cases) auto
    with csw show ?thesis
      using bot_cbw_phase_ent [of h cdb cdb_len data_len data_in d] bot_data_phase_ent [OF csw(2)]
      by (auto intro: entry_frame_tag)
  next
    case (verdict c d1 n data' actual' d2 w d3)
    have "entry_frame (ent d2) (ent d3)"
      using verdict(3) by (cases rule: bot_csw_phase_cases) auto
    moreover have "entry_frame (ent d3) (ent d')"
      using verdict(6) by (cases rule: bot_finish_cases) auto
    ultimately have "entry_frame (ent d2) (ent d')" by (rule entry_frame_trans)
    with verdict show ?thesis
      using bot_cbw_phase_ent [of h cdb cdb_len data_len data_in d] bot_data_phase_ent [OF verdict(2)]
      by (auto intro: entry_frame_tag)
  qed
  with run show ?thesis by simp
qed

section \<open>The world across a transaction\<close>

lemma bot_phase_worlds:
  assumes R: "host_rel h R"
  shows "R (world d) (world (snd (bot_cbw_phase h cdb cdb_len data_len data_in d)))"
    and "R (world d) (world (snd (snd (snd (bot_data_phase h data data_len data_in actual d)))))"
    and "R (world d) (world (snd (bot_csw_phase h d)))"
    and "R (world d) (world (snd (bot_finish h c w data data_len n actual csw0 d)))"
proof -
  have refl: "R x x" for x by (rule host_relD(1) [OF R])
  have reset: "R x (world e) \<Longrightarrow> R x (world (laser_mass_storage_reset h e))" for x e
    by (rule host_relD(2) [OF R _ laser_mass_storage_reset_world [OF R]])
  note steps = world_after [OF R] reset refl
  show "R (world d) (world (snd (bot_cbw_phase h cdb cdb_len data_len data_in d)))"
    by (auto simp: bot_cbw_phase_def Let_def case_prod_unfold refl intro!: steps)
  have transfer: "R (world d) (world (snd (bot_data_transfer h bytes data_len di d)))" for bytes di
    by (auto simp: bot_data_transfer_def case_prod_unfold refl intro!: steps)
  show "R (world d) (world (snd (snd (snd (bot_data_phase h data data_len data_in actual d)))))"
    by (simp add: bot_data_phase_def bot_clear_stall_def Let_def case_prod_unfold refl
        steps(3) reset transfer split: option.split)
  show "R (world d) (world (snd (bot_csw_phase h d)))"
    by (auto simp: bot_csw_phase_def bot_csw_read_def bot_clear_stall_def case_prod_unfold refl
        intro!: steps)
  show "R (world d) (world (snd (bot_finish h c w data data_len n actual csw0 d)))"
    by (auto simp: bot_finish_def Let_def case_prod_unfold refl intro!: steps)
qed

lemma bot_send_world:
  assumes R: "host_rel h R"
  shows "R (world d)
     (world (snd (laser_bot_send_locked h cdb cdb_len data data_len data_in actual csw_ptr d)))"
proof -
  note trans = host_relD(2) [OF R] and phase = bot_phase_worlds [OF R]
  obtain out d' where run: "laser_bot_send_locked h cdb cdb_len data data_len data_in actual csw_ptr d =
      (out, d')" by fastforce
  then have "R (world d) (world d')"
  proof (cases rule: bot_send_cases)
    case too_long
    then show ?thesis using host_relD(1) [OF R] by simp
  next
    case (cbw r)
    then show ?thesis using phase(1) by (metis snd_conv)
  next
    case (data c d1 r data' actual')
    then show ?thesis using phase(1,2) trans by (metis snd_conv)
  next
    case (csw c d1 n data' actual' d2 r)
    then show ?thesis using phase(1-3) trans by (metis snd_conv)
  next
    case (verdict c d1 n data' actual' d2 w d3)
    then show ?thesis using phase trans by (metis snd_conv)
  qed
  with run show ?thesis by simp
qed

section \<open>Statuses, lengths, round trips\<close>

lemma length_cbw_bytes: "length (CBWCB c) = 16 \<Longrightarrow> length (cbw_bytes c) = USB_BOT_CBW_SIZE"
  by (simp add: cbw_bytes_def)

lemma length_build_cbw [simp]:
  "cdb_len \<le> 16 \<Longrightarrow> length (CBWCB (build_cbw e cdb cdb_len data_len data_in)) = 16"
  by (auto simp: build_cbw_def)

lemma le32_at_append:
  "length xs = n \<Longrightarrow> le32_at (xs @ le32_bytes w @ ys) n = w"
  by (simp add: le32_at_def le32_bytes_def nth_append le32_word_bytes)

lemma le32_at_start: "le32_at (le32_bytes w @ ys) 0 = w"
  using le32_at_append [of "[]" 0 w ys] by simp

lemma cbw_of_cbw_bytes:
  assumes "dCBWSignature c = USB_BOT_CBW_SIGNATURE" and "length (CBWCB c) = 16"
  shows "cbw_of_bytes (cbw_bytes c) = Some c"
proof -
  let ?s = "le32_bytes (dCBWSignature c)" and ?t = "le32_bytes (dCBWTag c)"
    and ?l = "le32_bytes (dCBWDataTransferLength c)"
    and ?f = "[bmCBWFlags c, bCBWLUN c, bCBWCBLength c]"
  have "le32_at (cbw_bytes c) 0 = dCBWSignature c"
    by (simp add: cbw_bytes_def le32_at_start)
  moreover have "le32_at (cbw_bytes c) 4 = dCBWTag c"
    using le32_at_append [of ?s 4 "dCBWTag c" "?l @ ?f @ CBWCB c"] by (simp add: cbw_bytes_def)
  moreover have "le32_at (cbw_bytes c) 8 = dCBWDataTransferLength c"
    using le32_at_append [of "?s @ ?t" 8 "dCBWDataTransferLength c" "?f @ CBWCB c"]
    by (simp add: cbw_bytes_def)
  moreover have "cbw_bytes c ! 12 = bmCBWFlags c" "cbw_bytes c ! 13 = bCBWLUN c"
    "cbw_bytes c ! 14 = bCBWCBLength c" "drop 15 (cbw_bytes c) = CBWCB c"
    by (simp_all add: cbw_bytes_def nth_append)
  ultimately show ?thesis
    using assms by (simp add: cbw_of_bytes_def length_cbw_bytes)
qed

lemma length_csw_bytes [simp]: "length (csw_bytes c) = USB_BOT_CSW_SIZE"
  by (simp add: csw_bytes_def)

lemma cbw_bytes_tag: "le32_at (cbw_bytes c) 4 = dCBWTag c"
  using le32_at_append [of "le32_bytes (dCBWSignature c)" 4 "dCBWTag c"] by (simp add: cbw_bytes_def)

lemma cbw_bytes_opcode: "CBWCB c \<noteq> [] \<Longrightarrow> cbw_bytes c ! 15 = CBWCB c ! 0"
  by (cases "CBWCB c") (simp_all add: cbw_bytes_def nth_append)

lemma csw_of_csw_bytes: "csw_of_bytes (csw_bytes c) = c"
proof -
  have "le32_at (csw_bytes c) 0 = dCSWSignature c"
    by (simp add: csw_bytes_def le32_at_start)
  moreover have "le32_at (csw_bytes c) 4 = dCSWTag c"
    using le32_at_append [of "le32_bytes (dCSWSignature c)" 4] by (simp add: csw_bytes_def)
  moreover have "le32_at (csw_bytes c) 8 = dCSWDataResidue c"
    using le32_at_append [of "le32_bytes (dCSWSignature c) @ le32_bytes (dCSWTag c)" 8]
    by (simp add: csw_bytes_def)
  moreover have "csw_bytes c ! 12 = bCSWStatus c"
    by (simp add: csw_bytes_def nth_append)
  ultimately show ?thesis by (simp add: csw_of_bytes_def)
qed

text \<open>A buffer is only ever overwritten in place.\<close>

lemma bot_data_transfer_bounds:
  assumes "usb_bounded h" and "nat data_len \<le> length bytes" and "0 \<le> data_len"
    and "bot_data_transfer h bytes data_len data_in d = ((ret, n, bytes'), d')"
  shows "0 \<le> n \<and> n \<le> data_len \<and> length bytes' = length bytes"
proof (cases data_in)
  case True
  have "length (snd (fst (bulk_in h (handle (ent d)) (ep_in (ent d)) (nat data_len)
      (phase_timeout (ent d) Data_Phase) (world d)))) \<le> nat data_len"
    using assms(1) by (simp add: usb_bounded_def)
  with True assms show ?thesis
    by (auto simp: bot_data_transfer_def do_bulk_in_def case_prod_unfold)
next
  case False
  have "snd (fst (bulk_out h (handle (ent d)) (ep_out (ent d)) (take (nat data_len) bytes)
      (phase_timeout (ent d) Data_Phase) (world d))) \<le> length (take (nat data_len) bytes)"
    using assms(1) unfolding usb_bounded_def by blast
  with False assms show ?thesis
    by (auto simp: bot_data_transfer_def do_bulk_out_def case_prod_unfold)
qed

lemma bot_data_phase_bounds:
  assumes "usb_bounded h" and "\<And>bytes. data = Some bytes \<Longrightarrow> nat data_len \<le> length bytes"
    and "0 \<le> data_len"
    and "bot_data_phase h data data_len data_in actual d = (r, data', actual', d')"
  shows "map_option length data' = map_option length data"
    and "r = Inr n \<Longrightarrow> 0 \<le> n \<and> n \<le> data_len"
    and "r = Inr n \<Longrightarrow> actual' = map_option (\<lambda>_. n) actual"
proof -
  note b = bot_data_transfer_bounds [OF assms(1) _ assms(3)]
  show "map_option length data' = map_option length data"
    using assms(4) by (cases rule: bot_data_phase_cases) (auto dest: b [rotated] assms(2))
  show "r = Inr n \<Longrightarrow> 0 \<le> n \<and> n \<le> data_len"
    using assms(4) by (cases rule: bot_data_phase_cases)
      (use assms(2,3) b in \<open>fastforce+\<close>)
  show "r = Inr n \<Longrightarrow> actual' = map_option (\<lambda>_. n) actual"
    using assms(4) by (cases rule: bot_data_phase_cases) auto
qed

end
