(* ===== verification/Transport.thy ===== *)
theory Transport
  imports Bot
begin

text \<open>
  The interface between the two layers of the library: what scsi.c may rely on when it calls
  \<open>laser_bot_send_locked()\<close>. The locale states the contract of laser_internal.h once; bot.c's
  model provides it, and the command layer's lemmas are proved against it.
\<close>

type_synonym 'w transport =
  "byte list \<Rightarrow> int \<Rightarrow> byte list option \<Rightarrow> int \<Rightarrow> bool \<Rightarrow> int option \<Rightarrow> int option \<Rightarrow>
     'w dev \<Rightarrow> bot_out \<times> 'w dev"

section \<open>Which command a wrapper carries\<close>

definition pad16 :: "byte list \<Rightarrow> byte list" where
  "pad16 c = write_prefix c (replicate 16 0)"

text \<open>
  A wrapper offered to the device, whole or not, whose command field is the given block; and
  one that moved whole, so that the device has the command.
\<close>

fun offers :: "byte list \<Rightarrow> event \<Rightarrow> bool" where
  "offers c (Ev_Bulk_Out CBW_Phase hn ep bs ret n) = (drop 15 bs = pad16 c)"
| "offers c _ = False"

definition took :: "byte list \<Rightarrow> event \<Rightarrow> bool" where
  "took c ev \<longleftrightarrow> cbw_taken ev \<and> offers c ev"

definition times_taken :: "byte list \<Rightarrow> event list \<Rightarrow> nat" where
  "times_taken c evs = length (filter (took c) evs)"

definition only_takes :: "byte list \<Rightarrow> event list \<Rightarrow> bool" where
  "only_takes c evs \<longleftrightarrow> (\<forall>ev \<in> set evs. cbw_taken ev \<longrightarrow> took c ev)"

lemma times_taken_simps [simp]:
  "times_taken c [] = 0"
  "times_taken c (ev # evs) = (if took c ev then 1 else 0) + times_taken c evs"
  "times_taken c (xs @ ys) = times_taken c xs + times_taken c ys"
  by (simp_all add: times_taken_def)

lemma only_takes_simps [simp]:
  "only_takes c []"
  "only_takes c (ev # evs) \<longleftrightarrow> (cbw_taken ev \<longrightarrow> took c ev) \<and> only_takes c evs"
  "only_takes c (xs @ ys) \<longleftrightarrow> only_takes c xs \<and> only_takes c ys"
  by (auto simp: only_takes_def)

lemma took_taken: "took c ev \<Longrightarrow> cbw_taken ev"
  by (simp add: took_def)

lemma took_simps [simp]:
  "took c (Ev_Bulk_Out CBW_Phase hn ep bs ret n) \<longleftrightarrow> n = USB_BOT_CBW_SIZE \<and> drop 15 bs = pad16 c"
  "\<not> took c (Ev_Bulk_In ph hn ep len ret bs)" "\<not> took c (Ev_Clear_Halt hn ep ret)"
  "\<not> took c (Ev_Control hn a b i r)" "\<not> took c (Ev_Sleep us)" "\<not> took c (Ev_Acquire res)"
  "\<not> took c (Ev_Release res)"
  by (simp_all add: took_def)

lemma times_taken_only: "only_takes c evs \<Longrightarrow> times_taken c evs = commands_taken evs"
  by (induction evs) (auto dest: took_taken)

lemma offers_pad: "offers c ev \<Longrightarrow> offers c' ev \<Longrightarrow> pad16 c = pad16 c'"
  by (cases "(c, ev)" rule: offers.cases) auto

lemma took_pad: "took c ev \<Longrightarrow> took c' ev \<Longrightarrow> pad16 c = pad16 c'"
  by (auto simp: took_def dest: offers_pad)

lemma times_taken_other:
  "only_takes c evs \<Longrightarrow> pad16 c \<noteq> pad16 c' \<Longrightarrow> times_taken c' evs = 0"
  by (induction evs) (auto dest: took_pad took_taken)

lemma only_takes_none: "commands_taken evs = 0 \<Longrightarrow> only_takes c evs"
  by (induction evs) (auto split: if_splits)

lemma times_taken_none: "commands_taken evs = 0 \<Longrightarrow> times_taken c evs = 0"
  by (induction evs) (auto split: if_splits dest: took_taken)

text \<open>Wrappers of one command that were handed over, each in a failed transfer and reset after.\<close>

abbreviation lost_and_reset :: "byte list \<Rightarrow> laser_entry \<Rightarrow> event list \<Rightarrow> bool" where
  "lost_and_reset c \<equiv> failed_and_reset (took c)"

lemma lost_none: "times_taken c evs = 0 \<Longrightarrow> lost_and_reset c e evs"
  by (induction evs) (auto split: if_splits)

section \<open>The contract\<close>

text \<open>The caller's buffer, when there is one, holds the announced length.\<close>

definition buffer_fits :: "byte list option \<Rightarrow> int \<Rightarrow> bool" where
  "buffer_fits data len \<longleftrightarrow> (\<forall>bs. data = Some bs \<longrightarrow> nat len \<le> length bs)"

lemma buffer_fits_simps [simp]:
  "buffer_fits None len" "buffer_fits (Some bs) len \<longleftrightarrow> nat len \<le> length bs"
  by (simp_all add: buffer_fits_def)

locale bot_transport =
  fixes h :: "'w host" and send :: "'w transport"
  assumes send_frame:
      "entry_frame (ent d) (ent (snd (send cdb n data len inward act csw d)))"
    and send_trace:
      "\<exists>evs. trace (snd (send cdb n data len inward act csw d)) = trace d @ evs \<and>
         bot_promise (ent d) (rc (fst (send cdb n data len inward act csw d))) evs \<and>
         only_takes (take (nat n) cdb) evs"
    and send_world:
      "host_rel h R \<Longrightarrow> R (world d) (world (snd (send cdb n data len inward act csw d)))"
    and send_check:
      "\<exists>c. csw_status (fst (send cdb n data len inward act (Some csw') d)) = Some c \<and>
         (c = 1 \<longrightarrow> rc (fst (send cdb n data len inward act (Some csw') d)) = BOT_FAIL)"
    and send_buf:
      "usb_bounded h \<Longrightarrow> 0 \<le> len \<Longrightarrow> buffer_fits data len \<Longrightarrow>
         map_option length (buf (fst (send cdb n data len inward act csw d))) =
           map_option length data"
    and send_actual:
      "usb_bounded h \<Longrightarrow> 0 \<le> len \<Longrightarrow> buffer_fits data len \<Longrightarrow>
         len < 2 ^ 31 \<Longrightarrow> act = Some a \<Longrightarrow> 0 \<le> a \<Longrightarrow> a \<le> len \<Longrightarrow>
         \<exists>a'. actual_len (fst (send cdb n data len inward act csw d)) = Some a' \<and>
           0 \<le> a' \<and> a' \<le> len"
begin

lemma send_rely: "entry_rely (ent d) (ent (snd (send cdb n data len inward act csw d)))"
  by (rule entry_frame_rely [OF send_frame])

text \<open>
  Delivered, the device has exactly this command, once. Not delivered, it has it only if the
  transfer failed after its last byte and the reset followed.
\<close>

lemma send_taken:
  assumes "send cdb n data len inward act csw d = (out, d')"
  obtains evs where "trace d' = trace d @ evs"
    and "rc out = BOT_FAIL_NOT_SENT \<Longrightarrow> lost_and_reset c (ent d) evs"
    and "times_taken c evs \<le> 1"
    and "pad16 c \<noteq> pad16 (take (nat n) cdb) \<Longrightarrow> times_taken c evs = 0"
    and "wrapper_lost evs \<Longrightarrow> rc out = BOT_FAIL_NOT_SENT"
proof -
  obtain evs where evs: "trace d' = trace d @ evs" "bot_promise (ent d) (rc out) evs"
    "only_takes (take (nat n) cdb) evs"
    using send_trace [of cdb n data len inward act csw d] assms by auto
  then have one: "commands_taken evs \<le> 1"
    "rc out = BOT_FAIL_NOT_SENT \<Longrightarrow> failed_and_reset cbw_taken (ent d) evs"
    "wrapper_lost evs \<Longrightarrow> rc out = BOT_FAIL_NOT_SENT"
    by (auto simp: bot_promise_def split: bot_rc.splits)
  have other: "pad16 c \<noteq> pad16 (take (nat n) cdb) \<Longrightarrow> times_taken c evs = 0"
    using evs(3) by (metis times_taken_other)
  have "times_taken c evs \<le> commands_taken evs"
    by (induction evs) (auto dest: took_taken)
  with one evs other show thesis
    by (intro that) (auto elim: failed_and_reset_mono dest: took_taken)
qed

end

section \<open>bot.c provides it\<close>

lemma drop_cbw_bytes: "drop 15 (cbw_bytes c) = CBWCB c"
  by (simp add: cbw_bytes_def)

lemma CBWCB_build_cbw: "CBWCB (build_cbw e cdb n len inward) = pad16 (take (nat n) cdb)"
  by (simp add: build_cbw_def pad16_def)

lemma bot_cbw_phase_takes:
  assumes "bot_cbw_phase h cdb n len inward d = (r, d')"
  shows "\<exists>evs. trace d' = trace d @ evs \<and> only_takes (take (nat n) cdb) evs"
  using assms
proof (cases rule: bot_cbw_phase_cases)
  case (refused bs ret k evs)
  then show ?thesis
    using only_takes_none [OF reset_recovery_counts(1) [OF refused(3)]]
    by (auto simp: drop_cbw_bytes CBWCB_build_cbw)
qed (auto simp: drop_cbw_bytes CBWCB_build_cbw)

lemma bot_cbw_phase_offers:
  assumes "bot_cbw_phase h cdb n len inward d = (r, d')"
  shows "\<exists>ev evs. trace d' = trace d @ ev # evs \<and> offers (take (nat n) cdb) ev"
  using assms
  by (cases rule: bot_cbw_phase_cases) (auto simp: drop_cbw_bytes CBWCB_build_cbw)

lemma bot_later_phases_take_nothing:
  shows "bot_data_phase h data len inward act d = (r, data', act', d') \<Longrightarrow>
      \<exists>evs. trace d' = trace d @ evs \<and> commands_taken evs = 0"
    and "bot_csw_phase h d = (r2, d') \<Longrightarrow> \<exists>evs. trace d' = trace d @ evs \<and> commands_taken evs = 0"
    and "bot_finish h c w data len k act csw0 d = (out, d') \<Longrightarrow>
      \<exists>evs. trace d' = trace d @ evs \<and> commands_taken evs = 0"
proof -
  note none = reset_recovery_counts(1)
  show "bot_data_phase h data len inward act d = (r, data', act', d') \<Longrightarrow>
      \<exists>evs. trace d' = trace d @ evs \<and> commands_taken evs = 0"
    by (erule bot_data_phase_cases) (auto dest: none)
  show "bot_csw_phase h d = (r2, d') \<Longrightarrow> \<exists>evs. trace d' = trace d @ evs \<and> commands_taken evs = 0"
    by (erule bot_csw_phase_cases) (auto dest: none)
  show "bot_finish h c w data len k act csw0 d = (out, d') \<Longrightarrow>
      \<exists>evs. trace d' = trace d @ evs \<and> commands_taken evs = 0"
    by (erule bot_finish_cases) (auto dest: none)
qed

lemma bot_send_takes:
  "\<exists>evs. trace (snd (laser_bot_send_locked h cdb n data len inward act csw d)) = trace d @ evs \<and>
     only_takes (take (nat n) cdb) evs"
proof -
  obtain out d' where run: "laser_bot_send_locked h cdb n data len inward act csw d = (out, d')"
    by fastforce
  note later = bot_later_phases_take_nothing [THEN exE]
  from run have "\<exists>evs. trace d' = trace d @ evs \<and> only_takes (take (nat n) cdb) evs"
  proof (cases rule: bot_send_cases)
    case too_long
    then show ?thesis by simp
  next
    case (cbw r)
    then show ?thesis using bot_cbw_phase_takes by blast
  next
    case (data c d1 r data' actual')
    from bot_cbw_phase_takes [OF data(1)] bot_later_phases_take_nothing(1) [OF data(2)]
    show ?thesis by (auto intro: only_takes_none)
  next
    case (csw c d1 k data' actual' d2 r)
    from bot_cbw_phase_takes [OF csw(1)] bot_later_phases_take_nothing(1) [OF csw(2)]
      bot_later_phases_take_nothing(2) [OF csw(3)]
    show ?thesis by (auto intro: only_takes_none)
  next
    case (verdict c d1 k data' actual' d2 w d3)
    from bot_cbw_phase_takes [OF verdict(1)] bot_later_phases_take_nothing(1) [OF verdict(2)]
      bot_later_phases_take_nothing(2) [OF verdict(3)]
      bot_later_phases_take_nothing(3) [OF verdict(6)]
    show ?thesis by (auto intro: only_takes_none)
  qed
  with run show ?thesis by simp
qed

text \<open>A transaction of a legal length begins by offering its command.\<close>

lemma bot_send_offers:
  assumes "0 \<le> n" and "n \<le> 16"
  shows "\<exists>ev evs. trace (snd (laser_bot_send_locked h cdb n data len inward act csw d)) =
    trace d @ ev # evs \<and> offers (take (nat n) cdb) ev"
proof -
  obtain out d' where run: "laser_bot_send_locked h cdb n data len inward act csw d = (out, d')"
    by fastforce
  from run have "\<exists>ev evs. trace d' = trace d @ ev # evs \<and> offers (take (nat n) cdb) ev"
  proof (cases rule: bot_send_cases)
    case too_long
    with assms show ?thesis by simp
  next
    case (cbw r)
    then show ?thesis using bot_cbw_phase_offers by blast
  next
    case (data c d1 r data' actual')
    from bot_cbw_phase_offers [OF data(1)] bot_later_phases_take_nothing(1) [OF data(2)]
    show ?thesis by auto
  next
    case (csw c d1 k data' actual' d2 r)
    from bot_cbw_phase_offers [OF csw(1)] bot_later_phases_take_nothing(1) [OF csw(2)]
      bot_later_phases_take_nothing(2) [OF csw(3)]
    show ?thesis by auto
  next
    case (verdict c d1 k data' actual' d2 w d3)
    from bot_cbw_phase_offers [OF verdict(1)] bot_later_phases_take_nothing(1) [OF verdict(2)]
      bot_later_phases_take_nothing(2) [OF verdict(3)]
      bot_later_phases_take_nothing(3) [OF verdict(6)]
    show ?thesis by auto
  qed
  with run show ?thesis by simp
qed

lemma bot_send_status_fail:
  "\<exists>c. csw_status (fst (laser_bot_send_locked h cdb n data len inward act (Some csw') d)) =
       Some c \<and>
     (c = 1 \<longrightarrow>
      rc (fst (laser_bot_send_locked h cdb n data len inward act (Some csw') d)) = BOT_FAIL)"
proof -
  obtain out d' where run:
    "laser_bot_send_locked h cdb n data len inward act (Some csw') d = (out, d')"
    by fastforce
  from run have "\<exists>c. csw_status out = Some c \<and> (c = 1 \<longrightarrow> rc out = BOT_FAIL)"
  proof (cases rule: bot_send_cases)
    case (verdict c d1 k data' actual' d2 w d3)
    from verdict(6) show ?thesis
    proof (cases rule: bot_finish_cases)
      case status
      then show ?thesis by auto
    qed auto
  qed auto
  with run show ?thesis by simp
qed

lemma data_phase_fits:
  assumes "usb_bounded h" and "buffer_fits data len" and "0 \<le> len"
    and run: "bot_data_phase h data len inward act d = (r, data', act', d')"
  shows "map_option length data' = map_option length data"
    and "r = Inr k \<Longrightarrow> 0 \<le> k \<and> k \<le> len" and "r = Inr k \<Longrightarrow> act' = map_option (\<lambda>_. k) act"
proof -
  have fits: "\<And>bs. data = Some bs \<Longrightarrow> nat len \<le> length bs"
    using assms(2) by simp
  show "map_option length data' = map_option length data"
    by (rule bot_data_phase_bounds(1) [OF assms(1) _ assms(3) run]) (rule fits)
  show "r = Inr k \<Longrightarrow> 0 \<le> k \<and> k \<le> len"
    by (rule bot_data_phase_bounds(2) [OF assms(1) _ assms(3) run]) (rule fits)
  show "r = Inr k \<Longrightarrow> act' = map_option (\<lambda>_. k) act"
    by (rule bot_data_phase_bounds(3) [OF assms(1) _ assms(3) run]) (rule fits)
qed

lemma bot_send_buf:
  assumes "usb_bounded h" and "0 \<le> len" and "buffer_fits data len"
  shows "map_option length (buf (fst (laser_bot_send_locked h cdb n data len inward act csw d))) =
    map_option length data"
proof -
  obtain out d' where run: "laser_bot_send_locked h cdb n data len inward act csw d = (out, d')"
    by fastforce
  from run have "map_option length (buf out) = map_option length data"
  proof (cases rule: bot_send_cases)
    case d: (data c d1 r data' actual')
    then show ?thesis using data_phase_fits(1) [OF assms(1,3,2) d(2)] by simp
  next
    case c: (csw c d1 k data' actual' d2 r)
    then show ?thesis using data_phase_fits(1) [OF assms(1,3,2) c(2)] by simp
  next
    case v: (verdict c d1 k data' actual' d2 w d3)
    then show ?thesis
      using data_phase_fits(1) [OF assms(1,3,2) v(2)]
        bot_finish_buf [of h c w data' len k actual' "map_option (\<lambda>_. -1) csw" d3]
      by simp
  qed simp_all
  with run show ?thesis by simp
qed

text \<open>A residue within the request is never negative as a signed number.\<close>

lemma residue_sint:
  assumes "0 \<le> len" and "len < 2 ^ 31" and "(w :: u32) \<le> word_of_int len"
  shows "0 \<le> sint w" and "sint w \<le> len"
proof -
  have len: "uint (word_of_int len :: u32) = len"
    using assms by (simp add: uint_word_of_int)
  then have "uint w \<le> len" using assms(3) by (simp add: word_le_def)
  moreover have "sint w = uint w"
    using calculation assms(2) signed_take_bit_int_eq_self [of 31 "uint w"] uint_ge_0 [of w]
    by (simp add: sint_uint)
  ultimately show "0 \<le> sint w" and "sint w \<le> len" by simp_all
qed

lemma bot_finish_actual:
  assumes "bot_finish h c w data len k act csw0 d = (out, d')"
    and "act = Some a" and "0 \<le> a" and "a \<le> len" and "0 \<le> k" and "k \<le> len" and "len < 2 ^ 31"
  shows "\<exists>a'. actual_len out = Some a' \<and> 0 \<le> a' \<and> a' \<le> len"
proof -
  have "(\<exists>a'. actual_len out = Some a' \<and> 0 \<le> a' \<and> a' \<le> len) \<or>
      dCSWDataResidue w \<le> word_of_int len \<and>
      actual_len out = Some (fst (bot_residue len k (dCSWDataResidue w) (ent d)))"
    unfolding assms(1) [symmetric, THEN arg_cong [of _ _ fst], simplified]
    using assms(2-4)
    by (auto simp: bot_finish_def Let_def case_prod_unfold linorder_not_less)
  moreover have "dCSWDataResidue w \<le> word_of_int len \<Longrightarrow>
      0 \<le> fst (bot_residue len k (dCSWDataResidue w) (ent d)) \<and>
      fst (bot_residue len k (dCSWDataResidue w) (ent d)) \<le> k"
    using residue_sint [of len "dCSWDataResidue w"] assms by (intro bot_residue_range) auto
  ultimately show ?thesis using assms(6) by force
qed

lemma bot_send_actual:
  assumes "usb_bounded h" and "0 \<le> len" and "buffer_fits data len"
    and "len < 2 ^ 31" and "act = Some a" and "0 \<le> a" and "a \<le> len"
  shows "\<exists>a'. actual_len (fst (laser_bot_send_locked h cdb n data len inward act csw d)) =
    Some a' \<and> 0 \<le> a' \<and> a' \<le> len"
proof -
  obtain out d' where run: "laser_bot_send_locked h cdb n data len inward act csw d = (out, d')"
    by fastforce
  note bounds = data_phase_fits [OF assms(1,3,2)]
  from run have "\<exists>a'. actual_len out = Some a' \<and> 0 \<le> a' \<and> a' \<le> len"
  proof (cases rule: bot_send_cases)
    case d: (data c d1 r data' actual')
    from d(2) have "actual' = act" by (cases rule: bot_data_phase_cases) auto
    with d assms show ?thesis by auto
  next
    case c: (csw c d1 k data' actual' d2 r)
    then show ?thesis using bounds(2,3) [OF c(2) refl] assms by auto
  next
    case v: (verdict c d1 k data' actual' d2 w d3)
    from bounds(2,3) [OF v(2) refl] assms(4,5) bot_finish_actual [OF v(6)]
    show ?thesis by auto
  qed (use assms in auto)
  with run show ?thesis by simp
qed

interpretation bot: bot_transport h "laser_bot_send_locked h"
proof
  fix cdb n data len inward act csw d
  show "\<exists>evs. trace (snd (laser_bot_send_locked h cdb n data len inward act csw d)) =
      trace d @ evs \<and>
      bot_promise (ent d) (rc (fst (laser_bot_send_locked h cdb n data len inward act csw d))) evs \<and>
      only_takes (take (nat n) cdb) evs"
    using bot_send_promise [of h cdb n data len inward act csw d] bot_send_takes
    by (metis prod.collapse same_append_eq)
qed (rule bot_send_frame bot_send_world bot_send_status_fail bot_send_buf bot_send_actual;
    assumption)+

text \<open>What success means on the wire.\<close>

lemma bot_ok_csw:
  assumes run: "laser_bot_send_locked h cdb n data len inward act csw d = (out, d')"
    and ok: "rc out = BOT_OK"
  shows "\<exists>pre ret bs. trace d' = trace d @ pre @
      [Ev_Bulk_In CSW_Phase (handle (ent d)) (ep_in (ent d)) USB_BOT_CSW_SIZE ret bs] \<and>
    length bs = USB_BOT_CSW_SIZE \<and>
    dCSWSignature (csw_of_bytes bs) = USB_BOT_CSW_SIGNATURE \<and>
    dCSWTag (csw_of_bytes bs) = tag (ent d) + 1 \<and>
    bCSWStatus (csw_of_bytes bs) = USB_BOT_STATUS_PASS \<and>
    dCSWDataResidue (csw_of_bytes bs) \<le> word_of_int len"
  using run
proof (cases rule: bot_send_cases)
  case too_long
  with ok show ?thesis by simp
next
  case (cbw r)
  with ok show ?thesis by (auto elim: bot_cbw_phase_cases)
next
  case (data c d1 r data' actual')
  with ok show ?thesis by (auto elim: bot_data_phase_cases)
next
  case (csw c d1 k data' actual' d2 r)
  with ok show ?thesis by (auto elim: bot_csw_phase_cases)
next
  case (verdict c d1 k data' actual' d2 w d3)
  obtain ev where one: "trace d1 = trace d @ [ev]" "ent d1 = (ent d)\<lparr>tag := tag (ent d) + 1\<rparr>"
    "c = build_cbw (ent d1) cdb n len inward"
    using verdict(1) by (rule cbw_phase_sentE)
  obtain evs2 where two: "trace d2 = trace d1 @ evs2" "ent d2 = ent d1"
    using verdict(2) by (rule data_phase_doneE)
  from verdict(3) show ?thesis
  proof (cases rule: bot_csw_phase_cases)
    case (valid ret bs evs)
    from verdict(6) ok have "trace d' = trace d3" "dCSWSignature w = USB_BOT_CSW_SIGNATURE"
      "dCSWTag w = dCBWTag c" "bCSWStatus w = USB_BOT_STATUS_PASS"
      "dCSWDataResidue w \<le> word_of_int len"
      by (auto elim!: bot_finish_cases)
    with one two valid show ?thesis
      by (intro exI [of _ "ev # evs2 @ evs"] exI [of _ ret] exI [of _ bs])
        (simp add: build_cbw_def)
  qed simp_all
qed

end
