(* ===== verification/Sample_Drive.thy ===== *)
theory Sample_Drive
  imports Bot
begin

text \<open>
  A concrete drive to run the model on: a host whose world is a script of answers, one per
  command the drive takes, a queue of bulk-in transfers (\<open>None\<close> is a stall, which is how the drive
  ends a data phase it has nothing for), a clock, and a script of when another thread cancels. It satisfies the documented behaviour the theorems assume, which shows those
  hypotheses can hold, and lets the model be evaluated on concrete exchanges.
\<close>

datatype answer =
    Answer "byte list" byte
  | Refuse libusb_ret nat

record sim =
  answers :: "answer list"
  pipe :: "byte list option list"
  now :: int
  cancels :: "bool list"

definition sim_csw :: "byte list \<Rightarrow> byte \<Rightarrow> byte list" where
  "sim_csw cbw st = csw_bytes \<lparr>dCSWSignature = USB_BOT_CSW_SIGNATURE, dCSWTag = le32_at cbw 4,
     dCSWDataResidue = 0, bCSWStatus = st\<rparr>"

definition sim_bulk_out ::
  "handle \<Rightarrow> byte \<Rightarrow> byte list \<Rightarrow> nat \<Rightarrow> sim \<Rightarrow> (libusb_ret \<times> nat) \<times> sim" where
  "sim_bulk_out hn ep bs t w =
     (if length bs \<noteq> 31 then ((LIBUSB_SUCCESS, length bs), w)
      else case answers w of
        [] \<Rightarrow> ((LIBUSB_ERROR_NO_DEVICE, 0), w)
      | Refuse ret n # rest \<Rightarrow> ((ret, min n 31), w\<lparr>answers := rest\<rparr>)
      | Answer bytes st # rest \<Rightarrow>
          ((LIBUSB_SUCCESS, 31), w\<lparr>answers := rest,
             pipe := (if bytes \<noteq> [] then [Some bytes]
                      else if bs ! 12 = 0x80 \<and> le32_at bs 8 \<noteq> 0 then [None] else []) @
               [Some (sim_csw bs st)]\<rparr>))"

definition sim_bulk_in ::
  "handle \<Rightarrow> byte \<Rightarrow> nat \<Rightarrow> nat \<Rightarrow> sim \<Rightarrow> (libusb_ret \<times> byte list) \<times> sim" where
  "sim_bulk_in hn ep len t w =
     (case pipe w of
        [] \<Rightarrow> ((LIBUSB_ERROR_TIMEOUT, []), w)
      | None # rest \<Rightarrow> ((LIBUSB_ERROR_PIPE, []), w\<lparr>pipe := rest\<rparr>)
      | Some bs # rest \<Rightarrow> ((LIBUSB_SUCCESS, take len bs), w\<lparr>pipe := rest\<rparr>))"

definition sim_clock :: "sim \<Rightarrow> timespec \<times> sim" where
  "sim_clock w = (\<lparr>tv_sec = now w div 1000000000, tv_nsec = now w mod 1000000000\<rparr>, w)"

definition sim_cancel :: "sim \<Rightarrow> bool \<times> sim" where
  "sim_cancel w =
     (case cancels w of [] \<Rightarrow> (False, w) | b # bs \<Rightarrow> (b, w\<lparr>cancels := bs\<rparr>))"

definition sim_config :: usb_config where
  "sim_config =
     [[\<lparr>bInterfaceNumber = 0, bInterfaceClass = 3, bInterfaceSubClass = 0,
        bInterfaceProtocol = 0,
        endpoint = [\<lparr>bEndpointAddress = 0x83, bmAttributes = 3, wMaxPacketSize = 8\<rparr>]\<rparr>],
      [],
      [\<lparr>bInterfaceNumber = 1, bInterfaceClass = 8, bInterfaceSubClass = 6,
        bInterfaceProtocol = 0x50,
        endpoint = [\<lparr>bEndpointAddress = 0x81, bmAttributes = 2, wMaxPacketSize = 512\<rparr>,
                    \<lparr>bEndpointAddress = 0x02, bmAttributes = 2, wMaxPacketSize = 512\<rparr>]\<rparr>]]"

definition sim_host :: "sim host" where
  "sim_host = \<lparr>bulk_out = sim_bulk_out, bulk_in = sim_bulk_in,
     clear_halt = (\<lambda>hn ep w. (LIBUSB_SUCCESS, w)),
     control_transfer = (\<lambda>hn a b c len w. ((int len, replicate len 0), w)),
     clock_gettime = sim_clock,
     usleep = (\<lambda>us w. w\<lparr>now := now w + int us * 1000\<rparr>),
     other_threads = (\<lambda>e w. (e, w)), other_cancel = sim_cancel,
     fstat = (\<lambda>fd w. (Some (1, nat fd + 100), w)), pthread_init = (\<lambda>r w. (True, w)),
     condattr_setclock = (\<lambda>w. (True, w)),
     libusb_init_context = (\<lambda>w. ((LIBUSB_SUCCESS, 1), w)),
     libusb_wrap_sys_device = (\<lambda>c fd w. ((LIBUSB_SUCCESS, 7), w)),
     libusb_get_device_descriptor =
       (\<lambda>hn w. (Some \<lparr>idVendor = 0x152d, idProduct = 0x0583, bcdDevice = 0x0100\<rparr>, w)),
     libusb_get_active_config_descriptor = (\<lambda>hn w. (Some sim_config, w)),
     libusb_kernel_driver_active = (\<lambda>hn i w. (1, w)),
     libusb_interface = (\<lambda>op hn i w. (LIBUSB_SUCCESS, w)),
     libusb_close = (\<lambda>hn w. w), libusb_exit = (\<lambda>c w. w)\<rparr>"

text \<open>A registered drive at rest, before a script of answers.\<close>

definition sim_entry :: laser_entry where
  "sim_entry = zero_entry\<lparr>in_use := True, token := 42, refs := 1,
     max_transfer_bytes := LASER_MAX_BYTES_PER_TRANSFER, handle := 7, ctx := 1, iface_num := 1,
     ep_in := 0x81, ep_out := 0x02, ep_max_packet := 512\<rparr>"

definition sim_world :: "answer list \<Rightarrow> sim" where
  "sim_world script = \<lparr>answers = script, pipe = [], now = 0, cancels = []\<rparr>"

definition sim_dev :: "answer list \<Rightarrow> sim dev" where
  "sim_dev script = \<lparr>world = sim_world script, trace = [], ent = sim_entry\<rparr>"

lemma sim_usb_bounded: "usb_bounded sim_host"
  by (auto simp: usb_bounded_def sim_host_def sim_bulk_in_def sim_bulk_out_def
      split: list.split option.split answer.split)

lemma sim_threads_rely: "threads_rely sim_host"
  by (simp add: threads_rely_def sim_host_def)

lemma sim_host_rel:
  assumes "reflp R" "transp R" "\<And>w f. R w (w\<lparr>answers := tl (answers w), pipe := f\<rparr>)"
    "\<And>w a. R w (w\<lparr>answers := tl (answers w)\<rparr>)"
    "\<And>w f. R w (w\<lparr>pipe := f\<rparr>)" "\<And>w n. now w \<le> n \<Longrightarrow> R w (w\<lparr>now := n\<rparr>)"
    "\<And>w b. R w (w\<lparr>cancels := b\<rparr>)"
  shows "host_rel sim_host R"
proof -
  have "R w (snd (sim_bulk_out hn ep bs t w))" for hn ep bs t w
    using assms(3,4) [of w] assms(1)
    by (auto simp: sim_bulk_out_def reflpD split: list.split answer.split)
  then show ?thesis
    using assms(1,2,5,6,7)
    by (simp add: host_rel_def sim_host_def sim_bulk_in_def sim_clock_def sim_cancel_def reflpD
        split: list.split option.split)
qed

lemma sim_clock_monotonic: "clock_monotonic sim_host now"
proof -
  have "host_rel sim_host (\<lambda>w w'. now w \<le> now w')"
    by (rule sim_host_rel) (auto intro: reflpI transpI)
  moreover have "0 \<le> tv_nsec (fst (sim_clock w)) \<and> tv_nsec (fst (sim_clock w)) < 1000000000 \<and>
      tv_sec (fst (sim_clock w)) * 1000000000 + tv_nsec (fst (sim_clock w)) = now w \<and>
      snd (sim_clock w) = w" for w
    by (simp add: sim_clock_def)
  ultimately show ?thesis
    by (simp add: clock_monotonic_def sim_host_def Let_def)
qed

end
