(* ===== verification/Bot_Facts.thy ===== *)
theory Bot_Facts
  imports Transport Sample_Drive
begin

text \<open>
  The properties of the transport and of endpoint discovery, each over the code's definitions,
  with the exchanges on the sample drive that show their hypotheses can hold.
\<close>

lemmas sim_defs = sim_dev_def sim_world_def sim_entry_def sim_host_def zero_entry_def

lemma find_bulk_endpoints_cfg:
  assumes "libusb_get_active_config_descriptor h (handle (ent d)) (world d) = (Some cfg, w)"
  shows "laser_find_bulk_endpoints h d =
     (choose_interface cfg (ent d) \<noteq> None,
      d\<lparr>world := w, trace := trace d @ [Ev_Acquire (Res_Config (handle (ent d))),
          Ev_Release (Res_Config (handle (ent d)))],
        ent := (case choose_interface cfg (ent d) of Some e \<Rightarrow> e | None \<Rightarrow> ent d)\<rparr>)"
  using assms by (simp add: laser_find_bulk_endpoints_def Let_def split: option.split)

text \<open>C1: every transaction keeps the contract of its return code. The device was handed the whole
  wrapper exactly once for success, FAIL and PHASE_ERROR, and at most once for NO_DEVICE. For
  NOT_SENT it was not, or once in a transfer that ended in an error other than a timeout or the
  device leaving, and a Reset Recovery followed at once; a wrapper that went out like that is
  never reported otherwise. (laser_internal.h has NOT_SENT mean that the command was never
  executed, which the wrapper having moved whole does not bear out.) A Reset Recovery was done
  exactly when one was due and was the last thing done, the command block delivered is the
  caller's, and nothing of the entry changes but the tag and the log-once flags.\<close>

theorem bot_transaction_contract:
  "\<exists>evs. trace (snd (laser_bot_send_locked h cdb n data len inward act csw d)) = trace d @ evs \<and>
     bot_promise (ent d) (rc (fst (laser_bot_send_locked h cdb n data len inward act csw d))) evs \<and>
     only_takes (take (nat n) cdb) evs \<and>
     entry_frame (ent d) (ent (snd (laser_bot_send_locked h cdb n data len inward act csw d)))"
  using bot.send_trace [of h cdb n data len inward act csw d]
    bot.send_frame [of d h cdb n data len inward act csw] by blast

text \<open>C21: success is only ever reported on a 13-byte CSW, read last on the bulk-in endpoint,
  that has the signature, answers this command's tag, says PASS, and whose residue is within
  the request.\<close>

theorem bot_ok_means_valid_csw:
  assumes run: "laser_bot_send_locked h cdb n data len inward act csw d = (out, d')"
    and ok: "rc out = BOT_OK"
  shows "\<exists>pre ret bs. trace d' = trace d @ pre @
      [Ev_Bulk_In CSW_Phase (handle (ent d)) (ep_in (ent d)) USB_BOT_CSW_SIZE ret bs] \<and>
    length bs = USB_BOT_CSW_SIZE \<and>
    dCSWSignature (csw_of_bytes bs) = USB_BOT_CSW_SIGNATURE \<and>
    dCSWTag (csw_of_bytes bs) = tag (ent d) + 1 \<and>
    bCSWStatus (csw_of_bytes bs) = USB_BOT_STATUS_PASS \<and>
    dCSWDataResidue (csw_of_bytes bs) \<le> word_of_int len"
  using assms by (rule bot_ok_csw)

text \<open>A TEST UNIT READY on a ready drive.\<close>

lemma sim_ready:
  "rc (fst (laser_bot_send_locked sim_host [0, 0, 0, 0, 0, 0] 6 None 0 False None (Some 0)
     (sim_dev [Answer [] 0]))) = BOT_OK"
  by code_simp

theorem bot_ok_means_valid_csw_witness:
  "\<exists>pre ret bs. trace (snd (laser_bot_send_locked sim_host [0, 0, 0, 0, 0, 0] 6 None 0 False None
      (Some 0) (sim_dev [Answer [] 0]))) = trace (sim_dev [Answer [] 0]) @ pre @
      [Ev_Bulk_In CSW_Phase (handle (ent (sim_dev [Answer [] 0])))
        (ep_in (ent (sim_dev [Answer [] 0]))) USB_BOT_CSW_SIZE ret bs] \<and>
    length bs = USB_BOT_CSW_SIZE \<and>
    dCSWSignature (csw_of_bytes bs) = USB_BOT_CSW_SIGNATURE \<and>
    dCSWTag (csw_of_bytes bs) = tag (ent (sim_dev [Answer [] 0])) + 1 \<and>
    bCSWStatus (csw_of_bytes bs) = USB_BOT_STATUS_PASS \<and>
    dCSWDataResidue (csw_of_bytes bs) \<le> word_of_int 0"
  by (rule bot_ok_means_valid_csw [OF prod.collapse [symmetric] sim_ready])

text \<open>C29: memory safety of the data phase: with libusb within its documented bounds and a buffer
  of the announced length, the buffer keeps its size and the length reported back is between
  zero and the length announced, whatever residue the device claims.\<close>

theorem bot_buffer_safe:
  assumes "usb_bounded h" and "0 \<le> len" and "len < 2 ^ 31" and "nat len \<le> length bs"
    and "0 \<le> a" and "a \<le> len"
  shows "map_option length (buf (fst (laser_bot_send_locked h cdb n (Some bs) len inward (Some a)
      csw d))) = Some (length bs) \<and>
    (\<exists>a'. actual_len (fst (laser_bot_send_locked h cdb n (Some bs) len inward (Some a) csw d)) =
      Some a' \<and> 0 \<le> a' \<and> a' \<le> len)"
  using assms bot.send_buf [of h len "Some bs" cdb n inward "Some a" csw d]
    bot.send_actual [of h len "Some bs" "Some a" a cdb n inward csw d]
  by simp

theorem bot_buffer_safe_witness:
  "map_option length (buf (fst (laser_bot_send_locked sim_host [0x12, 0, 0, 0, 4, 0] 6
      (Some [0, 0, 0, 0]) 4 True (Some 0) (Some 0) (sim_dev [Answer [5, 128] 0])))) =
      Some (length [0 :: byte, 0, 0, 0]) \<and>
    (\<exists>a'. actual_len (fst (laser_bot_send_locked sim_host [0x12, 0, 0, 0, 4, 0] 6
      (Some [0, 0, 0, 0]) 4 True (Some 0) (Some 0) (sim_dev [Answer [5, 128] 0]))) = Some a' \<and>
      0 \<le> a' \<and> a' \<le> 4)"
  by (rule bot_buffer_safe [OF sim_usb_bounded]) simp_all

text \<open>C34: the 31 bytes of the command wrapper decode, on the device's side, to the tag, length,
  direction, unit and command block the caller asked for.\<close>

theorem cbw_round_trip:
  assumes "length cdb = nat n" and "0 < n" and "n \<le> 16" and "0 \<le> len" and "len < 2 ^ 31"
  shows "\<exists>c. cbw_of_bytes (cbw_bytes (build_cbw e cdb n len inward)) = Some c \<and>
    dCBWTag c = tag e \<and> uint (dCBWDataTransferLength c) = len \<and>
    (bmCBWFlags c = 0x80) = inward \<and> bCBWLUN c = lun e \<and> uint (bCBWCBLength c) = n \<and>
    take (nat n) (CBWCB c) = cdb"
proof -
  have "cbw_of_bytes (cbw_bytes (build_cbw e cdb n len inward)) =
      Some (build_cbw e cdb n len inward)"
    using assms by (intro cbw_of_cbw_bytes length_build_cbw) (simp add: build_cbw_def)
  then show ?thesis
    using assms by (simp add: build_cbw_def uint_word_of_int write_prefix_def)
qed

theorem cbw_round_trip_witness:
  "\<exists>c. cbw_of_bytes (cbw_bytes (build_cbw sim_entry [0x12, 0, 0, 0, 36, 0] 6 36 True)) = Some c \<and>
    dCBWTag c = tag sim_entry \<and> uint (dCBWDataTransferLength c) = 36 \<and>
    (bmCBWFlags c = 0x80) = True \<and> bCBWLUN c = lun sim_entry \<and> uint (bCBWCBLength c) = 6 \<and>
    take (nat 6) (CBWCB c) = [0x12, 0, 0, 0, 36, 0]"
  using cbw_round_trip [of "[0x12, 0, 0, 0, 36, 0]" 6 36 sim_entry True] by simp

text \<open>C32: endpoint discovery is the specification: the first interface whose first setting is a
  Bulk-Only mass storage interface with a bulk endpoint each way, its first such pair, and the
  smaller packet size; the configuration descriptor is freed on every path, and an entry for
  which there is no such interface is untouched.\<close>

theorem find_bulk_endpoints_spec:
  "laser_find_bulk_endpoints h d =
     (case libusb_get_active_config_descriptor h (handle (ent d)) (world d) of
        (None, w) \<Rightarrow> (False, d\<lparr>world := w\<rparr>)
      | (Some cfg, w) \<Rightarrow>
          (bulk_interface_spec cfg \<noteq> None,
           d\<lparr>world := w, trace := trace d @ [Ev_Acquire (Res_Config (handle (ent d))),
               Ev_Release (Res_Config (handle (ent d)))],
             ent := (case bulk_interface_spec cfg of
                 None \<Rightarrow> ent d
               | Some (ifc, i, out) \<Rightarrow> (ent d)\<lparr>iface_num := bInterfaceNumber ifc,
                   ep_in := bEndpointAddress i, ep_out := bEndpointAddress out,
                   ep_max_packet :=
                     min (wMaxPacketSize i AND 0x07ff) (wMaxPacketSize out AND 0x07ff)\<rparr>)\<rparr>))"
proof (cases "libusb_get_active_config_descriptor h (handle (ent d)) (world d)")
  case (Pair cfg w)
  show ?thesis
  proof (cases cfg)
    case None
    with Pair show ?thesis by (simp add: laser_find_bulk_endpoints_def)
  next
    case (Some c)
    with Pair find_bulk_endpoints_cfg [of h d c w] show ?thesis
      by (simp add: choose_interface_spec split: option.split)
  qed
qed

end
