(* ===== verification/Table.thy ===== *)
theory Table
  imports Device
begin

text \<open>
  The registry's table as the transaction path sees it (registry.c): eight slots, the lookup of
  a token, reserving and freeing a slot, and the classification of the key commands. A function
  of the library that takes a token runs on the whole table; one that takes an entry runs on
  that entry alone, and \<open>run_on\<close> is the step between the two.
\<close>

record 'w sys = "'w io" +
  g_entries :: "laser_entry list"

section \<open>Running on one entry\<close>

definition dev_of :: "nat \<Rightarrow> 'w sys \<Rightarrow> 'w dev" where
  "dev_of i s = \<lparr>world = world s, trace = trace s, ent = g_entries s ! i\<rparr>"

definition put_dev :: "nat \<Rightarrow> 'w dev \<Rightarrow> 'w sys \<Rightarrow> 'w sys" where
  "put_dev i d s = s\<lparr>world := world d, trace := trace d, g_entries := (g_entries s)[i := ent d]\<rparr>"

definition run_on :: "nat \<Rightarrow> ('w dev \<Rightarrow> 'r \<times> 'w dev) \<Rightarrow> 'w sys \<Rightarrow> 'r \<times> 'w sys" where
  "run_on i f s = (case f (dev_of i s) of (r, d) \<Rightarrow> (r, put_dev i d s))"

lemma dev_of_sel [simp]:
  "world (dev_of i s) = world s" "trace (dev_of i s) = trace s" "ent (dev_of i s) = g_entries s ! i"
  by (simp_all add: dev_of_def)

lemma put_dev_sel [simp]:
  "world (put_dev i d s) = world d" "trace (put_dev i d s) = trace d"
  "g_entries (put_dev i d s) = (g_entries s)[i := ent d]"
  by (simp_all add: put_dev_def)

lemma put_dev_of [simp]: "put_dev i (dev_of i s) s = s"
  by (simp add: put_dev_def dev_of_def)

section \<open>Lookup\<close>

fun find_slot :: "(laser_entry \<Rightarrow> bool) \<Rightarrow> laser_entry list \<Rightarrow> nat option" where
  "find_slot P [] = None"
| "find_slot P (e # es) = (if P e then Some 0 else map_option Suc (find_slot P es))"

definition laser_lookup :: "int \<Rightarrow> 'w sys \<Rightarrow> nat option" where
  "laser_lookup tk s = find_slot (\<lambda>e. in_use e \<and> token e = tk) (take LASER_MAX_DEVICES (g_entries s))"

definition laser_token_not_ready :: "int \<Rightarrow> 'w sys \<Rightarrow> bool" where
  "laser_token_not_ready tk s =
     (case laser_lookup tk s of None \<Rightarrow> False | Some i \<Rightarrow> not_ready (g_entries s ! i))"

lemma find_slot_Some:
  "find_slot P es = Some i \<Longrightarrow> i < length es \<and> P (es ! i) \<and> (\<forall>j < i. \<not> P (es ! j))"
  by (induction es arbitrary: i) (auto split: if_splits simp: nth_Cons split: nat.split)

lemma find_slot_None: "find_slot P es = None \<longleftrightarrow> (\<forall>e \<in> set es. \<not> P e)"
  by (induction es) auto

lemma find_slot_first:
  assumes "i < length es" and "P (es ! i)" and "\<And>j. j < i \<Longrightarrow> \<not> P (es ! j)"
  shows "find_slot P es = Some i"
proof -
  have "find_slot P es \<noteq> None"
    using assms(1,2) by (auto simp: find_slot_None)
  then obtain k where k: "find_slot P es = Some k" by blast
  from find_slot_Some [OF k] assms have "k = i"
    by (meson linorder_neqE_nat)
  with k show ?thesis by simp
qed

lemma laser_lookup_Some:
  assumes "laser_lookup tk s = Some i"
  shows "i < length (g_entries s)" and "i < LASER_MAX_DEVICES"
    and "in_use (g_entries s ! i)" and "token (g_entries s ! i) = tk"
  using find_slot_Some [OF assms [unfolded laser_lookup_def]] by auto

lemma laser_lookup_None:
  "length (g_entries s) = LASER_MAX_DEVICES \<Longrightarrow>
     laser_lookup tk s = None \<longleftrightarrow> (\<forall>e \<in> set (g_entries s). in_use e \<longrightarrow> token e \<noteq> tk)"
  by (auto simp: laser_lookup_def find_slot_None)

section \<open>Slots\<close>

text \<open>
  \<open>reserve_slot()\<close>: no slot if the descriptor is registered or the table is full; otherwise the
  first free one, zeroed, carrying the descriptor, still unpublished.
\<close>

definition reserve_slot :: "int \<Rightarrow> 'w sys \<Rightarrow> nat option \<times> 'w sys" where
  "reserve_slot fd s =
     (if \<exists>e \<in> set (take LASER_MAX_DEVICES (g_entries s)). in_use e \<and> token e = fd then (None, s)
      else case find_slot (\<lambda>e. \<not> in_use e) (take LASER_MAX_DEVICES (g_entries s)) of
          None \<Rightarrow> (None, s)
        | Some i \<Rightarrow> (Some i, s\<lparr>g_entries := (g_entries s)[i := zero_entry\<lparr>token := fd\<rparr>]\<rparr>))"

definition release_slot :: "nat \<Rightarrow> 'w sys \<Rightarrow> 'w sys" where
  "release_slot i s = s\<lparr>g_entries := (g_entries s)[i := zero_entry]\<rparr>"

section \<open>Key commands\<close>

text \<open>\<open>laser_cdb_changes_css_state()\<close>, keyed on the key format rather than the opcode.\<close>

definition laser_cdb_changes_css_state :: "byte list \<Rightarrow> int \<Rightarrow> bool" where
  "laser_cdb_changes_css_state cdb cdb_len =
     (if cdb_len < 12 then False
      else if cdb ! 0 = 0xA4 then
        let fmt = cdb ! 10 AND 0x3f
        in fmt = 0x00 \<or> fmt = 0x01 \<or> fmt = 0x02 \<or> fmt = 0x04 \<or> fmt = 0x3f
      else if cdb ! 0 = 0xA3 then
        let fmt = cdb ! 10 AND 0x3f in fmt = 0x01 \<or> fmt = 0x03
      else if cdb ! 0 = 0xAD then \<not> (cdb ! 7 = 0x00 \<or> cdb ! 7 = 0x01)
      else False)"

definition laser_css_session_is_open :: "laser_entry \<Rightarrow> bool" where
  "laser_css_session_is_open e = css_open e"

text \<open>Only the three key-class opcodes can change that state, and reads never do.\<close>

lemma key_command_opcode:
  "laser_cdb_changes_css_state cdb n \<Longrightarrow> cdb ! 0 = 0xA4 \<or> cdb ! 0 = 0xA3 \<or> cdb ! 0 = 0xAD"
  by (auto simp: laser_cdb_changes_css_state_def Let_def split: if_splits)

lemma key_command_length: "laser_cdb_changes_css_state cdb n \<Longrightarrow> 12 \<le> n"
  by (auto simp: laser_cdb_changes_css_state_def split: if_splits)

end
