(* ===== verification/Sense.thy ===== *)
theory Sense
  imports Transport Table
begin

text \<open>
  The single-command helpers of scsi.c: TEST UNIT READY, REQUEST SENSE, START STOP UNIT, the
  media status query and PREVENT ALLOW MEDIUM REMOVAL, and the throughput sampling done after a
  successful read. They are parameterised on the transport, whose contract is the locale of
  theory Transport.
\<close>

abbreviation SCSI_SENSE_KEY_NOT_READY :: byte where "SCSI_SENSE_KEY_NOT_READY \<equiv> 0x02"
abbreviation SCSI_SENSE_KEY_UNIT_ATTENTION :: byte where "SCSI_SENSE_KEY_UNIT_ATTENTION \<equiv> 0x06"
abbreviation SCSI_SENSE_KEY_ILLEGAL_REQUEST :: byte where "SCSI_SENSE_KEY_ILLEGAL_REQUEST \<equiv> 0x05"
abbreviation SCSI_SENSE_KEY_DATA_PROTECT :: byte where "SCSI_SENSE_KEY_DATA_PROTECT \<equiv> 0x07"
abbreviation SCSI_ASC_INVALID_OPCODE :: byte where "SCSI_ASC_INVALID_OPCODE \<equiv> 0x20"
abbreviation SCSI_ASC_INVALID_CDB_FIELD :: byte where "SCSI_ASC_INVALID_CDB_FIELD \<equiv> 0x24"
abbreviation SCSI_ASC_COPY_PROTECTION :: byte where "SCSI_ASC_COPY_PROTECTION \<equiv> 0x6f"
abbreviation SCSI_ASC_BECOMING_READY :: byte where "SCSI_ASC_BECOMING_READY \<equiv> 0x04"
abbreviation SCSI_ASC_MEDIUM_NOT_PRESENT :: byte where "SCSI_ASC_MEDIUM_NOT_PRESENT \<equiv> 0x3a"
abbreviation SCSI_ASCQ_TRAY_OPEN :: byte where "SCSI_ASCQ_TRAY_OPEN \<equiv> 0x02"
abbreviation SCSI_ASC_MEDIUM_MAY_HAVE_CHANGED :: byte where
  "SCSI_ASC_MEDIUM_MAY_HAVE_CHANGED \<equiv> 0x28"

section \<open>Sense data\<close>

record sense =
  sense_key :: byte
  asc :: byte
  ascq :: byte

text \<open>What the callers' locals hold when there is nothing to decode.\<close>

definition no_sense :: sense where
  "no_sense = \<lparr>sense_key = 0xff, asc = 0, ascq = 0\<rparr>"

definition request_sense_cdb :: "byte list" where
  "request_sense_cdb = [0x03, 0x00, 0x00, 0x00, 0x18, 0x00]"

text \<open>The out-parameters are written only on success.\<close>

definition request_sense_locked :: "'w transport \<Rightarrow> sense \<Rightarrow> 'w dev \<Rightarrow> (int \<times> sense) \<times> 'w dev" where
  "request_sense_locked send sn d =
     (case send request_sense_cdb 6 (Some (replicate 24 0)) 24 True (Some 0) None d of (out, d') \<Rightarrow>
        let buffer = the (buf out) in
        if rc out \<noteq> BOT_OK then ((-1, sn), d')
        else if the (actual_len out) < 14 then ((-1, sn), d')
        else ((0, \<lparr>sense_key = buffer ! 2 AND 0x0f, asc = buffer ! 12, ascq = buffer ! 13\<rparr>), d'))"

section \<open>Commands without data\<close>

definition test_unit_ready_cdb :: "byte list" where
  "test_unit_ready_cdb = [0x00, 0x00, 0x00, 0x00, 0x00, 0x00]"

definition test_unit_ready_locked :: "'w transport \<Rightarrow> 'w dev \<Rightarrow> bot_rc \<times> 'w dev" where
  "test_unit_ready_locked send d =
     (case send test_unit_ready_cdb 6 None 0 False None (Some (-1)) d of (out, d') \<Rightarrow> (rc out, d'))"

text \<open>START STOP UNIT in the shape asked for: the CSW status, and the sense behind a FAIL.\<close>

definition start_stop_cdb :: "byte \<Rightarrow> byte \<Rightarrow> byte list" where
  "start_stop_cdb immed byte4 = [0x1b, immed, 0, 0, byte4, 0]"

definition start_stop_unit_locked ::
  "'w transport \<Rightarrow> byte \<Rightarrow> byte \<Rightarrow> 'w dev \<Rightarrow> (int \<times> sense) \<times> 'w dev" where
  "start_stop_unit_locked send immed byte4 d =
     (case send (start_stop_cdb immed byte4) 6 None 0 False None (Some (-1)) d of (out, d1) \<Rightarrow>
        let status = the (csw_status out) in
        if rc out \<noteq> BOT_OK \<and> status = uint USB_BOT_STATUS_FAIL then
          (case request_sense_locked send no_sense d1 of ((_, sn), d2) \<Rightarrow> ((status, sn), d2))
        else ((status, no_sense), d1))"

definition laser_allow_medium_removal :: "'w transport \<Rightarrow> 'w host \<Rightarrow> 'w dev \<Rightarrow> 'w dev" where
  "laser_allow_medium_removal send h d =
     (case send [0x1e, 0, 0, 0, 0, 0] 6 None 0 False None (Some (-1)) (lock_io h d) of (out, d1) \<Rightarrow>
        if rc out \<noteq> BOT_OK \<and> the (csw_status out) = uint USB_BOT_STATUS_FAIL then
          snd (request_sense_locked send no_sense d1)
        else d1)"

text \<open>GET EVENT STATUS NOTIFICATION, whose answer only goes to the log.\<close>

record media_status =
  no_event :: bool
  media_class :: byte
  media_event :: byte
  tray_open :: bool
  media_present :: bool

definition log_media_status_locked ::
  "'w transport \<Rightarrow> 'w dev \<Rightarrow> media_status option \<times> 'w dev" where
  "log_media_status_locked send d =
     (case send [0x4a, 0x01, 0, 0, 0x10, 0, 0, 0x00, 0x08, 0] 10 (Some (replicate 8 0)) 8 True
            (Some 0) None d of (out, d') \<Rightarrow>
        let bs = the (buf out) in
        if rc out \<noteq> BOT_OK \<or> the (actual_len out) < 8 then (None, d')
        else (Some \<lparr>no_event = (bs ! 2 AND 0x80 \<noteq> 0), media_class = bs ! 2 AND 0x07,
                media_event = bs ! 4 AND 0x0f, tray_open = (bs ! 5 AND 0x01 \<noteq> 0),
                media_present = (bs ! 5 AND 0x02 \<noteq> 0)\<rparr>, d'))"

section \<open>Throughput sampling\<close>

abbreviation LASER_XFER_SAMPLE_MIN_BYTES :: int where "LASER_XFER_SAMPLE_MIN_BYTES \<equiv> 32768"
abbreviation LASER_XFER_SAMPLE_BYTES :: u64 where "LASER_XFER_SAMPLE_BYTES \<equiv> 1048576"

definition slow_floor_kib_per_s :: "u16 \<Rightarrow> u32" where
  "slow_floor_kib_per_s max_packet = (if max_packet \<le> 64 then 250 else 1000)"

text \<open>The single report of a registration: the rate in KiB/s, and whether it is a warning.\<close>

datatype throughput_report = Sustained u64 | Only_Slow u64

definition sample_update :: "int \<Rightarrow> int \<Rightarrow> laser_entry \<Rightarrow> throughput_report option \<times> laser_entry" where
  "sample_update data_len us e =
     (let e1 = e\<lparr>xfer_bytes := xfer_bytes e + word_of_int data_len,
                xfer_us := xfer_us e + word_of_int (if 0 < us then us else 0),
                xfer_count := xfer_count e + 1\<rparr>
      in if xfer_bytes e1 < LASER_XFER_SAMPLE_BYTES \<or> xfer_us e1 = 0 then (None, e1)
         else
           let kib_per_s = (xfer_bytes e1 * 1000000) div (xfer_us e1 * 1024);
               floor_kib = slow_floor_kib_per_s (ep_max_packet e1)
           in (Some (if ucast floor_kib \<le> kib_per_s then Sustained kib_per_s
                     else Only_Slow kib_per_s),
               e1\<lparr>slow_warned := True\<rparr>))"

definition sample_throughput_locked ::
  "'w host \<Rightarrow> int \<Rightarrow> timespec \<Rightarrow> 'w dev \<Rightarrow> throughput_report option \<times> 'w dev" where
  "sample_throughput_locked h data_len started d =
     (if slow_warned (ent d) \<or> data_len < LASER_XFER_SAMPLE_MIN_BYTES then (None, d)
      else case do_clock h d of (now, d1) \<Rightarrow>
        let us = (tv_sec now - tv_sec started) * 1000000 +
                 c_div (tv_nsec now - tv_nsec started) 1000
        in case sample_update data_len us (ent d1) of (r, e) \<Rightarrow> (r, d1\<lparr>ent := e\<rparr>))"

section \<open>What the helpers keep\<close>

lemma sample_update_rely: "entry_rely e (snd (sample_update data_len us e))"
  by (simp add: sample_update_def Let_def entry_rely_def)

lemma sample_throughput_frame [frame_simps]:
  "trace (snd (sample_throughput_locked h data_len started d)) = trace d"
  by (simp add: sample_throughput_locked_def case_prod_unfold Let_def frame_simps)

lemma sample_throughput_rely:
  "entry_rely (ent d) (ent (snd (sample_throughput_locked h data_len started d)))"
  by (simp add: sample_throughput_locked_def case_prod_unfold Let_def frame_simps
      sample_update_rely)

lemma sample_throughput_same:
  "device_gone (ent (snd (sample_throughput_locked h data_len started d))) = device_gone (ent d)"
  "cancelled (ent (snd (sample_throughput_locked h data_len started d))) = cancelled (ent d)"
  "not_ready (ent (snd (sample_throughput_locked h data_len started d))) = not_ready (ent d)"
  by (simp_all add: sample_throughput_locked_def sample_update_def case_prod_unfold Let_def
      frame_simps)

lemma sample_throughput_world:
  "host_rel h R \<Longrightarrow> R w (world d) \<Longrightarrow>
     R w (world (snd (sample_throughput_locked h data_len started d)))"
  by (auto simp: sample_throughput_locked_def case_prod_unfold Let_def intro: world_after)

context bot_transport
begin

lemma send_world_after:
  "host_rel h R \<Longrightarrow> R w (world d) \<Longrightarrow> R w (world (snd (send cdb n data len inward act csw d)))"
  by (rule host_relD(2) [OF _ _ send_world])

lemma request_sense_frame: "entry_frame (ent d) (ent (snd (request_sense_locked send sn d)))"
  by (simp add: request_sense_locked_def case_prod_unfold Let_def send_frame)

lemma request_sense_world:
  "host_rel h R \<Longrightarrow> R w (world d) \<Longrightarrow> R w (world (snd (request_sense_locked send sn d)))"
  by (simp add: request_sense_locked_def case_prod_unfold Let_def send_world_after)

lemma request_sense_taken:
  assumes "pad16 c \<noteq> pad16 request_sense_cdb"
  shows "\<exists>evs. trace (snd (request_sense_locked send sn d)) = trace d @ evs \<and> times_taken c evs = 0"
proof -
  obtain out d' where run:
    "send request_sense_cdb 6 (Some (replicate 24 0)) 24 True (Some 0) None d = (out, d')"
    by fastforce
  obtain evs where "trace d' = trace d @ evs" "times_taken c evs = 0"
    using assms by (rule_tac send_taken [OF run, of c]) (simp add: request_sense_cdb_def)
  with run show ?thesis by (auto simp: request_sense_locked_def Let_def)
qed

lemma test_unit_ready_frame: "entry_frame (ent d) (ent (snd (test_unit_ready_locked send d)))"
  by (simp add: test_unit_ready_locked_def case_prod_unfold send_frame)

lemma test_unit_ready_world:
  "host_rel h R \<Longrightarrow> R w (world d) \<Longrightarrow> R w (world (snd (test_unit_ready_locked send d)))"
  by (simp add: test_unit_ready_locked_def case_prod_unfold send_world_after)

lemma start_stop_frame:
  "entry_frame (ent d) (ent (snd (start_stop_unit_locked send immed byte4 d)))"
  using entry_frame_trans [OF send_frame request_sense_frame]
  by (simp add: start_stop_unit_locked_def case_prod_unfold Let_def send_frame)

lemma start_stop_world:
  "host_rel h R \<Longrightarrow> R w (world d) \<Longrightarrow> R w (world (snd (start_stop_unit_locked send i b d)))"
  by (simp add: start_stop_unit_locked_def case_prod_unfold Let_def send_world_after
      request_sense_world)

lemma media_status_frame: "entry_frame (ent d) (ent (snd (log_media_status_locked send d)))"
  by (simp add: log_media_status_locked_def case_prod_unfold Let_def send_frame)

lemma media_status_world:
  "host_rel h R \<Longrightarrow> R w (world d) \<Longrightarrow> R w (world (snd (log_media_status_locked send d)))"
  by (simp add: log_media_status_locked_def case_prod_unfold Let_def send_world_after)

lemma allow_removal_rely:
  "threads_rely h \<Longrightarrow> entry_rely (ent d) (ent (laser_allow_medium_removal send h d))"
  using entry_rely_trans [OF _ entry_frame_rely [OF send_frame]]
    entry_rely_trans [OF _ entry_frame_rely [OF entry_frame_trans [OF send_frame request_sense_frame]]]
  by (auto simp: laser_allow_medium_removal_def case_prod_unfold lock_io_def threads_rely_def)

lemma allow_removal_world:
  "host_rel h R \<Longrightarrow> R w (world d) \<Longrightarrow> R w (world (laser_allow_medium_removal send h d))"
  by (simp add: laser_allow_medium_removal_def case_prod_unfold send_world_after
      request_sense_world world_after(8))

end

end
