(* ===== verification/Command.thy ===== *)
theory Command
  imports Sense
begin

text \<open>
  \<open>laser_scsi_cdb()\<close> of scsi.c, the retrying command primitive everything else goes through. One
  pass of its loop is \<open>cdb_attempt\<close>; the loop itself has no bound of its own (a drive can make it
  run forever, as the Livelock theory shows), so it is a partial function whose value \<open>None\<close> is
  not returning.
\<close>

abbreviation LASER_MAX_RETRIES :: int where "LASER_MAX_RETRIES \<equiv> 6"
abbreviation LASER_RETRY_DELAY_MS :: nat where "LASER_RETRY_DELAY_MS \<equiv> 500"
abbreviation LASER_BECOMING_READY_MAX_WALL_MS :: int where
  "LASER_BECOMING_READY_MAX_WALL_MS \<equiv> 30000"

section \<open>What a failed attempt leads to\<close>

text \<open>The copy-protection qualifiers under 05h/6Fh.\<close>

definition copy_protection_status :: "byte \<Rightarrow> laser_status" where
  "copy_protection_status q =
     (if q = 0x03 then LASER_ERR_SCRAMBLED
      else if q = 0x00 \<or> q = 0x01 \<or> q = 0x02 then LASER_ERR_NO_KEY
      else if q = 0x04 \<or> q = 0x05 then LASER_ERR_REGION
      else LASER_ERR_REFUSED)"

datatype cdb_next =
    Give_Up laser_status
  | Now_Ready
  | Wait_Ready
  | Retry

text \<open>
  The chain of tests after a failure, in the code's order. \<open>spun_up\<close> is its
  \<open>becoming_ready || entry->not_ready\<close>.
\<close>

definition cdb_decide :: "bool \<Rightarrow> bool \<Rightarrow> bot_rc \<Rightarrow> sense \<Rightarrow> cdb_next" where
  "cdb_decide idempotent spun_up r sn =
     (if sense_key sn = SCSI_SENSE_KEY_NOT_READY \<and> asc sn = SCSI_ASC_MEDIUM_NOT_PRESENT then
        Give_Up LASER_ERR_MEDIA_GONE
      else if asc sn = SCSI_ASC_MEDIUM_MAY_HAVE_CHANGED \<and> ascq sn = 0x00 then
        (if spun_up then Now_Ready else Give_Up LASER_ERR_MEDIA_GONE)
      else if sense_key sn = SCSI_SENSE_KEY_ILLEGAL_REQUEST \<and> asc sn = SCSI_ASC_COPY_PROTECTION then
        Give_Up (copy_protection_status (ascq sn))
      else if sense_key sn = SCSI_SENSE_KEY_ILLEGAL_REQUEST \<or>
              sense_key sn = SCSI_SENSE_KEY_DATA_PROTECT then
        Give_Up LASER_ERR_REFUSED
      else if \<not> idempotent \<and> r \<noteq> BOT_FAIL_NOT_SENT then Give_Up LASER_ERR_IO
      else if sense_key sn = SCSI_SENSE_KEY_NOT_READY \<and> asc sn = SCSI_ASC_BECOMING_READY then
        Wait_Ready
      else Retry)"

section \<open>One pass of the loop\<close>

record cdb_locals =
  attempt :: int
  attempts_made :: int
  cbw_never_sent :: int
  becoming_ready :: bool
  becoming_ready_since :: timespec
  c_data :: "byte list option"
  c_actual :: "int option"

text \<open>The tail of the loop body: at once after a UNIT ATTENTION, else after the delay.\<close>

definition cdb_delay :: "'w host \<Rightarrow> sense \<Rightarrow> cdb_locals \<Rightarrow> 'w dev \<Rightarrow> 'w dev" where
  "cdb_delay h sn L d =
     (if sense_key sn = SCSI_SENSE_KEY_UNIT_ATTENTION then d
      else if attempt L < LASER_MAX_RETRIES then do_usleep h (LASER_RETRY_DELAY_MS * 1000) d
      else d)"

text \<open>Waiting out a drive that says it is becoming ready, under its own ceiling.\<close>

definition cdb_wait_ready ::
  "'w host \<Rightarrow> sense \<Rightarrow> cdb_locals \<Rightarrow> 'w dev \<Rightarrow> cdb_locals \<times> 'w dev" where
  "cdb_wait_ready h sn L d =
     (case (if \<not> becoming_ready L then
              (case do_clock h d of (t, d') \<Rightarrow>
                 (L\<lparr>becoming_ready := True, becoming_ready_since := t\<rparr>, d'))
            else (L, d)) of (L1, d1) \<Rightarrow>
      case ms_since h (becoming_ready_since L1) d1 of (ms, d2) \<Rightarrow>
        if ms < LASER_BECOMING_READY_MAX_WALL_MS then
          (L1\<lparr>attempt := attempt L1 - 1\<rparr>, do_usleep h (LASER_RETRY_DELAY_MS * 1000) d2)
        else (L1, cdb_delay h sn L1 d2))"

text \<open>The rest of the body after a failure; \<open>Some\<close> leaves the loop with that result.\<close>

definition cdb_failed ::
  "'w host \<Rightarrow> bool \<Rightarrow> bot_rc \<Rightarrow> sense \<Rightarrow> cdb_locals \<Rightarrow> 'w dev \<Rightarrow>
     laser_status option \<times> cdb_locals \<times> 'w dev" where
  "cdb_failed h idempotent r sn L d =
     (case cdb_decide idempotent (becoming_ready L \<or> not_ready (ent d)) r sn of
        Give_Up st \<Rightarrow> (Some st, L, d)
      | Now_Ready \<Rightarrow> (None, L\<lparr>becoming_ready := False, attempt := attempt L - 1\<rparr>,
                         upd_ent (\<lambda>e. e\<lparr>not_ready := False\<rparr>) d)
      | Wait_Ready \<Rightarrow> (None, cdb_wait_ready h sn L d)
      | Retry \<Rightarrow> (None, L, cdb_delay h sn L d))"

definition cdb_sense :: "'w transport \<Rightarrow> bot_out \<Rightarrow> 'w dev \<Rightarrow> sense \<times> 'w dev" where
  "cdb_sense send out d =
     (if rc out = BOT_FAIL_PHASE_ERROR then (no_sense, d)
      else if the (csw_status out) = uint USB_BOT_STATUS_FAIL then
        (case request_sense_locked send no_sense d of ((_, sn), d') \<Rightarrow> (sn, d'))
      else (no_sense, d))"

text \<open>An attempt from after its look at the cancellation flag.\<close>

definition cdb_transact ::
  "'w transport \<Rightarrow> 'w host \<Rightarrow> byte list \<Rightarrow> int \<Rightarrow> int \<Rightarrow> bool \<Rightarrow> bool \<Rightarrow> cdb_locals \<Rightarrow> 'w dev \<Rightarrow>
     laser_status option \<times> cdb_locals \<times> 'w dev" where
  "cdb_transact send h cdb cdb_len data_len data_in idempotent L1 d1 =
     (case do_clock h d1 of (xfer_started, d2) \<Rightarrow>
      case send cdb cdb_len (c_data L1) data_len data_in (c_actual L1) (Some (-1)) d2 of
        (out, d3) \<Rightarrow>
      let L2 = L1\<lparr>c_data := buf out, c_actual := actual_len out\<rparr> in
      if rc out = BOT_OK then
        (Some LASER_OK, L2, snd (sample_throughput_locked h data_len xfer_started d3))
      else
        let L3 = (if rc out = BOT_FAIL_NOT_SENT
                  then L2\<lparr>cbw_never_sent := cbw_never_sent L2 + 1\<rparr> else L2)
        in if rc out = BOT_FAIL_NO_DEVICE then
             (Some LASER_ERR_NO_DEVICE, L3, upd_ent (\<lambda>e. e\<lparr>device_gone := True\<rparr>) d3)
           else case cdb_sense send out d3 of (sn, d4) \<Rightarrow>
             cdb_failed h idempotent (rc out) sn L3 d4)"

definition cdb_attempt ::
  "'w transport \<Rightarrow> 'w host \<Rightarrow> byte list \<Rightarrow> int \<Rightarrow> int \<Rightarrow> bool \<Rightarrow> bool \<Rightarrow> cdb_locals \<Rightarrow> 'w dev \<Rightarrow>
     laser_status option \<times> cdb_locals \<times> 'w dev" where
  "cdb_attempt send h cdb cdb_len data_len data_in idempotent L0 d0 =
     (let L1 = L0\<lparr>attempts_made := attempt L0\<rparr> in
      case laser_is_cancelled h d0 of (gone, d1) \<Rightarrow>
      if gone then (Some LASER_ERR_CANCELLED, L1, d1)
      else cdb_transact send h cdb cdb_len data_len data_in idempotent L1 d1)"

section \<open>The loop and what follows it\<close>

partial_function (option) cdb_loop ::
  "'w transport \<Rightarrow> 'w host \<Rightarrow> byte list \<Rightarrow> int \<Rightarrow> int \<Rightarrow> bool \<Rightarrow> bool \<Rightarrow> cdb_locals \<Rightarrow> 'w dev \<Rightarrow>
     (laser_status \<times> cdb_locals \<times> 'w dev) option" where
  "cdb_loop send h cdb cdb_len data_len data_in idempotent L d =
     (if LASER_MAX_RETRIES < attempt L then Some (LASER_ERR_IO, L, d)
      else case cdb_attempt send h cdb cdb_len data_len data_in idempotent L d of
          (Some st, L', d') \<Rightarrow> Some (st, L', d')
        | (None, L', d') \<Rightarrow>
            cdb_loop send h cdb cdb_len data_len data_in idempotent
              (L'\<lparr>attempt := attempt L' + 1\<rparr>) d')"

declare cdb_loop.simps [code]

text \<open>Every attempt failing before its wrapper left is the device being gone.\<close>

definition cdb_never_left :: "laser_status \<Rightarrow> cdb_locals \<Rightarrow> bool" where
  "cdb_never_left result L \<longleftrightarrow>
     result \<noteq> LASER_OK \<and> result \<noteq> LASER_ERR_CANCELLED \<and> 0 < attempts_made L \<and>
     cbw_never_sent L = attempts_made L"

definition cdb_normalise :: "laser_status \<Rightarrow> laser_status" where
  "cdb_normalise result =
     (if result \<noteq> LASER_OK \<and> result \<noteq> LASER_ERR_MEDIA_GONE \<and> result \<noteq> LASER_ERR_NO_DEVICE \<and>
         result \<noteq> LASER_ERR_REFUSED \<and> result \<noteq> LASER_ERR_SCRAMBLED \<and>
         result \<noteq> LASER_ERR_NO_KEY \<and> result \<noteq> LASER_ERR_REGION \<and>
         result \<noteq> LASER_ERR_CANCELLED
      then LASER_ERR_IO else result)"

definition cdb_finish :: "laser_status \<Rightarrow> cdb_locals \<Rightarrow> 'w dev \<Rightarrow> laser_status \<times> 'w dev" where
  "cdb_finish result L d =
     (if cdb_never_left result L then
        (cdb_normalise LASER_ERR_NO_DEVICE, upd_ent (\<lambda>e. e\<lparr>device_gone := True\<rparr>) d)
      else (cdb_normalise result, d))"

text \<open>What the caller gets: the status, and the targets of \<open>data\<close> and \<open>actual_len\<close>.\<close>

record cdb_out =
  status :: laser_status
  o_data :: "byte list option"
  o_actual :: "int option"

definition cdb_start :: "byte list option \<Rightarrow> int option \<Rightarrow> cdb_locals" where
  "cdb_start data actual = \<lparr>attempt = 1, attempts_made = 0, cbw_never_sent = 0,
     becoming_ready = False, becoming_ready_since = \<lparr>tv_sec = 0, tv_nsec = 0\<rparr>,
     c_data = data, c_actual = actual\<rparr>"

text \<open>Up to the lock: session check, cancellation, the device-gone latch. \<open>Some\<close> is an early return.\<close>

definition cdb_checks :: "'w host \<Rightarrow> byte list \<Rightarrow> int \<Rightarrow> 'w dev \<Rightarrow> laser_status option \<times> 'w dev" where
  "cdb_checks h cdb cdb_len d =
     (if laser_cdb_changes_css_state cdb cdb_len \<and> \<not> laser_css_session_is_open (ent d) then
        (Some LASER_ERR_INVALID, d)
      else case laser_is_cancelled h d of (gone, d1) \<Rightarrow>
        if gone then (Some LASER_ERR_CANCELLED, d1)
        else if device_gone (ent d1) then (Some LASER_ERR_NO_DEVICE, d1)
        else (None, d1))"

definition cdb_idempotent :: "byte list \<Rightarrow> int \<Rightarrow> int \<Rightarrow> bool \<Rightarrow> bool" where
  "cdb_idempotent cdb cdb_len data_len data_in =
     (\<not> laser_cdb_changes_css_state cdb cdb_len \<and> (data_in \<or> data_len = 0))"

text \<open>From the entry on: the checks, then the loop under the lock.\<close>

definition scsi_cdb_entry ::
  "'w transport \<Rightarrow> 'w host \<Rightarrow> byte list \<Rightarrow> int \<Rightarrow> byte list option \<Rightarrow> int \<Rightarrow> bool \<Rightarrow> int option \<Rightarrow>
     'w dev \<Rightarrow> (cdb_out \<times> 'w dev) option" where
  "scsi_cdb_entry send h cdb cdb_len data data_len data_in actual d =
     (case cdb_checks h cdb cdb_len d of
        (Some st, d1) \<Rightarrow> Some (\<lparr>status = st, o_data = data, o_actual = actual\<rparr>, d1)
      | (None, d1) \<Rightarrow>
          (case cdb_loop send h cdb cdb_len data_len data_in
                  (cdb_idempotent cdb cdb_len data_len data_in) (cdb_start data actual) (lock_io h d1) of
             None \<Rightarrow> None
           | Some (result, L, d2) \<Rightarrow>
               (case cdb_finish result L d2 of (st, d3) \<Rightarrow>
                  Some (\<lparr>status = st, o_data = c_data L, o_actual = c_actual L\<rparr>, d3))))"

definition laser_scsi_cdb ::
  "'w host \<Rightarrow> int \<Rightarrow> byte list option \<Rightarrow> int \<Rightarrow> byte list option \<Rightarrow> int \<Rightarrow> bool \<Rightarrow> int option \<Rightarrow>
     'w sys \<Rightarrow> (cdb_out \<times> 'w sys) option" where
  "laser_scsi_cdb h tk cdb cdb_len data data_len data_in actual s =
     (let out = (\<lambda>st. \<lparr>status = st, o_data = data, o_actual = actual\<rparr>) in
      if cdb = None \<or> cdb_len \<le> 0 \<or> 16 < cdb_len then Some (out LASER_ERR_INVALID, s)
      else if data_len < 0 \<or> (data = None \<and> 0 < data_len) then Some (out LASER_ERR_INVALID, s)
      else case laser_lookup tk s of
          None \<Rightarrow> Some (out LASER_ERR_NO_SUCH_TOKEN, s)
        | Some i \<Rightarrow>
            map_option (\<lambda>(o', d). (o', put_dev i d s))
              (scsi_cdb_entry (laser_bot_send_locked h) h (the cdb) cdb_len data data_len data_in
                 actual (dev_of i s)))"

end
