(* ===== verification/Command_Facts.thy ===== *)
theory Command_Facts
  imports Command
begin

text \<open>
  What the command primitive keeps and guarantees, proved against the transport's contract: case
  rules for one attempt, the invariant rule of the loop, the shared-field guarantee, and how
  often the drive takes a key command.
\<close>

section \<open>One attempt, case by case\<close>

lemma cdb_failed_cases:
  assumes "cdb_failed h idempotent r sn L d = (res, L', d')"
  obtains (stop) st where
      "cdb_decide idempotent (becoming_ready L \<or> not_ready (ent d)) r sn = Give_Up st"
      and "res = Some st" and "L' = L" and "d' = d"
  | (now_ready)
      "cdb_decide idempotent (becoming_ready L \<or> not_ready (ent d)) r sn = Now_Ready"
      and "res = None" and "L' = L\<lparr>becoming_ready := False, attempt := attempt L - 1\<rparr>"
      and "d' = upd_ent (\<lambda>e. e\<lparr>not_ready := False\<rparr>) d"
  | (wait) "cdb_decide idempotent (becoming_ready L \<or> not_ready (ent d)) r sn = Wait_Ready"
      and "res = None" and "cdb_wait_ready h sn L d = (L', d')"
  | (retry) "cdb_decide idempotent (becoming_ready L \<or> not_ready (ent d)) r sn = Retry"
      and "res = None" and "L' = L" and "d' = cdb_delay h sn L d"
  using assms
  by (cases "cdb_decide idempotent (becoming_ready L \<or> not_ready (ent d)) r sn")
    (auto simp: cdb_failed_def)

text \<open>The locals after a transaction that did not succeed.\<close>

definition after_failure :: "bot_out \<Rightarrow> cdb_locals \<Rightarrow> cdb_locals" where
  "after_failure out L = L\<lparr>attempts_made := attempt L, c_data := buf out,
     c_actual := actual_len out, cbw_never_sent := cbw_never_sent L +
       (if rc out = BOT_FAIL_NOT_SENT then 1 else 0)\<rparr>"

lemma after_failure_sel [simp]:
  "attempt (after_failure out L) = attempt L"
  "attempts_made (after_failure out L) = attempt L"
  "becoming_ready (after_failure out L) = becoming_ready L"
  "becoming_ready_since (after_failure out L) = becoming_ready_since L"
  "c_data (after_failure out L) = buf out" "c_actual (after_failure out L) = actual_len out"
  "cbw_never_sent (after_failure out L) =
     cbw_never_sent L + (if rc out = BOT_FAIL_NOT_SENT then 1 else 0)"
  by (simp_all add: after_failure_def)

lemma cdb_attempt_cases:
  assumes run: "cdb_attempt send h cdb n len inward idempotent L d = (res, L', d')"
  obtains (cancelled) "laser_is_cancelled h d = (True, d')"
      and "res = Some LASER_ERR_CANCELLED" and "L' = L\<lparr>attempts_made := attempt L\<rparr>"
  | (ok) d1 t d2 out d3 where "laser_is_cancelled h d = (False, d1)" and "do_clock h d1 = (t, d2)"
      and "send cdb n (c_data L) len inward (c_actual L) (Some (-1)) d2 = (out, d3)"
      and "rc out = BOT_OK" and "res = Some LASER_OK"
      and "L' = L\<lparr>attempts_made := attempt L, c_data := buf out, c_actual := actual_len out\<rparr>"
      and "d' = snd (sample_throughput_locked h len t d3)"
  | (gone) d1 t d2 out d3 where "laser_is_cancelled h d = (False, d1)" and "do_clock h d1 = (t, d2)"
      and "send cdb n (c_data L) len inward (c_actual L) (Some (-1)) d2 = (out, d3)"
      and "rc out = BOT_FAIL_NO_DEVICE" and "res = Some LASER_ERR_NO_DEVICE"
      and "L' = after_failure out L"
      and "d' = upd_ent (\<lambda>e. e\<lparr>device_gone := True\<rparr>) d3"
  | (failed) d1 t d2 out d3 sn d4 where "laser_is_cancelled h d = (False, d1)"
      and "do_clock h d1 = (t, d2)"
      and "send cdb n (c_data L) len inward (c_actual L) (Some (-1)) d2 = (out, d3)"
      and "rc out \<noteq> BOT_OK" and "rc out \<noteq> BOT_FAIL_NO_DEVICE"
      and "cdb_sense send out d3 = (sn, d4)"
      and "cdb_failed h idempotent (rc out) sn (after_failure out L) d4 = (res, L', d')"
proof -
  obtain c d1 where c: "laser_is_cancelled h d = (c, d1)" by fastforce
  obtain t d2 where t: "do_clock h d1 = (t, d2)" by fastforce
  obtain out d3 where out: "send cdb n (c_data L) len inward (c_actual L) (Some (-1)) d2 = (out, d3)"
    by fastforce
  obtain sn d4 where sn: "cdb_sense send out d3 = (sn, d4)" by fastforce
  show thesis
  proof (cases c)
    case True
    with run c show thesis by (intro cancelled) (auto simp: cdb_attempt_def cdb_transact_def Let_def)
  next
    case False
    then have c: "laser_is_cancelled h d = (False, d1)" using c by simp
    consider "rc out = BOT_OK" | "rc out = BOT_FAIL_NO_DEVICE"
      | "rc out \<noteq> BOT_OK" "rc out \<noteq> BOT_FAIL_NO_DEVICE" by blast
    then show thesis
    proof cases
      case 1
      with run c t out show thesis by (intro ok) (auto simp: cdb_attempt_def cdb_transact_def Let_def)
    next
      case 2
      with run c t out show thesis
        by (intro gone) (auto simp: cdb_attempt_def cdb_transact_def Let_def after_failure_def)
    next
      case 3
      with run c t out sn have "cdb_failed h idempotent (rc out) sn (after_failure out L) d4 =
          (res, L', d')"
        by (simp add: cdb_attempt_def cdb_transact_def Let_def after_failure_def split: if_splits)
      with 3 c t out sn show thesis by (intro failed)
    qed
  qed
qed

section \<open>The loop's invariant rule\<close>

lemma cdb_loop_invariant:
  assumes loop: "cdb_loop send h cdb n len inward idempotent L d = Some (st, L', d')"
    and init: "I L d"
    and step: "\<And>L d L' d'. I L d \<Longrightarrow> attempt L \<le> LASER_MAX_RETRIES \<Longrightarrow>
      cdb_attempt send h cdb n len inward idempotent L d = (None, L', d') \<Longrightarrow>
      I (L'\<lparr>attempt := attempt L' + 1\<rparr>) d'"
    and exhausted: "\<And>L d. I L d \<Longrightarrow> LASER_MAX_RETRIES < attempt L \<Longrightarrow> Q LASER_ERR_IO L d"
    and stop: "\<And>L d st L' d'. I L d \<Longrightarrow> attempt L \<le> LASER_MAX_RETRIES \<Longrightarrow>
      cdb_attempt send h cdb n len inward idempotent L d = (Some st, L', d') \<Longrightarrow> Q st L' d'"
  shows "Q st L' d'"
proof -
  let ?P = "\<lambda>s h' c n' l i idem L d r.
    s = send \<and> h' = h \<and> c = cdb \<and> n' = n \<and> l = len \<and> i = inward \<and> idem = idempotent \<longrightarrow>
      I L d \<longrightarrow> Q (fst r) (fst (snd r)) (snd (snd r))"
  have "?P send h cdb n len inward idempotent L d (st, L', d')"
  proof (rule cdb_loop.raw_induct [OF _ loop, where P = ?P])
    fix rec s h' c n' l i idem L d r
    assume 1: "\<And>s h' c n' l i idem L d r. rec s h' c n' l i idem L d = Some r \<Longrightarrow>
        ?P s h' c n' l i idem L d r"
      "(if LASER_MAX_RETRIES < attempt L then Some (LASER_ERR_IO, L, d)
        else case cdb_attempt s h' c n' l i idem L d of
            (None, L', d') \<Rightarrow> rec s h' c n' l i idem (L'\<lparr>attempt := attempt L' + 1\<rparr>) d'
          | (Some st, L', d') \<Rightarrow> Some (st, L', d')) = Some r"
    show "?P s h' c n' l i idem L d r"
    proof (intro impI)
      assume eq: "s = send \<and> h' = h \<and> c = cdb \<and> n' = n \<and> l = len \<and> i = inward \<and> idem = idempotent"
        and inv: "I L d"
      obtain res L1 d1 where a: "cdb_attempt send h cdb n len inward idempotent L d = (res, L1, d1)"
        by (metis prod_cases3)
      show "Q (fst r) (fst (snd r)) (snd (snd r))"
      proof (cases "LASER_MAX_RETRIES < attempt L")
        case True
        with 1(2) eq exhausted [OF inv] show ?thesis by auto
      next
        case False
        show ?thesis
        proof (cases res)
          case None
          with 1(2) eq a False
          have "rec send h cdb n len inward idempotent (L1\<lparr>attempt := attempt L1 + 1\<rparr>) d1 = Some r"
            by simp
          from 1(1) [OF this] eq step [OF inv _ a [unfolded None]] False show ?thesis by simp
        next
          case (Some st')
          with 1(2) eq a False have "r = (st', L1, d1)" by simp
          with stop [OF inv _ a [unfolded Some]] False show ?thesis by simp
        qed
      qed
    qed
  qed
  with init show ?thesis by simp
qed


section \<open>Small facts about the pieces\<close>

lemma is_cancelled_rely: "entry_rely (ent d) (ent (snd (laser_is_cancelled h d)))"
  by (simp add: laser_is_cancelled_def case_prod_unfold Let_def entry_rely_def
      laser_set_cancelled_def)

lemma is_cancelled_same:
  "device_gone (ent (snd (laser_is_cancelled h d))) = device_gone (ent d)"
  "not_ready (ent (snd (laser_is_cancelled h d))) = not_ready (ent d)"
  "css_open (ent (snd (laser_is_cancelled h d))) = css_open (ent d)"
  "cancelled (ent (snd (laser_is_cancelled h d))) = fst (laser_is_cancelled h d)"
  by (simp_all add: laser_is_cancelled_def case_prod_unfold Let_def laser_set_cancelled_def)

lemma cdb_delay_frame [frame_simps]: "ent (cdb_delay h sn L d) = ent d"
  by (simp add: cdb_delay_def frame_simps)

lemma cdb_wait_ready_frame [frame_simps]: "ent (snd (cdb_wait_ready h sn L d)) = ent d"
  by (simp add: cdb_wait_ready_def case_prod_unfold frame_simps)

lemma times_taken_sleep [simp]: "\<not> took c (Ev_Sleep us)"
  by simp

lemma cdb_delay_trace: "\<exists>evs. trace (cdb_delay h sn L d) = trace d @ evs \<and> commands_taken evs = 0"
  by (simp add: cdb_delay_def do_usleep_def)

lemma cdb_wait_ready_trace:
  "\<exists>evs. trace (snd (cdb_wait_ready h sn L d)) = trace d @ evs \<and> commands_taken evs = 0"
  by (simp add: cdb_wait_ready_def cdb_delay_def do_usleep_def case_prod_unfold frame_simps)

lemma cdb_failed_rely:
  assumes "cdb_failed h idempotent r sn L d = (res, L', d')"
  shows "entry_rely (ent d) (ent d')"
  using assms
proof (cases rule: cdb_failed_cases)
  case wait
  then show ?thesis using cdb_wait_ready_frame [of h sn L d] by simp
qed (simp_all add: entry_rely_def frame_simps)

lemma cdb_failed_trace:
  assumes "cdb_failed h idempotent r sn L d = (res, L', d')"
  shows "\<exists>evs. trace d' = trace d @ evs \<and> commands_taken evs = 0"
  using assms
proof (cases rule: cdb_failed_cases)
  case wait
  then show ?thesis using cdb_wait_ready_trace [of h sn L d] by simp
qed (simp_all add: cdb_delay_trace)

text \<open>The statuses a decision can end the loop with.\<close>

lemma cdb_decide_status:
  "cdb_decide idempotent spun_up r sn = Give_Up st \<Longrightarrow>
     st \<in> {LASER_ERR_MEDIA_GONE, LASER_ERR_SCRAMBLED, LASER_ERR_NO_KEY, LASER_ERR_REGION,
       LASER_ERR_REFUSED, LASER_ERR_IO}"
  by (auto simp: cdb_decide_def copy_protection_status_def split: if_splits)

text \<open>A command that must not be replayed is only ever retried if its wrapper never left.\<close>

lemma cdb_decide_key_command:
  "cdb_decide False False r sn \<in> {Wait_Ready, Retry} \<Longrightarrow> r = BOT_FAIL_NOT_SENT"
  "cdb_decide False False r sn \<noteq> Now_Ready"
  by (auto simp: cdb_decide_def split: if_splits)

context bot_transport
begin

lemma cdb_sense_frame: "entry_frame (ent d) (ent (snd (cdb_sense send out d)))"
  by (simp add: cdb_sense_def case_prod_unfold request_sense_frame)

lemma cdb_sense_world:
  "host_rel h R \<Longrightarrow> R w (world d) \<Longrightarrow> R w (world (snd (cdb_sense send out d)))"
  by (simp add: cdb_sense_def case_prod_unfold request_sense_world)

lemma cdb_sense_taken:
  assumes "pad16 c \<noteq> pad16 request_sense_cdb"
  shows "\<exists>evs. trace (snd (cdb_sense send out d)) = trace d @ evs \<and> times_taken c evs = 0"
  using request_sense_taken [OF assms, of no_sense d] by (simp add: cdb_sense_def case_prod_unfold)

lemma transact_rely:
  assumes run: "cdb_transact send h cdb n len inward idempotent L d = (res, L', d')"
  shows "entry_rely (ent d) (ent d')"
proof -
  obtain t d2 where t: "do_clock h d = (t, d2)" by fastforce
  obtain out d3 where out: "send cdb n (c_data L) len inward (c_actual L) (Some (-1)) d2 = (out, d3)"
    by fastforce
  obtain sn d4 where sn: "cdb_sense send out d3 = (sn, d4)" by fastforce
  have "entry_rely (ent d) (ent d2)" using t do_clock_frame(1) [of h d] by simp
  also have "entry_rely (ent d2) (ent d3)" using out send_rely [of d2] by (metis snd_conv)
  also have "entry_rely (ent d3) (ent d')"
  proof -
    have "entry_rely (ent d3) (ent d4)"
      using sn entry_frame_rely [OF cdb_sense_frame] by (metis snd_conv)
    then show ?thesis
      using run t out sn sample_throughput_rely [of d3 h len t]
      by (auto simp: cdb_transact_def Let_def entry_rely_def [of _ "_\<lparr>device_gone := True\<rparr>"] split: if_splits
          intro: entry_rely_trans [OF _ cdb_failed_rely])
  qed
  finally show ?thesis .
qed

lemma attempt_rely:
  assumes "cdb_attempt send h cdb n len inward idempotent L d = (res, L', d')"
  shows "entry_rely (ent d) (ent d')"
  using assms is_cancelled_rely [of d h]
  by (auto simp: cdb_attempt_def Let_def split: prod.splits if_splits
      intro: entry_rely_trans [OF _ transact_rely])

lemma loop_rely:
  assumes "cdb_loop send h cdb n len inward idempotent L d = Some (st, L', d')"
  shows "entry_rely (ent d) (ent d')"
  using assms
proof (rule cdb_loop_invariant [where I = "\<lambda>_ x. entry_rely (ent d) (ent x)"])
  show "entry_rely (ent d) (ent d)" by simp
qed (auto intro: entry_rely_trans attempt_rely)

lemma finish_rely: "entry_rely (ent d) (ent (snd (cdb_finish result L d)))"
  by (simp add: cdb_finish_def entry_rely_def)

lemma entry_call_cases:
  assumes run: "scsi_cdb_entry send h cdb n data len inward act d = Some (o', d')"
  obtains (no_session) "laser_cdb_changes_css_state cdb n" and "\<not> css_open (ent d)"
      and "o' = \<lparr>status = LASER_ERR_INVALID, o_data = data, o_actual = act\<rparr>" and "d' = d"
  | (cancelled) "laser_cdb_changes_css_state cdb n \<longrightarrow> css_open (ent d)"
      and "laser_is_cancelled h d = (True, d')"
      and "o' = \<lparr>status = LASER_ERR_CANCELLED, o_data = data, o_actual = act\<rparr>"
  | (gone) "laser_cdb_changes_css_state cdb n \<longrightarrow> css_open (ent d)"
      and "laser_is_cancelled h d = (False, d')" and "device_gone (ent d)"
      and "o' = \<lparr>status = LASER_ERR_NO_DEVICE, o_data = data, o_actual = act\<rparr>"
  | (ran) d1 result L d2 where "laser_cdb_changes_css_state cdb n \<longrightarrow> css_open (ent d)"
      and "laser_is_cancelled h d = (False, d1)" and "\<not> device_gone (ent d)"
      and "cdb_loop send h cdb n len inward
             (\<not> laser_cdb_changes_css_state cdb n \<and> (inward \<or> len = 0)) (cdb_start data act)
             (lock_io h d1) = Some (result, L, d2)"
      and "o' = \<lparr>status = fst (cdb_finish result L d2), o_data = c_data L, o_actual = c_actual L\<rparr>"
      and "d' = snd (cdb_finish result L d2)"
proof -
  obtain c d1 where c: "laser_is_cancelled h d = (c, d1)" by fastforce
  have g: "device_gone (ent d1) = device_gone (ent d)"
    using is_cancelled_same(1) [of h d] c by simp
  show thesis
  proof (cases "laser_cdb_changes_css_state cdb n \<and> \<not> css_open (ent d)")
    case True
    with run show thesis
      by (intro no_session) (auto simp: scsi_cdb_entry_def cdb_checks_def cdb_idempotent_def laser_css_session_is_open_def Let_def)
  next
    case session: False
    consider "c" | "\<not> c" "device_gone (ent d)" | "\<not> c" "\<not> device_gone (ent d)" by blast
    then show thesis
    proof cases
      case 1
      with run session c show thesis
        by (intro cancelled) (auto simp: scsi_cdb_entry_def cdb_checks_def cdb_idempotent_def laser_css_session_is_open_def Let_def)
    next
      case 2
      with run session c g show thesis
        by (intro gone) (auto simp: scsi_cdb_entry_def cdb_checks_def cdb_idempotent_def laser_css_session_is_open_def Let_def)
    next
      case 3
      with run session c g obtain result L d2 where loop: "cdb_loop send h cdb n len inward
          (\<not> laser_cdb_changes_css_state cdb n \<and> (inward \<or> len = 0)) (cdb_start data act)
          (lock_io h d1) = Some (result, L, d2)"
        by (auto simp: scsi_cdb_entry_def cdb_checks_def cdb_idempotent_def laser_css_session_is_open_def Let_def
            split: option.splits)
      with run session 3 c g show thesis
        by (intro ran [of d1 result L d2])
          (auto simp: scsi_cdb_entry_def cdb_checks_def cdb_idempotent_def laser_css_session_is_open_def Let_def case_prod_unfold)
    qed
  qed
qed

lemma entry_call_rely:
  assumes "threads_rely h"
    and "scsi_cdb_entry send h cdb n data len inward act d = Some (o', d')"
  shows "entry_rely (ent d) (ent d')"
  using assms(2)
proof (cases rule: entry_call_cases)
  case (ran d1 result L d2)
  have "entry_rely (ent d) (ent d1)" using ran(2) is_cancelled_rely [of d h] by simp
  also have "entry_rely (ent d1) (ent (lock_io h d1))"
    using assms(1) by (simp add: threads_rely_def lock_io_def case_prod_unfold)
  also have "entry_rely (ent (lock_io h d1)) (ent d2)" using ran(4) by (rule loop_rely)
  also have "entry_rely (ent d2) (ent d')" using ran(6) finish_rely by simp
  finally show ?thesis .
qed (use is_cancelled_rely [of d h] in auto)

end

end
