(* ===== verification/Command_Laws.thy ===== *)
theory Command_Laws
  imports Command_Facts
begin

text \<open>
  The command primitive's promises, still against the transport's contract: a key command is
  handed over again only after a failed transfer and a reset, success is the success of the
  last transaction, and a device found gone stays gone.
\<close>

lemma pad16_inj: "length a = length b \<Longrightarrow> pad16 a = pad16 b \<Longrightarrow> a = b"
  by (metis pad16_def take_write_prefix)

lemma pad16_head: "a \<noteq> [] \<Longrightarrow> pad16 a ! 0 = a ! 0"
  by (cases a) (simp_all add: pad16_def write_prefix_def)

lemma key_command_not_sense:
  assumes "laser_cdb_changes_css_state cdb n" and "nat n \<le> length cdb"
  shows "pad16 (take (nat n) cdb) \<noteq> pad16 request_sense_cdb"
proof -
  have n: "12 \<le> n" using assms(1) by (rule key_command_length)
  with assms(2) have "take (nat n) cdb \<noteq> []" by (cases cdb) auto
  then have "pad16 (take (nat n) cdb) ! 0 = cdb ! 0"
    using n by (simp add: pad16_head)
  moreover have "pad16 request_sense_cdb ! 0 = 0x03"
    by (simp add: pad16_head request_sense_cdb_def)
  ultimately show ?thesis using key_command_opcode [OF assms(1)] by auto
qed

lemma taken_none:
  "\<exists>evs. trace d' = trace d @ evs \<and> commands_taken evs = 0 \<Longrightarrow>
     \<exists>evs. trace d' = trace d @ evs \<and> times_taken c evs = 0"
  by (auto intro: times_taken_none)

lemma times_taken_in: "times_taken c evs = 0 \<Longrightarrow> ev \<in> set evs \<Longrightarrow> \<not> took c ev"
  by (induction evs) (auto split: if_splits)

lemma is_cancelled_clock_trace:
  assumes "laser_is_cancelled h d = (c, d1)" and "do_clock h d1 = (t, d2)"
  shows "trace d2 = trace d" and "ent d2 = ent d1"
  using assms laser_is_cancelled_frame [of h d] do_clock_frame [of h d1] by simp_all

lemma rely_lost:
  "entry_rely e e' \<Longrightarrow> lost_and_reset c e' evs \<longleftrightarrow> lost_and_reset c e evs"
  by (rule failed_and_reset_entry) (simp_all add: entry_rely_def)

text \<open>A wrapper of a command that moved whole in a transfer that failed.\<close>

definition lost :: "byte list \<Rightarrow> event \<Rightarrow> bool" where
  "lost c ev \<longleftrightarrow> took c ev \<and> transfer_failed ev"

text \<open>At most one wrapper of the command was handed over and not lost: the last.\<close>

definition delivered_once :: "byte list \<Rightarrow> laser_entry \<Rightarrow> event list \<Rightarrow> bool" where
  "delivered_once c e evs \<longleftrightarrow>
     (\<exists>pre post. evs = pre @ post \<and> lost_and_reset c e pre \<and> times_taken c post \<le> 1)"

lemma delivered_onceI:
  "lost_and_reset c e pre \<Longrightarrow> times_taken c post \<le> 1 \<Longrightarrow> delivered_once c e (pre @ post)"
  unfolding delivered_once_def by blast

context bot_transport
begin

lemma sense_of_unsent:
  assumes "send cdb n data len inward act (Some (-1)) d = (out, d1)"
    and "rc out = BOT_FAIL_NOT_SENT"
  shows "cdb_sense send out d1 = (no_sense, d1)"
  using send_check [of cdb n data len inward act "-1" d] assms
  by (auto simp: cdb_sense_def)

text \<open>
  One attempt of a command that must not be replayed, on a drive with no spin-up in progress:
  the drive takes it at most once, and if the loop goes on any wrapper that went out whole was
  lost in a failed transfer and the drive reset after it.
\<close>

lemma key_attempt:
  assumes run: "cdb_attempt send h cdb n len inward False L d = (res, L', d')"
    and fresh: "\<not> becoming_ready L" "\<not> not_ready (ent d)"
    and other: "pad16 (take (nat n) cdb) \<noteq> pad16 request_sense_cdb"
  shows "\<exists>evs. trace d' = trace d @ evs \<and> times_taken (take (nat n) cdb) evs \<le> 1 \<and>
    (res = None \<longrightarrow> lost_and_reset (take (nat n) cdb) (ent d) evs \<and> \<not> becoming_ready L' \<and>
       \<not> not_ready (ent d'))"
proof -
  let ?c = "take (nat n) cdb"
  from run show ?thesis
  proof (cases rule: cdb_attempt_cases)
    case cancelled
    then show ?thesis using laser_is_cancelled_frame [of h d] by simp
  next
    case (ok d1 t d2 out d3)
    obtain evs where "trace d3 = trace d2 @ evs" "times_taken ?c evs \<le> 1"
      by (rule send_taken [OF ok(3), of ?c]) blast
    with ok is_cancelled_clock_trace [OF ok(1,2)] show ?thesis
      by (simp add: sample_throughput_frame)
  next
    case (gone d1 t d2 out d3)
    obtain evs where "trace d3 = trace d2 @ evs" "times_taken ?c evs \<le> 1"
      by (rule send_taken [OF gone(3), of ?c]) blast
    with gone is_cancelled_clock_trace [OF gone(1,2)] show ?thesis by simp
  next
    case (failed d1 t d2 out d3 sn d4)
    obtain evs where evs: "trace d3 = trace d2 @ evs" "times_taken ?c evs \<le> 1"
      "rc out = BOT_FAIL_NOT_SENT \<Longrightarrow> lost_and_reset ?c (ent d2) evs"
      by (rule send_taken [OF failed(3), of ?c]) blast
    have from_d: "entry_rely (ent d) (ent d2)"
      using is_cancelled_rely [of d h] is_cancelled_clock_trace(2) [OF failed(1,2)] failed(1) by simp
    obtain evs2 where evs2: "trace d4 = trace d3 @ evs2" "times_taken ?c evs2 = 0"
      using cdb_sense_taken [OF other, of out d3] failed(6) by auto
    obtain evs3 where evs3: "trace d' = trace d4 @ evs3" "times_taken ?c evs3 = 0"
      using taken_none [OF cdb_failed_trace [OF failed(7)]] by blast
    have same: "not_ready (ent d4) = not_ready (ent d)"
      using failed(3,6) is_cancelled_clock_trace(2) [OF failed(1,2)] is_cancelled_same(2) [of h d]
        failed(1) entry_frameD(14) [OF send_frame] entry_frameD(14) [OF cdb_sense_frame]
      by (metis snd_conv)
    have "rc out = BOT_FAIL_NOT_SENT \<and> \<not> becoming_ready L' \<and> \<not> not_ready (ent d')"
      if goes_on: "res = None"
    proof -
      from failed(7) goes_on fresh same
      have r: "rc out = BOT_FAIL_NOT_SENT"
        by (cases rule: cdb_failed_cases) (auto simp: cdb_decide_def split: if_splits)
      then have "sn = no_sense" using sense_of_unsent [OF failed(3)] failed(6) by simp
      with r have "cdb_decide False False (rc out) sn = Retry"
        by (simp add: cdb_decide_def no_sense_def)
      with failed(7) fresh same r show ?thesis
        by (auto elim!: cdb_failed_cases simp: frame_simps)
    qed
    moreover have "lost_and_reset ?c (ent d) (evs @ evs2 @ evs3)" if "rc out = BOT_FAIL_NOT_SENT"
      using evs(3) [OF that] lost_none [OF evs2(2)] lost_none [OF evs3(2)]
      by (intro failed_and_reset_append) (simp_all add: rely_lost [OF from_d])
    ultimately show ?thesis
      using evs(1,2) evs2 evs3 is_cancelled_clock_trace(1) [OF failed(1,2)]
      by (intro exI [of _ "evs @ evs2 @ evs3"]) simp
  qed
qed

text \<open>
  Whatever the command: an attempt that lost a whole wrapper of it is followed by another.
  Such a wrapper can only be in the attempt's first transaction, the other being REQUEST SENSE.
\<close>

lemma attempt_grows:
  assumes run: "cdb_attempt send h cdb n len inward idempotent L d = (res, L', d')"
    and other: "pad16 (take (nat n) cdb) \<noteq> pad16 request_sense_cdb"
  shows "\<exists>evs. trace d' = trace d @ evs \<and>
    (\<forall>ev \<in> set evs. lost (take (nat n) cdb) ev \<longrightarrow> res = None \<and> attempt L' = attempt L) \<and>
    (res = None \<longrightarrow> attempt L' \<le> attempt L)"
proof -
  let ?c = "take (nat n) cdb"
  from run show ?thesis
  proof (cases rule: cdb_attempt_cases)
    case cancelled
    then show ?thesis using laser_is_cancelled_frame [of h d] by simp
  next
    case (ok d1 t d2 out d3)
    obtain evs where "trace d3 = trace d2 @ evs" "\<not> wrapper_lost evs"
      by (rule send_taken [OF ok(3), of ?c]) (use ok(4) in auto)
    with ok is_cancelled_clock_trace [OF ok(1,2)] show ?thesis
      by (auto simp: sample_throughput_frame wrapper_lost_def lost_def took_def)
  next
    case (gone d1 t d2 out d3)
    obtain evs where "trace d3 = trace d2 @ evs" "\<not> wrapper_lost evs"
      by (rule send_taken [OF gone(3), of ?c]) (use gone(4) in auto)
    with gone is_cancelled_clock_trace [OF gone(1,2)] show ?thesis
      by (auto simp: wrapper_lost_def lost_def took_def)
  next
    case (failed d1 t d2 out d3 sn d4)
    obtain evs where evs: "trace d3 = trace d2 @ evs" "wrapper_lost evs \<Longrightarrow> rc out = BOT_FAIL_NOT_SENT"
      by (rule send_taken [OF failed(3), of ?c]) blast
    obtain evs2 where evs2: "trace d4 = trace d3 @ evs2" "times_taken ?c evs2 = 0"
      using cdb_sense_taken [OF other, of out d3] failed(6) by auto
    obtain evs3 where evs3: "trace d' = trace d4 @ evs3" "times_taken ?c evs3 = 0"
      using taken_none [OF cdb_failed_trace [OF failed(7)]] by blast
    have "res = None \<and> attempt L' = attempt L" if "wrapper_lost evs"
    proof -
      have r: "rc out = BOT_FAIL_NOT_SENT" using that by (rule evs(2))
      then have sn: "sn = no_sense" using sense_of_unsent [OF failed(3)] failed(6) by simp
      show ?thesis
        using failed(7) r sn
        by (cases rule: cdb_failed_cases)
          (auto simp: cdb_decide_def no_sense_def after_failure_def)
    qed
    moreover have "attempt L' \<le> attempt L" if "res = None"
      using failed(7) that
      by (cases rule: cdb_failed_cases)
        (auto simp: after_failure_def cdb_wait_ready_def case_prod_unfold split: if_splits)
    moreover have "wrapper_lost evs" if "ev \<in> set (evs @ evs2 @ evs3)" "lost ?c ev" for ev
      using that times_taken_in [OF evs2(2)] times_taken_in [OF evs3(2)]
      by (auto simp: wrapper_lost_def lost_def took_def)
    ultimately show ?thesis
      using evs(1) evs2(1) evs3(1) is_cancelled_clock_trace(1) [OF failed(1,2)]
      by (intro exI [of _ "evs @ evs2 @ evs3"]) auto
  qed
qed

lemma key_loop:
  assumes loop: "cdb_loop send h cdb n len inward False L d = Some (st, L', d')"
    and fresh: "\<not> becoming_ready L" "\<not> not_ready (ent d)"
    and other: "pad16 (take (nat n) cdb) \<noteq> pad16 request_sense_cdb"
  shows "\<exists>evs. trace d' = trace d @ evs \<and> delivered_once (take (nat n) cdb) (ent d) evs"
proof -
  let ?c = "take (nat n) cdb"
  let ?I = "\<lambda>L x. \<not> becoming_ready L \<and> \<not> not_ready (ent x) \<and> entry_rely (ent d) (ent x) \<and>
    (\<exists>evs. trace x = trace d @ evs \<and> lost_and_reset ?c (ent d) evs)"
  from loop show ?thesis
  proof (rule cdb_loop_invariant [where I = ?I])
    show "?I L d" using fresh by (auto intro: exI [of _ "[]"])
  next
    fix L x L' x'
    assume I: "?I L x" and a: "cdb_attempt send h cdb n len inward False L x = (None, L', x')"
    from I obtain pre where pre: "trace x = trace d @ pre" "lost_and_reset ?c (ent d) pre" by blast
    from key_attempt [OF a _ _ other] I obtain evs where evs: "trace x' = trace x @ evs"
      "lost_and_reset ?c (ent x) evs" "\<not> becoming_ready L'" "\<not> not_ready (ent x')" by blast
    have "entry_rely (ent d) (ent x')"
      using I attempt_rely [OF a] entry_rely_trans by blast
    moreover have "lost_and_reset ?c (ent d) (pre @ evs)"
      using I evs(2) pre(2) rely_lost by (blast intro: failed_and_reset_append)
    ultimately show "?I (L'\<lparr>attempt := attempt L' + 1\<rparr>) x'"
      using pre(1) evs(1,3,4) by simp
  next
    fix L x st L' x'
    assume I: "?I L x" and a: "cdb_attempt send h cdb n len inward False L x = (Some st, L', x')"
    from I obtain pre where pre: "trace x = trace d @ pre" "lost_and_reset ?c (ent d) pre" by blast
    from key_attempt [OF a _ _ other] I obtain evs where "trace x' = trace x @ evs"
      "times_taken ?c evs \<le> 1" by blast
    with pre show "\<exists>evs. trace x' = trace d @ evs \<and> delivered_once ?c (ent d) evs"
      using delivered_onceI by (intro exI [of _ "pre @ evs"]) simp
  next
    fix L x assume "?I L x"
    then obtain evs where "trace x = trace d @ evs" "lost_and_reset ?c (ent d) evs" by blast
    then show "\<exists>evs. trace x = trace d @ evs \<and> delivered_once ?c (ent d) evs"
      using delivered_onceI [of ?c "ent d" evs "[]"] by simp
  qed
qed

text \<open>Success is the success of the last transaction, and what it returned is handed over.\<close>

definition ended_in_success :: "byte list \<Rightarrow> int \<Rightarrow> int \<Rightarrow> bool \<Rightarrow> laser_entry \<Rightarrow> cdb_locals \<Rightarrow>
    'w dev \<Rightarrow> bool" where
  "ended_in_success cdb n len inward e L' d' \<longleftrightarrow>
     (\<exists>data' act' d2 out d3. send cdb n data' len inward act' (Some (-1)) d2 = (out, d3) \<and>
        rc out = BOT_OK \<and> c_data L' = buf out \<and> c_actual L' = actual_len out \<and>
        trace d' = trace d3 \<and> entry_rely e (ent d2))"

lemma loop_ok:
  assumes loop: "cdb_loop send h cdb n len inward idempotent L d = Some (LASER_OK, L', d')"
  shows "ended_in_success cdb n len inward (ent d) L' d'"
proof -
  have "LASER_OK = LASER_OK \<longrightarrow> ended_in_success cdb n len inward (ent d) L' d'"
    using loop
  proof (rule cdb_loop_invariant [where I = "\<lambda>_ x. entry_rely (ent d) (ent x)" and
        Q = "\<lambda>st L' d'. st = LASER_OK \<longrightarrow> ended_in_success cdb n len inward (ent d) L' d'"])
    fix L x st L' x'
    assume rely: "entry_rely (ent d) (ent x)"
      and a: "cdb_attempt send h cdb n len inward idempotent L x = (Some st, L', x')"
    show "st = LASER_OK \<longrightarrow> ended_in_success cdb n len inward (ent d) L' x'"
    proof
      assume "st = LASER_OK"
      with a show "ended_in_success cdb n len inward (ent d) L' x'"
      proof (cases rule: cdb_attempt_cases)
        case (ok d1 t d2 out d3)
        have "entry_rely (ent x) (ent d2)"
          using is_cancelled_rely [of x h] ok(1) is_cancelled_clock_trace(2) [OF ok(1,2)] by simp
        with ok rely show ?thesis
          unfolding ended_in_success_def
          by (intro exI [of _ "c_data L"] exI [of _ "c_actual L"] exI [of _ d2] exI [of _ out]
              exI [of _ d3]) (auto simp: sample_throughput_frame intro: entry_rely_trans)
      next
        case (failed d1 t d2 out d3 sn d4)
        from failed(7) \<open>st = LASER_OK\<close> show ?thesis
          by (cases rule: cdb_failed_cases) (auto dest: cdb_decide_status)
      qed simp_all
    qed
  qed (auto intro: entry_rely_trans attempt_rely)
  then show ?thesis by simp
qed

text \<open>Why a loop ended as it did: the flag behind it, or the sense data read last.\<close>

definition ended_on_sense :: "laser_status \<Rightarrow> 'w dev \<Rightarrow> bool" where
  "ended_on_sense st d' \<longleftrightarrow>
     (\<exists>d3 r sn d4 idempotent spun_up br. request_sense_locked send no_sense d3 = ((r, sn), d4) \<and>
        trace d' = trace d4 \<and> sn \<noteq> no_sense \<and>
        cdb_decide idempotent spun_up br sn = Give_Up st)"

definition explained :: "laser_status \<Rightarrow> 'w dev \<Rightarrow> bool" where
  "explained st d' \<longleftrightarrow>
     (case st of
        LASER_OK \<Rightarrow> True
      | LASER_ERR_IO \<Rightarrow> True
      | LASER_ERR_CANCELLED \<Rightarrow> cancelled (ent d')
      | LASER_ERR_NO_DEVICE \<Rightarrow> device_gone (ent d')
      | LASER_ERR_MEDIA_GONE \<Rightarrow> ended_on_sense st d'
      | LASER_ERR_REFUSED \<Rightarrow> ended_on_sense st d'
      | LASER_ERR_SCRAMBLED \<Rightarrow> ended_on_sense st d'
      | LASER_ERR_NO_KEY \<Rightarrow> ended_on_sense st d'
      | LASER_ERR_REGION \<Rightarrow> ended_on_sense st d'
      | _ \<Rightarrow> False)"

lemma decide_no_sense: "cdb_decide idempotent spun_up br no_sense = Give_Up st \<Longrightarrow> st = LASER_ERR_IO"
  by (auto simp: cdb_decide_def no_sense_def split: if_splits)

lemma cdb_sense_source:
  assumes "cdb_sense send out d3 = (sn, d4)" and "sn \<noteq> no_sense"
  obtains r where "request_sense_locked send no_sense d3 = ((r, sn), d4)"
proof -
  obtain r sn' d' where rs: "request_sense_locked send no_sense d3 = ((r, sn'), d')"
    by (rule reply2_exhaust)
  with assms that show thesis by (auto simp: cdb_sense_def split: if_splits)
qed

lemma attempt_explained:
  assumes "cdb_attempt send h cdb n len inward idempotent L d = (Some st, L', d')"
  shows "explained st d'"
  using assms
proof (cases rule: cdb_attempt_cases)
  case cancelled
  then show ?thesis using is_cancelled_same(4) [of h d] by (simp add: explained_def)
next
  case (failed d1 t d2 out d3 sn d4)
  from failed(7) obtain spun_up
    where st: "cdb_decide idempotent spun_up (rc out) sn = Give_Up st" and d': "d' = d4"
    by (cases rule: cdb_failed_cases) auto
  show ?thesis
  proof (cases "sn = no_sense")
    case True
    then have "st = LASER_ERR_IO" using st by (intro decide_no_sense) simp
    then show ?thesis by (simp add: explained_def)
  next
    case False
    obtain r where "request_sense_locked send no_sense d3 = ((r, sn), d4)"
      using failed(6) False by (rule cdb_sense_source)
    with st d' False have "ended_on_sense st d'"
      unfolding ended_on_sense_def by blast
    with cdb_decide_status [OF st] show ?thesis by (auto simp: explained_def)
  qed
qed (simp_all add: explained_def)

lemma loop_explained:
  assumes "cdb_loop send h cdb n len inward idempotent L d = Some (st, L', d')"
  shows "explained st d'"
  using assms
proof (rule cdb_loop_invariant [where I = "\<lambda>_ _. True" and Q = "\<lambda>st _ d'. explained st d'"])
  show "explained LASER_ERR_IO x" for x :: "'w dev"
    by (simp add: explained_def)
qed (auto intro: attempt_explained)

lemma finish_status:
  assumes "explained result d2"
  shows "explained (fst (cdb_finish result L d2)) (snd (cdb_finish result L d2))"
  using assms
  by (cases result)
    (auto simp: cdb_finish_def cdb_never_left_def cdb_normalise_def explained_def
      ended_on_sense_def)

lemma finish_ok:
  assumes "fst (cdb_finish result L d2) = LASER_OK"
  shows "result = LASER_OK" and "snd (cdb_finish result L d2) = d2"
  using assms
  by (auto simp: cdb_finish_def cdb_never_left_def cdb_normalise_def split: if_splits)

lemma finish_trace: "trace (snd (cdb_finish result L d2)) = trace d2"
  by (simp add: cdb_finish_def)

lemma finish_never_invalid:
  "fst (cdb_finish result L d2) \<notin> {LASER_ERR_INVALID, LASER_ERR_NO_SUCH_TOKEN}"
  by (simp add: cdb_finish_def cdb_normalise_def)

end

end
