(* ===== verification/Sample_Runs.thy ===== *)
theory Sample_Runs
  imports Command_Laws Sample_Drive
begin

text \<open>
  Running the command primitive on the sample drive: a table with one registered drive, sense
  data in wire format, and equations without \<open>let\<close> so that evaluation by rewriting stays linear.
\<close>

lemmas let_free_code [code] =
  laser_is_cancelled_def [unfolded Let_def] laser_mass_storage_reset_def [unfolded Let_def]
  bot_cbw_phase_def [unfolded Let_def] bot_data_phase_def [unfolded Let_def]
  bot_residue_def [unfolded Let_def] bot_finish_def [unfolded Let_def]
  laser_bot_send_locked_def [unfolded Let_def] laser_cdb_changes_css_state_def [unfolded Let_def]
  request_sense_locked_def [unfolded Let_def] start_stop_unit_locked_def [unfolded Let_def]
  log_media_status_locked_def [unfolded Let_def] sample_update_def [unfolded Let_def]
  sample_throughput_locked_def [unfolded Let_def] cdb_attempt_def [unfolded Let_def]
  cdb_transact_def [unfolded Let_def]
  laser_scsi_cdb_def [unfolded Let_def]

definition sim_sys :: "laser_entry \<Rightarrow> answer list \<Rightarrow> sim sys" where
  "sim_sys e script = \<lparr>world = sim_world script, trace = [], g_entries = e # replicate 7 zero_entry\<rparr>"

definition sense_bytes :: "byte \<Rightarrow> byte \<Rightarrow> byte \<Rightarrow> byte list" where
  "sense_bytes k a q = [0x70, 0, k, 0, 0, 0, 0, 10, 0, 0, 0, 0, a, q, 0, 0, 0, 0]"

text \<open>A failed command with its sense data: CHECK CONDITION, then the answer to REQUEST SENSE.\<close>

definition check_condition :: "byte \<Rightarrow> byte \<Rightarrow> byte \<Rightarrow> answer list" where
  "check_condition k a q = [Answer [] 1, Answer (sense_bytes k a q) 0]"

text \<open>REPORT KEY for an AGID, the first step of the CSS handshake.\<close>

definition agid_cdb :: "byte list" where
  "agid_cdb = [0xA4, 0, 0, 0, 0, 0, 0, 0, 0, 8, 0x00, 0]"

definition read_10_cdb :: "byte list" where
  "read_10_cdb = [0x28, 0, 0, 0, 0, 16, 0, 0, 1, 0]"

definition run_agid :: "laser_entry \<Rightarrow> answer list \<Rightarrow> (cdb_out \<times> sim sys) option" where
  "run_agid e script =
     laser_scsi_cdb sim_host 42 (Some agid_cdb) 12 (Some (replicate 8 0)) 8 True (Some 0)
       (sim_sys e script)"

definition run_tur :: "laser_entry \<Rightarrow> answer list \<Rightarrow> (cdb_out \<times> sim sys) option" where
  "run_tur e script =
     laser_scsi_cdb sim_host 42 (Some test_unit_ready_cdb) 6 None 0 False None (sim_sys e script)"

end
