(* ===== verification/Command_Total.thy ===== *)
theory Command_Total
  imports Command_Laws
begin

text \<open>
  Termination of the command loop. The loop has no bound of its own: an attempt answered
  "becoming ready" and one answered "medium may have changed" are both given back. It ends
  because the clock moves on and because a drive reports only finitely many medium changes; the
  second is a hypothesis about the drive, without which the loop need not end.
\<close>

definition time_ns :: "timespec \<Rightarrow> int" where
  "time_ns t = tv_sec t * 1000000000 + tv_nsec t"

text \<open>
  A drive that reports 28h/00h only finitely often: a count that no call raises and that every
  such sense answer lowers.
\<close>

definition finitely_many_changes :: "'w transport \<Rightarrow> 'w host \<Rightarrow> ('w \<Rightarrow> nat) \<Rightarrow> bool" where
  "finitely_many_changes send h mc \<longleftrightarrow>
     host_rel h (\<lambda>w w'. mc w' \<le> mc w) \<and>
     (\<forall>sn d. let ((r, sn'), d') = request_sense_locked send sn d in
        r = 0 \<and> asc sn' = SCSI_ASC_MEDIUM_MAY_HAVE_CHANGED \<and> ascq sn' = 0x00 \<longrightarrow>
        mc (world d') < mc (world d))"

lemma clock_reading:
  assumes "clock_monotonic h now" and "do_clock h d = (t, d')"
  shows "now (world d) \<le> time_ns t" and "time_ns t \<le> now (world d')"
    and "0 \<le> tv_nsec t" and "tv_nsec t < 1000000000"
  using assms by (auto simp: clock_monotonic_def do_clock_def time_ns_def Let_def
      split: prod.splits dest!: spec [of _ "world d"])

lemma clock_rel: "clock_monotonic h now \<Longrightarrow> host_rel h (\<lambda>w w'. now w \<le> now w')"
  by (simp add: clock_monotonic_def)

lemma sleep_advances:
  "clock_monotonic h now \<Longrightarrow> now (world d) + int us * 1000 \<le> now (world (do_usleep h us d))"
  by (simp add: clock_monotonic_def do_usleep_def)

text \<open>The millisecond figure is within a millisecond of the time elapsed, either way.\<close>

lemma monotonic_ms_bounds:
  "time_ns now - time_ns start - 1000000 < monotonic_ms_since start now * 1000000 \<and>
   monotonic_ms_since start now * 1000000 < time_ns now - time_ns start + 1000000"
  using c_div_bounds [of 1000000 "tv_nsec now - tv_nsec start"]
  by (simp add: monotonic_ms_since_def time_ns_def algebra_simps)

lemma ms_since_elapsed:
  assumes "clock_monotonic h now" and "ms_since h start d = (ms, d')"
  shows "now (world d) - time_ns start < ms * 1000000 + 1000000"
    and "ms * 1000000 < now (world d') - time_ns start + 1000000"
proof -
  obtain t where t: "do_clock h d = (t, d')" "ms = monotonic_ms_since start t"
    using assms(2) by (auto simp: ms_since_def split: prod.splits)
  with clock_reading [OF assms(1) t(1)] monotonic_ms_bounds [where now = t and start = start]
  show "now (world d) - time_ns start < ms * 1000000 + 1000000"
    and "ms * 1000000 < now (world d') - time_ns start + 1000000"
    by linarith+
qed

section \<open>The measure\<close>

text \<open>The time left under the ceiling, as a natural number that a fresh wait is below.\<close>

definition wait_left :: "('w \<Rightarrow> int) \<Rightarrow> cdb_locals \<Rightarrow> 'w dev \<Rightarrow> nat" where
  "wait_left now L d =
     (if becoming_ready L then
        nat (time_ns (becoming_ready_since L) + 31000000000 - now (world d))
      else nat 31000000001)"

definition cdb_rank ::
  "('w \<Rightarrow> nat) \<Rightarrow> ('w \<Rightarrow> int) \<Rightarrow> cdb_locals \<Rightarrow> 'w dev \<Rightarrow> nat \<times> nat \<times> nat" where
  "cdb_rank mc now L d = (mc (world d), nat (7 - attempt L), wait_left now L d)"

abbreviation rank_less :: "((nat \<times> nat \<times> nat) \<times> (nat \<times> nat \<times> nat)) set" where
  "rank_less \<equiv> less_than <*lex*> less_than <*lex*> less_than"

lemma wf_rank_less: "wf rank_less"
  by (intro wf_lex_prod wf_less_than)

lemma rank_by_attempt:
  assumes "mc (world d') \<le> mc (world d)" and "attempt L' = attempt L"
    and "attempt L \<le> LASER_MAX_RETRIES"
  shows "(cdb_rank mc now (L'\<lparr>attempt := attempt L' + 1\<rparr>) d', cdb_rank mc now L d) \<in> rank_less"
  using assms by (auto simp: cdb_rank_def)

lemma wait_step:
  assumes clock: "clock_monotonic h now" and mc: "host_rel h (\<lambda>w w'. mc w' \<le> mc w)"
    and run: "cdb_wait_ready h sn L d = (L', d')" and "attempt L \<le> LASER_MAX_RETRIES"
  shows "(cdb_rank mc now (L'\<lparr>attempt := attempt L' + 1\<rparr>) d', cdb_rank mc now L d) \<in> rank_less"
proof -
  note later = clock_rel [OF clock]
  obtain L1 d1 where one: "(if \<not> becoming_ready L then
      (case do_clock h d of (t, d') \<Rightarrow> (L\<lparr>becoming_ready := True, becoming_ready_since := t\<rparr>, d'))
      else (L, d)) = (L1, d1)"
    by fastforce
  obtain ms d2 where two: "ms_since h (becoming_ready_since L1) d1 = (ms, d2)" by fastforce
  have br: "becoming_ready L1" "attempt L1 = attempt L"
    using one by (auto split: if_splits prod.splits)
  have to_d1: "mc (world d1) \<le> mc (world d)" "now (world d) \<le> now (world d1)"
    using one call_worlds(6) [OF mc, where d = d] call_worlds(6) [OF later, where d = d] by (auto split: if_splits prod.splits)
  have to_d2: "mc (world d2) \<le> mc (world d1)" "now (world d1) \<le> now (world d2)"
    using two call_worlds(7) [OF mc, where d = d1] call_worlds(7) [OF later, where d = d1] by (metis snd_conv)+
  have out: "(L', d') = (if ms < LASER_BECOMING_READY_MAX_WALL_MS then
      (L1\<lparr>attempt := attempt L1 - 1\<rparr>, do_usleep h (LASER_RETRY_DELAY_MS * 1000) d2)
      else (L1, cdb_delay h sn L1 d2))"
    unfolding run [symmetric] by (simp only: cdb_wait_ready_def one two prod.case)
  show ?thesis
  proof (cases "ms < LASER_BECOMING_READY_MAX_WALL_MS")
    case False
    have "mc (world (cdb_delay h sn L1 d2)) \<le> mc (world d2)"
      using call_worlds(5) [OF mc] by (simp add: cdb_delay_def)
    with False out br to_d1 to_d2 assms(4) show ?thesis
      by (intro rank_by_attempt) auto
  next
    case True
    let ?d' = "do_usleep h (LASER_RETRY_DELAY_MS * 1000) d2"
    have mc': "mc (world ?d') \<le> mc (world d)"
      using call_worlds(5) [OF mc, where d = d2] to_d1 to_d2 by (meson le_trans)
    have slept: "now (world d2) + 500000000 \<le> now (world ?d')"
      using sleep_advances [OF clock, of d2 "LASER_RETRY_DELAY_MS * 1000"] by simp
    have within: "now (world d1) - time_ns (becoming_ready_since L1) < 30000000000"
      using ms_since_elapsed(1) [OF clock two] True by linarith
    have "wait_left now L1 ?d' < wait_left now L d"
    proof (cases "becoming_ready L")
      case True
      then have "L1 = L" "d1 = d" using one by auto
      with within slept to_d2 True show ?thesis by (simp add: wait_left_def)
    next
      case False
      then obtain t where t: "do_clock h d = (t, d1)" "becoming_ready_since L1 = t"
        using one by (auto split: prod.splits)
      from clock_reading(2) [OF clock t(1)] slept to_d2(2) t(2) br(1) False
      show ?thesis by (simp add: wait_left_def)
    qed
    with True out br mc' show ?thesis
      by (auto simp: cdb_rank_def wait_left_def)
  qed
qed

context bot_transport
begin

lemma attempt_world:
  assumes R: "host_rel h R" and run: "cdb_attempt send h cdb n len inward idempotent L d = (res, L', d')"
  shows "R (world d) (world d')"
proof -
  note after = world_after [OF R] and trans = host_relD(2) [OF R]
  have pre: "R (world d) (world d3)" if "laser_is_cancelled h d = (c, d1)" "do_clock h d1 = (t, d2)"
    "send cdb n x len inward y z d2 = (out, d3)" for c d1 t d2 x y z out d3
    using call_worlds(9) [OF R, where d = d] call_worlds(6) [OF R, where d = d1] send_world [OF R, of d2] that trans
    by (metis snd_conv)
  from run show ?thesis
  proof (cases rule: cdb_attempt_cases)
    case cancelled
    then show ?thesis using call_worlds(9) [OF R, where d = d] by simp
  next
    case (ok d1 t d2 out d3)
    then show ?thesis using sample_throughput_world [OF R pre [OF ok(1-3)]] by simp
  next
    case (gone d1 t d2 out d3)
    then show ?thesis using pre [OF gone(1-3)] by simp
  next
    case (failed d1 t d2 out d3 sn d4)
    have "R (world d) (world d4)"
      using cdb_sense_world [OF R pre [OF failed(1-3)]] failed(6) by (metis snd_conv)
    moreover have "R (world d4) (world d')"
      using failed(7)
    proof (cases rule: cdb_failed_cases)
      case wait
      then have "d' = snd (cdb_wait_ready h sn (after_failure out L) d4)" by simp
      then show ?thesis
        by (auto simp: cdb_wait_ready_def cdb_delay_def case_prod_unfold host_relD(1) [OF R]
            intro!: after)
    qed (auto simp: cdb_delay_def host_relD(1) [OF R] intro!: after)
    ultimately show ?thesis by (rule trans)
  qed
qed


lemma sense_fresh: "request_sense_locked send no_sense d = ((r, sn), d') \<Longrightarrow> sn \<noteq> no_sense \<Longrightarrow> r = 0"
  by (auto simp: request_sense_locked_def Let_def case_prod_unfold split: if_splits)

lemma change_consumed:
  assumes few: "finitely_many_changes send h mc" and sense: "cdb_sense send out d = (sn, d')"
    and "cdb_decide idempotent spun_up r sn = Now_Ready"
  shows "mc (world d') < mc (world d)"
proof -
  have change: "asc sn = SCSI_ASC_MEDIUM_MAY_HAVE_CHANGED" "ascq sn = 0x00"
    using assms(3) by (auto simp: cdb_decide_def split: if_splits)
  then have "sn \<noteq> no_sense" by (auto simp: no_sense_def)
  with cdb_sense_source [OF sense] obtain q where q:
    "request_sense_locked send no_sense d = ((q, sn), d')" by blast
  with sense_fresh \<open>sn \<noteq> no_sense\<close> have "q = 0" by blast
  with q change few show ?thesis
    by (auto simp: finitely_many_changes_def Let_def split: prod.splits
        dest!: spec [of _ no_sense] spec [of _ d])
qed

lemma attempt_rank:
  assumes clock: "clock_monotonic h now" and few: "finitely_many_changes send h mc"
    and run: "cdb_attempt send h cdb n len inward idempotent L d = (None, L', d')"
    and budget: "attempt L \<le> LASER_MAX_RETRIES"
  shows "(cdb_rank mc now (L'\<lparr>attempt := attempt L' + 1\<rparr>) d', cdb_rank mc now L d) \<in> rank_less"
  using run
proof (cases rule: cdb_attempt_cases)
  case (failed d1 t d2 out d3 sn d4)
  have mc: "host_rel h (\<lambda>w w'. mc w' \<le> mc w)"
    using few by (simp add: finitely_many_changes_def)
  note later = clock_rel [OF clock]
  have upto: "R (world d) (world d3)" if R: "host_rel h R" for R
    using call_worlds(9) [OF R, where d = d] call_worlds(6) [OF R, where d = d1]
      send_world [OF R, of d2] failed(1-3) host_relD(2) [OF R] by (metis snd_conv)
  have upto4: "R (world d) (world d4)" if R: "host_rel h R" for R
    using cdb_sense_world [OF R upto [OF R]] failed(6) by (metis snd_conv)
  from failed(7) show ?thesis
  proof (cases rule: cdb_failed_cases)
    case now_ready
    then have "mc (world d') < mc (world d)"
      using change_consumed [OF few failed(6) now_ready(1)] upto [OF mc] by simp
    then show ?thesis by (simp add: cdb_rank_def)
  next
    case wait
    have "(cdb_rank mc now (L'\<lparr>attempt := attempt L' + 1\<rparr>) d',
        cdb_rank mc now (after_failure out L) d4) \<in> rank_less"
      using wait_step [OF clock mc wait(3)] budget by simp
    with upto4 [OF mc] upto4 [OF later] show ?thesis
      by (auto simp: cdb_rank_def wait_left_def)
  next
    case retry
    have "mc (world d') \<le> mc (world d4)"
      using call_worlds(5) [OF mc, where d = d4] retry(4) by (simp add: cdb_delay_def)
    with upto4 [OF mc] retry(3) budget show ?thesis by (intro rank_by_attempt) auto
  qed simp
qed simp_all

lemma loop_terminates:
  assumes clock: "clock_monotonic h now" and few: "finitely_many_changes send h mc"
  shows "\<exists>r. cdb_loop send h cdb n len inward idempotent L d = Some r"
proof (induction "cdb_rank mc now L d" arbitrary: L d rule: wf_induct_rule [OF wf_rank_less])
  case 1
  obtain res L' d' where a: "cdb_attempt send h cdb n len inward idempotent L d = (res, L', d')"
    by (metis prod_cases3)
  show ?case
  proof (cases "LASER_MAX_RETRIES < attempt L \<or> res \<noteq> None")
    case True
    then show ?thesis using a by (subst cdb_loop.simps) (auto split: option.split)
  next
    case False
    with a have "cdb_attempt send h cdb n len inward idempotent L d = (None, L', d')" by simp
    from 1 [OF attempt_rank [OF clock few this]] False a show ?thesis
      by (subst cdb_loop.simps) auto
  qed
qed

end

end
