(* ===== verification/Command_Props.thy ===== *)
theory Command_Props
  imports Sample_Runs Command_Total
begin

text \<open>
  The properties of \<open>laser_scsi_cdb()\<close>, over the whole table, from the laws proved against the
  transport's contract.
\<close>

lemma scsi_cdb_cases:
  assumes run: "laser_scsi_cdb h tk cdb n data len inward act s = Some (o', s')"
  obtains (invalid)
      "cdb = None \<or> n \<le> 0 \<or> 16 < n \<or> len < 0 \<or> (data = None \<and> 0 < len)"
      and "o' = \<lparr>status = LASER_ERR_INVALID, o_data = data, o_actual = act\<rparr>" and "s' = s"
  | (unknown) "\<not> (cdb = None \<or> n \<le> 0 \<or> 16 < n \<or> len < 0 \<or> (data = None \<and> 0 < len))"
      and "laser_lookup tk s = None"
      and "o' = \<lparr>status = LASER_ERR_NO_SUCH_TOKEN, o_data = data, o_actual = act\<rparr>" and "s' = s"
  | (ran) c i d' where "cdb = Some c" and "0 < n" and "n \<le> 16" and "0 \<le> len"
      and "data \<noteq> None \<or> len = 0" and "laser_lookup tk s = Some i"
      and "scsi_cdb_entry (laser_bot_send_locked h) h c n data len inward act (dev_of i s) =
             Some (o', d')"
      and "s' = put_dev i d' s"
proof (cases "cdb = None \<or> n \<le> 0 \<or> 16 < n \<or> len < 0 \<or> (data = None \<and> 0 < len)")
  case True
  with run show thesis
    by (intro invalid) (auto simp: laser_scsi_cdb_def Let_def split: if_splits)
next
  case valid: False
  then obtain c where c: "cdb = Some c" by auto
  show thesis
  proof (cases "laser_lookup tk s")
    case None
    with run valid show thesis
      by (intro unknown) (auto simp: laser_scsi_cdb_def Let_def)
  next
    case (Some i)
    with run valid c obtain d' where "scsi_cdb_entry (laser_bot_send_locked h) h c n data len
        inward act (dev_of i s) = Some (o', d')" "s' = put_dev i d' s"
      by (auto simp: laser_scsi_cdb_def Let_def)
    with valid c Some show thesis by (intro ran [of c i d']) auto
  qed
qed

lemma ran_slot:
  assumes "laser_lookup tk s = Some i"
  shows "g_entries (put_dev i d s) ! i = ent d"
    and "j \<noteq> i \<Longrightarrow> g_entries (put_dev i d s) ! j = g_entries s ! j"
  using laser_lookup_Some(1) [OF assms] by simp_all

lemma delivered_once_nil [simp]: "delivered_once c e []"
  using delivered_onceI [of c e "[]" "[]"] by simp

text \<open>C2: a command that changes CSS authentication state, on a registered drive with no spin-up
  pending, is handed to the drive more than once in a call only after a transfer that failed:
  every wrapper of it that moved whole, except perhaps one in the last part of the trace, was
  in a bulk transfer that ended in an error other than a timeout or the device leaving, and a
  Reset Recovery followed it at once. laser.h promises more, that such a command is never
  repeated once its wrapper has reached the drive.\<close>

theorem key_command_taken_once:
  assumes run: "laser_scsi_cdb h tk (Some cdb) n data len inward act s = Some (o', s')"
    and key: "laser_cdb_changes_css_state cdb n" and whole: "length cdb = nat n"
    and slot: "laser_lookup tk s = Some i"
    and settled: "\<not> not_ready (g_entries s ! i)"
    and quiet: "\<And>e w. not_ready (fst (other_threads h e w)) \<Longrightarrow> not_ready e"
    and threads: "threads_rely h"
  shows "\<exists>pre post. trace s' = trace s @ pre @ post \<and>
    lost_and_reset cdb (g_entries s ! i) pre \<and> times_taken cdb post \<le> 1"
proof -
  have "\<exists>evs. trace s' = trace s @ evs \<and> delivered_once cdb (g_entries s ! i) evs"
    using run
  proof (cases rule: scsi_cdb_cases)
    case (ran c i' d')
    then have c: "c = cdb" and i: "i' = i" using slot by simp_all
    from ran(7) have "\<exists>evs. trace d' = trace s @ evs \<and> delivered_once cdb (g_entries s ! i) evs"
    proof (cases rule: bot.entry_call_cases)
      case no_session
      then show ?thesis by simp
    next
      case cancelled
      then show ?thesis using laser_is_cancelled_frame [of h "dev_of i' s"] by simp
    next
      case gone
      then show ?thesis using laser_is_cancelled_frame [of h "dev_of i' s"] by simp
    next
      case entry: (ran d1 result L d2)
      have loop: "cdb_loop (laser_bot_send_locked h) h cdb n len inward False (cdb_start data act)
          (lock_io h d1) = Some (result, L, d2)"
        using entry(4) key c by simp
      have "\<not> not_ready (ent d1)"
        using settled is_cancelled_same(2) [of h "dev_of i' s"] entry(2) i by simp
      then have ready: "\<not> not_ready (ent (lock_io h d1))"
        using quiet by (auto simp: lock_io_def case_prod_unfold)
      have fresh: "\<not> becoming_ready (cdb_start data act)" by (simp add: cdb_start_def)
      have "entry_rely (ent d1) (ent (lock_io h d1))"
        using threads by (simp add: threads_rely_def lock_io_def case_prod_unfold)
      then have rely: "entry_rely (g_entries s ! i) (ent (lock_io h d1))"
        using is_cancelled_rely [of "dev_of i' s" h] entry(2) i entry_rely_trans by fastforce
      have "pad16 (take (nat n) cdb) \<noteq> pad16 request_sense_cdb"
        using key whole by (intro key_command_not_sense) simp_all
      from bot.key_loop [OF loop fresh ready this] whole
      obtain evs where "trace d2 = trace (lock_io h d1) @ evs"
        "delivered_once cdb (ent (lock_io h d1)) evs"
        by auto
      then show ?thesis
        using entry(2,6) laser_is_cancelled_frame [of h "dev_of i' s"] rely_lost [OF rely]
        by (auto simp: bot.finish_trace lock_io_frame delivered_once_def)
    qed
    with ran show ?thesis by simp
  qed (use slot in simp_all)
  then show ?thesis by (auto simp: delivered_once_def)
qed

lemma agid_region_run:
  "run_agid (sim_entry\<lparr>css_open := True\<rparr>) (check_condition 5 0x6f 4) \<noteq> None"
  by code_simp

theorem key_command_taken_once_witness:
  "\<exists>pre post. trace (snd (the (run_agid (sim_entry\<lparr>css_open := True\<rparr>) (check_condition 5 0x6f 4)))) =
     trace (sim_sys (sim_entry\<lparr>css_open := True\<rparr>) (check_condition 5 0x6f 4)) @ pre @ post \<and>
   lost_and_reset agid_cdb
     (g_entries (sim_sys (sim_entry\<lparr>css_open := True\<rparr>) (check_condition 5 0x6f 4)) ! 0) pre \<and>
   times_taken agid_cdb post \<le> 1"
proof -
  let ?s = "sim_sys (sim_entry\<lparr>css_open := True\<rparr>) (check_condition 5 0x6f 4)"
  obtain r where r: "run_agid (sim_entry\<lparr>css_open := True\<rparr>) (check_condition 5 0x6f 4) = Some r"
    using agid_region_run by blast
  have slot: "laser_lookup 42 ?s = Some 0" by code_simp
  have "\<exists>pre post. trace (snd r) = trace ?s @ pre @ post \<and>
    lost_and_reset agid_cdb (g_entries ?s ! 0) pre \<and> times_taken agid_cdb post \<le> 1"
  proof (rule key_command_taken_once [OF _ _ _ slot _ _ sim_threads_rely])
    show "laser_scsi_cdb sim_host 42 (Some agid_cdb) 12 (Some (replicate 8 0)) 8 True (Some 0) ?s =
        Some (fst r, snd r)"
      using r by (simp add: run_agid_def)
  qed (simp_all add: agid_cdb_def laser_cdb_changes_css_state_def sim_host_def sim_sys_def
      sim_entry_def zero_entry_def)
  with r show ?thesis by simp
qed

text \<open>C25: caller errors are caught before anything is touched: the call answers INVALID exactly
  for a bad command block, a bad data phase or a key command outside any session,
  NO_SUCH_TOKEN exactly for a token not registered, and then neither the device, the table nor
  the caller's buffer has changed.\<close>

theorem caller_errors_touch_nothing:
  assumes run: "laser_scsi_cdb h tk cdb n data len inward act s = Some (o', s')"
  shows "(status o' = LASER_ERR_INVALID \<longleftrightarrow>
      cdb = None \<or> n \<le> 0 \<or> 16 < n \<or> len < 0 \<or> (data = None \<and> 0 < len) \<or>
      (\<exists>i. laser_lookup tk s = Some i \<and> laser_cdb_changes_css_state (the cdb) n \<and>
         \<not> css_open (g_entries s ! i))) \<and>
    (status o' = LASER_ERR_NO_SUCH_TOKEN \<longleftrightarrow>
      \<not> (cdb = None \<or> n \<le> 0 \<or> 16 < n \<or> len < 0 \<or> (data = None \<and> 0 < len)) \<and>
      laser_lookup tk s = None) \<and>
    (status o' \<in> {LASER_ERR_INVALID, LASER_ERR_NO_SUCH_TOKEN} \<longrightarrow>
      s' = s \<and> o_data o' = data \<and> o_actual o' = act)"
  using run
proof (cases rule: scsi_cdb_cases)
  case invalid
  then show ?thesis by auto
next
  case unknown
  then show ?thesis by auto
next
  case (ran c i d')
  note not_invalid = ran(1-5)
  from ran(7) show ?thesis
  proof (cases rule: bot.entry_call_cases)
    case no_session
    with ran show ?thesis by auto
  next
    case (ran d1 result L d2)
    with \<open>cdb = Some c\<close> not_invalid \<open>laser_lookup tk s = Some i\<close>
      bot.finish_never_invalid [of result L d2]
    show ?thesis by auto
  qed (use ran in auto)
qed

lemma agid_no_session_run: "run_agid sim_entry [Answer [] 0] \<noteq> None"
  by code_simp

theorem caller_errors_touch_nothing_witness:
  "let r = the (run_agid sim_entry [Answer [] 0]); s = sim_sys sim_entry [Answer [] 0] in
   (status (fst r) = LASER_ERR_INVALID \<longleftrightarrow>
      Some agid_cdb = None \<or> (12 :: int) \<le> 0 \<or> 16 < (12 :: int) \<or> (8 :: int) < 0 \<or>
      (Some (replicate 8 (0 :: byte)) = None \<and> 0 < (8 :: int)) \<or>
      (\<exists>i. laser_lookup 42 s = Some i \<and> laser_cdb_changes_css_state agid_cdb 12 \<and>
         \<not> css_open (g_entries s ! i))) \<and>
    (status (fst r) = LASER_ERR_NO_SUCH_TOKEN \<longleftrightarrow>
      \<not> (Some agid_cdb = None \<or> (12 :: int) \<le> 0 \<or> 16 < (12 :: int) \<or> (8 :: int) < 0 \<or>
         (Some (replicate 8 (0 :: byte)) = None \<and> 0 < (8 :: int))) \<and> laser_lookup 42 s = None) \<and>
    (status (fst r) \<in> {LASER_ERR_INVALID, LASER_ERR_NO_SUCH_TOKEN} \<longrightarrow>
      snd r = s \<and> o_data (fst r) = Some (replicate 8 0) \<and> o_actual (fst r) = Some 0)"
proof -
  obtain r where r: "run_agid sim_entry [Answer [] 0] = Some r"
    using agid_no_session_run by blast
  then have "laser_scsi_cdb sim_host 42 (Some agid_cdb) 12 (Some (replicate 8 0)) 8 True (Some 0)
      (sim_sys sim_entry [Answer [] 0]) = Some (fst r, snd r)"
    by (simp add: run_agid_def)
  from caller_errors_touch_nothing [OF this] show ?thesis
    unfolding r Let_def option.sel .
qed

text \<open>C14: success is a success on the wire: the last thing that happened is the reading of a
  13-byte CSW that has the signature and says PASS, and the data and the length handed to the
  caller are the ones of that transaction.\<close>

theorem command_ok_means_passed:
  assumes run: "laser_scsi_cdb h tk cdb n data len inward act s = Some (o', s')"
    and ok: "status o' = LASER_OK"
  shows "\<exists>pre hn ep ret bs d2 d3 data' act' out.
    trace s' = pre @ [Ev_Bulk_In CSW_Phase hn ep USB_BOT_CSW_SIZE ret bs] \<and>
    length bs = USB_BOT_CSW_SIZE \<and> dCSWSignature (csw_of_bytes bs) = USB_BOT_CSW_SIGNATURE \<and>
    bCSWStatus (csw_of_bytes bs) = USB_BOT_STATUS_PASS \<and>
    laser_bot_send_locked h (the cdb) n data' len inward act' (Some (-1)) d2 = (out, d3) \<and>
    rc out = BOT_OK \<and> o_data o' = buf out \<and> o_actual o' = actual_len out \<and> trace s' = trace d3"
  using run
proof (cases rule: scsi_cdb_cases)
  case (ran c i d')
  from ran(7) show ?thesis
  proof (cases rule: bot.entry_call_cases)
    case entry: (ran d1 result L d2)
    from ok entry(5) have fin: "fst (cdb_finish result L d2) = LASER_OK" by simp
    note res = bot.finish_ok [OF fin]
    from entry(4) have "cdb_loop (laser_bot_send_locked h) h c n len inward
        (\<not> laser_cdb_changes_css_state c n \<and> (inward \<or> len = 0)) (cdb_start data act)
        (lock_io h d1) = Some (LASER_OK, L, d2)"
      using res(1) by simp
    from bot.loop_ok [OF this] obtain data' act' x out y where
      t: "laser_bot_send_locked h c n data' len inward act' (Some (-1)) x = (out, y)"
        "rc out = BOT_OK" "c_data L = buf out" "c_actual L = actual_len out" "trace d2 = trace y"
      unfolding bot.ended_in_success_def by blast
    from bot_ok_csw [OF t(1,2)] t(5) obtain pre hn ep ret bs where
      "trace d2 = pre @ [Ev_Bulk_In CSW_Phase hn ep USB_BOT_CSW_SIZE ret bs]"
      "length bs = USB_BOT_CSW_SIZE" "dCSWSignature (csw_of_bytes bs) = USB_BOT_CSW_SIGNATURE"
      "bCSWStatus (csw_of_bytes bs) = USB_BOT_STATUS_PASS"
      by (metis append.assoc)
    moreover have "trace s' = trace d2" using ran(8) entry(6) res(2) by simp
    moreover have "o_data o' = buf out" "o_actual o' = actual_len out" using entry(5) t(3,4) by simp_all
    ultimately show ?thesis using t(1,2,5) ran(1) by (metis option.sel)
  qed (use ok in auto)
qed (use ok in auto)


lemma tur_after_attention_run:
  "map_option (\<lambda>(o', s'). status o') (run_tur sim_entry (check_condition 6 0x29 0 @ [Answer [] 0])) =
     Some LASER_OK"
  by code_simp

theorem command_ok_means_passed_witness:
  "let s' = snd (the (run_tur sim_entry (check_condition 6 0x29 0 @ [Answer [] 0]))) in
   \<exists>pre hn ep ret bs d2 d3 data' act' out.
    trace s' = pre @ [Ev_Bulk_In CSW_Phase hn ep USB_BOT_CSW_SIZE ret bs] \<and>
    length bs = USB_BOT_CSW_SIZE \<and> dCSWSignature (csw_of_bytes bs) = USB_BOT_CSW_SIGNATURE \<and>
    bCSWStatus (csw_of_bytes bs) = USB_BOT_STATUS_PASS \<and>
    laser_bot_send_locked sim_host (the (Some test_unit_ready_cdb)) 6 data' 0 False act' (Some (-1))
      d2 = (out, d3) \<and> rc out = BOT_OK \<and>
    o_data (fst (the (run_tur sim_entry (check_condition 6 0x29 0 @ [Answer [] 0])))) = buf out \<and>
    o_actual (fst (the (run_tur sim_entry (check_condition 6 0x29 0 @ [Answer [] 0])))) =
      actual_len out \<and> trace s' = trace d3"
proof -
  let ?script = "check_condition 6 0x29 0 @ [Answer [] 0]"
  obtain r where r: "run_tur sim_entry ?script = Some r" and ok: "status (fst r) = LASER_OK"
    using tur_after_attention_run by (auto simp: case_prod_unfold)
  then have "laser_scsi_cdb sim_host 42 (Some test_unit_ready_cdb) 6 None 0 False None
      (sim_sys sim_entry ?script) = Some (fst r, snd r)"
    by (simp add: run_tur_def)
  from command_ok_means_passed [OF this ok] show ?thesis
    unfolding r Let_def option.sel .
qed

text \<open>
  The specification of the statuses that speak of the medium or of a refusal, from laser.h: the
  meaning of a sense triple on its own.
\<close>

definition sense_meaning :: "sense \<Rightarrow> laser_status option" where
  "sense_meaning sn =
     (let k = sense_key sn; a = asc sn; q = ascq sn in
      if (k = 0x02 \<and> a = 0x3a) \<or> (a = 0x28 \<and> q = 0x00) then Some LASER_ERR_MEDIA_GONE
      else if k = 0x05 \<and> a = 0x6f \<and> q = 0x03 then Some LASER_ERR_SCRAMBLED
      else if k = 0x05 \<and> a = 0x6f \<and> q \<le> 0x02 then Some LASER_ERR_NO_KEY
      else if k = 0x05 \<and> a = 0x6f \<and> (q = 0x04 \<or> q = 0x05) then Some LASER_ERR_REGION
      else if k = 0x05 \<or> k = 0x07 then Some LASER_ERR_REFUSED
      else None)"

lemma le_two: "(q :: byte) \<le> 2 \<longleftrightarrow> q = 0 \<or> q = 1 \<or> q = 2"
proof -
  have "k \<le> 2 \<longleftrightarrow> k = 0 \<or> k = 1 \<or> k = 2" if "0 \<le> k" for k :: int
    using that by arith
  from this [OF uint_ge_0 [of q]] show ?thesis
    by (simp add: word_le_def word_uint_eq_iff)
qed

lemma decide_meaning:
  assumes "cdb_decide idempotent spun_up br sn = Give_Up st" and "st \<noteq> LASER_ERR_IO"
  shows "sense_meaning sn = Some st"
  using assms
  by (auto simp: cdb_decide_def sense_meaning_def copy_protection_status_def le_two Let_def
      split: if_splits)

text \<open>C3: no status is invented: NO_DEVICE leaves the device-gone latch up, CANCELLED is only
  answered on a cancelled entry, and a status about the medium or a refusal is the documented
  meaning of the sense data the drive returned last, after which nothing more was sent.\<close>

theorem command_status_explained:
  assumes run: "laser_scsi_cdb h tk cdb n data len inward act s = Some (o', s')"
    and slot: "laser_lookup tk s = Some i"
  shows "(status o' = LASER_ERR_NO_DEVICE \<longrightarrow> device_gone (g_entries s' ! i)) \<and>
    (status o' = LASER_ERR_CANCELLED \<longrightarrow> cancelled (g_entries s' ! i)) \<and>
    (status o' \<in> {LASER_ERR_MEDIA_GONE, LASER_ERR_REFUSED, LASER_ERR_SCRAMBLED, LASER_ERR_NO_KEY,
        LASER_ERR_REGION} \<longrightarrow>
      (\<exists>d3 r sn d4. request_sense_locked (laser_bot_send_locked h) no_sense d3 = ((r, sn), d4) \<and>
         trace s' = trace d4 \<and> sense_meaning sn = Some (status o')))"
  using run
proof (cases rule: scsi_cdb_cases)
  case (ran c i' d')
  then have i: "i' = i" using slot by simp
  from ran(7) show ?thesis
  proof (cases rule: bot.entry_call_cases)
    case entry: (ran d1 result L d2)
    have why: "bot.explained h (fst (cdb_finish result L d2)) (snd (cdb_finish result L d2))"
      using bot.finish_status [OF bot.loop_explained [OF entry(4)]] .
    have sense: "\<exists>d3 r sn d4. request_sense_locked (laser_bot_send_locked h) no_sense d3 =
        ((r, sn), d4) \<and> trace s' = trace d4 \<and> sense_meaning sn = Some (status o')"
      if "bot.ended_on_sense h (status o') d'" "status o' \<noteq> LASER_ERR_IO"
    proof -
      from that(1) obtain d3 r sn d4 idem sp br where
        "request_sense_locked (laser_bot_send_locked h) no_sense d3 = ((r, sn), d4)"
        "trace d' = trace d4" "cdb_decide idem sp br sn = Give_Up (status o')"
        unfolding bot.ended_on_sense_def by blast
      with decide_meaning that(2) ran(8) show ?thesis by fastforce
    qed
    show ?thesis
      using why sense entry(5,6) ran(8) i ran_slot(1) [OF slot]
      by (auto simp: bot.explained_def)
  qed (use ran slot i is_cancelled_same [of h "dev_of i s"] in
      \<open>auto simp: laser_lookup_Some(1) [OF slot]\<close>)
qed (use slot in auto)

lemma agid_region_status:
  "map_option (\<lambda>(o', s'). status o')
     (run_agid (sim_entry\<lparr>css_open := True\<rparr>) (check_condition 5 0x6f 4)) = Some LASER_ERR_REGION"
  by code_simp

theorem command_status_explained_witness:
  "let r = the (run_agid (sim_entry\<lparr>css_open := True\<rparr>) (check_condition 5 0x6f 4)) in
   (status (fst r) = LASER_ERR_NO_DEVICE \<longrightarrow> device_gone (g_entries (snd r) ! 0)) \<and>
   (status (fst r) = LASER_ERR_CANCELLED \<longrightarrow> cancelled (g_entries (snd r) ! 0)) \<and>
   (status (fst r) \<in> {LASER_ERR_MEDIA_GONE, LASER_ERR_REFUSED, LASER_ERR_SCRAMBLED,
        LASER_ERR_NO_KEY, LASER_ERR_REGION} \<longrightarrow>
      (\<exists>d3 q sn d4. request_sense_locked (laser_bot_send_locked sim_host) no_sense d3 =
         ((q, sn), d4) \<and> trace (snd r) = trace d4 \<and> sense_meaning sn = Some (status (fst r))))"
proof -
  obtain r where r: "run_agid (sim_entry\<lparr>css_open := True\<rparr>) (check_condition 5 0x6f 4) = Some r"
    using agid_region_run by blast
  then have run: "laser_scsi_cdb sim_host 42 (Some agid_cdb) 12 (Some (replicate 8 0)) 8 True
      (Some 0) (sim_sys (sim_entry\<lparr>css_open := True\<rparr>) (check_condition 5 0x6f 4)) =
      Some (fst r, snd r)"
    by (simp add: run_agid_def)
  have "laser_lookup 42 (sim_sys (sim_entry\<lparr>css_open := True\<rparr>) (check_condition 5 0x6f 4)) = Some 0"
    by (simp add: laser_lookup_def sim_sys_def sim_entry_def zero_entry_def)
  from command_status_explained [OF run this] show ?thesis
    unfolding r Let_def option.sel .
qed


text \<open>C15: the fields other threads read without a lock only move the way their comments promise:
  cancelled and device-gone only rise, the transfer cap neither grows nor falls below its floor,
  what registration fixed stays, and no other slot of the table is touched.\<close>

theorem command_keeps_shared_promises:
  assumes "threads_rely h"
    and run: "laser_scsi_cdb h tk cdb n data len inward act s = Some (o', s')"
    and slot: "laser_lookup tk s = Some i"
  shows "entry_rely (g_entries s ! i) (g_entries s' ! i) \<and>
    (\<forall>j. j \<noteq> i \<longrightarrow> g_entries s' ! j = g_entries s ! j) \<and>
    length (g_entries s') = length (g_entries s)"
  using run
proof (cases rule: scsi_cdb_cases)
  case (ran c i' d')
  from bot.entry_call_rely [OF assms(1) ran(7)] ran slot ran_slot [OF slot] show ?thesis
    by auto
qed (use slot in auto)

theorem command_keeps_shared_promises_witness:
  "let s = sim_sys (sim_entry\<lparr>css_open := True\<rparr>) (check_condition 5 0x6f 4);
       s' = snd (the (run_agid (sim_entry\<lparr>css_open := True\<rparr>) (check_condition 5 0x6f 4))) in
   entry_rely (g_entries s ! 0) (g_entries s' ! 0) \<and>
    (\<forall>j. j \<noteq> 0 \<longrightarrow> g_entries s' ! j = g_entries s ! j) \<and>
    length (g_entries s') = length (g_entries s)"
proof -
  obtain r where r: "run_agid (sim_entry\<lparr>css_open := True\<rparr>) (check_condition 5 0x6f 4) = Some r"
    using agid_region_run by blast
  then have run: "laser_scsi_cdb sim_host 42 (Some agid_cdb) 12 (Some (replicate 8 0)) 8 True
      (Some 0) (sim_sys (sim_entry\<lparr>css_open := True\<rparr>) (check_condition 5 0x6f 4)) =
      Some (fst r, snd r)"
    by (simp add: run_agid_def)
  have "laser_lookup 42 (sim_sys (sim_entry\<lparr>css_open := True\<rparr>) (check_condition 5 0x6f 4)) = Some 0"
    by (simp add: laser_lookup_def sim_sys_def sim_entry_def zero_entry_def)
  from command_keeps_shared_promises [OF sim_threads_rely run this] show ?thesis
    unfolding r Let_def option.sel .
qed

text \<open>C26: a token whose device has left, or whose last claim was dropped, is dead at once: no
  command on it reaches the bus or sleeps, and it is answered NO_DEVICE, CANCELLED or, for a
  caller error, INVALID.\<close>

theorem dead_token_sends_nothing:
  assumes run: "laser_scsi_cdb h tk cdb n data len inward act s = Some (o', s')"
    and slot: "laser_lookup tk s = Some i"
    and dead: "device_gone (g_entries s ! i) \<or> cancelled (g_entries s ! i)"
  shows "trace s' = trace s \<and>
    status o' \<in> {LASER_ERR_NO_DEVICE, LASER_ERR_CANCELLED, LASER_ERR_INVALID}"
  using run
proof (cases rule: scsi_cdb_cases)
  case (ran c i' d')
  then have i: "i' = i" using slot by simp
  have tr: "trace (snd (laser_is_cancelled h (dev_of i s))) = trace s"
    by (simp add: laser_is_cancelled_frame)
  from ran(7) show ?thesis
  proof (cases rule: bot.entry_call_cases)
    case entry: (ran d1 result L d2)
    have "fst (laser_is_cancelled h (dev_of i s)) \<or> device_gone (g_entries s ! i)"
      using dead by (auto simp: laser_is_cancelled_def case_prod_unfold Let_def laser_set_cancelled_def)
    with entry(2,3) i show ?thesis by simp
  qed (use ran i tr in auto)
qed (use slot in auto)

lemma tur_gone_run: "run_tur (sim_entry\<lparr>device_gone := True\<rparr>) [Answer [] 0] \<noteq> None"
  by code_simp

theorem dead_token_sends_nothing_witness:
  "let r = the (run_tur (sim_entry\<lparr>device_gone := True\<rparr>) [Answer [] 0]) in
   trace (snd r) = trace (sim_sys (sim_entry\<lparr>device_gone := True\<rparr>) [Answer [] 0]) \<and>
   status (fst r) \<in> {LASER_ERR_NO_DEVICE, LASER_ERR_CANCELLED, LASER_ERR_INVALID}"
proof -
  let ?s = "sim_sys (sim_entry\<lparr>device_gone := True\<rparr>) [Answer [] 0]"
  obtain r where r: "run_tur (sim_entry\<lparr>device_gone := True\<rparr>) [Answer [] 0] = Some r"
    using tur_gone_run by blast
  then have run: "laser_scsi_cdb sim_host 42 (Some test_unit_ready_cdb) 6 None 0 False None ?s =
      Some (fst r, snd r)"
    by (simp add: run_tur_def)
  have slot: "laser_lookup 42 ?s = Some 0"
    by (simp add: laser_lookup_def sim_sys_def sim_entry_def zero_entry_def)
  have "device_gone (g_entries ?s ! 0) \<or> cancelled (g_entries ?s ! 0)"
    by (simp add: sim_sys_def)
  from dead_token_sends_nothing [OF run slot this] show ?thesis
    unfolding r Let_def option.sel .
qed

lemma scsi_cdb_returns:
  assumes "clock_monotonic h now_ns"
    and "finitely_many_changes (laser_bot_send_locked h) h changes"
  shows "\<exists>r. laser_scsi_cdb h tk cdb n data len inward act s = Some r"
proof -
  have "\<exists>r. scsi_cdb_entry (laser_bot_send_locked h) h c n data len inward act d = Some r" for c d
  proof -
    obtain r where "cdb_loop (laser_bot_send_locked h) h c n len inward
        (\<not> laser_cdb_changes_css_state c n \<and> (inward \<or> len = 0)) (cdb_start data act)
        (lock_io h (snd (laser_is_cancelled h d))) = Some r"
      using bot.loop_terminates [OF assms] by blast
    then show ?thesis
      by (simp add: scsi_cdb_entry_def cdb_checks_def cdb_idempotent_def Let_def case_prod_unfold)
  qed
  then show ?thesis
    by (auto simp: laser_scsi_cdb_def Let_def split: option.split)
qed

text \<open>C8: the command loop ends on any drive whose clock runs and which reports "medium may have
  changed" finitely often, however long it claims to be becoming ready.\<close>

theorem command_terminates:
  assumes "clock_monotonic h now_ns"
    and "finitely_many_changes (laser_bot_send_locked h) h changes"
  shows "\<exists>r. laser_scsi_cdb h tk cdb n data len inward act s = Some r"
  using assms by (rule scsi_cdb_returns)

text \<open>Every command the sample drive executes uses up a line of its script.\<close>

lemma sim_fewer: "host_rel sim_host (\<lambda>w w'. length (answers w') \<le> length (answers w))"
  by (rule sim_host_rel) (auto intro: reflpI transpI)

lemma sim_cbw_consumes:
  assumes "bot_cbw_phase sim_host cdb n len inward d = (Inr c, d')" and "n \<le> 16"
  shows "length (answers (world d')) < length (answers (world d))"
  using assms
  by (auto simp: bot_cbw_phase_def Let_def do_bulk_out_def sim_host_def sim_bulk_out_def
      length_cbw_bytes upd_ent_def split: list.splits answer.splits if_splits)

lemma sim_ok_consumes:
  assumes "laser_bot_send_locked sim_host cdb n data len inward act csw d = (out, d')"
    and "rc out = BOT_OK"
  shows "length (answers (world d')) < length (answers (world d))"
  using assms(1)
proof (cases rule: bot_send_cases)
  case too_long
  with assms(2) show ?thesis by simp
next
  case (cbw r)
  with assms(2) show ?thesis by (auto elim: bot_cbw_phase_cases)
next
  case (data c d1 r data' actual')
  with assms(2) show ?thesis by (auto elim: bot_data_phase_cases)
next
  case (csw c d1 k data' actual' d2 r)
  with assms(2) show ?thesis by (auto elim: bot_csw_phase_cases)
next
  case (verdict c d1 k data' actual' d2 w d3)
  note worlds = bot_phase_worlds [OF sim_fewer]
  have "length (answers (world d2)) \<le> length (answers (world d1))"
    using worlds(2) [where d = d1] verdict(2) by (metis snd_conv)
  moreover have "length (answers (world d3)) \<le> length (answers (world d2))"
    using worlds(3) [where d = d2] verdict(3) by (metis snd_conv)
  moreover have "length (answers (world d')) \<le> length (answers (world d3))"
    using worlds(4) [where d = d3] verdict(6) by (metis snd_conv)
  ultimately show ?thesis using sim_cbw_consumes [OF verdict(1,5)] by linarith
qed

lemma sim_finitely_many_changes:
  "finitely_many_changes (laser_bot_send_locked sim_host) sim_host (\<lambda>w. length (answers w))"
proof -
  have "length (answers (world (snd (request_sense_locked (laser_bot_send_locked sim_host) sn d))))
      < length (answers (world d))"
    if "fst (fst (request_sense_locked (laser_bot_send_locked sim_host) sn d)) = 0" for sn d
    using that sim_ok_consumes [OF prod.collapse [symmetric]]
    by (auto simp: request_sense_locked_def case_prod_unfold Let_def split: if_splits)
  then show ?thesis
    by (simp add: finitely_many_changes_def sim_fewer Let_def case_prod_unfold)
qed

theorem command_terminates_witness:
  "\<exists>r. laser_scsi_cdb sim_host 42 (Some read_10_cdb) 10 (Some (replicate 2048 0)) 2048 True (Some 0)
     (sim_sys sim_entry (check_condition 2 4 1)) = Some r"
  by (rule command_terminates [OF sim_clock_monotonic sim_finitely_many_changes])

end
