(* ===== verification/Replay.thy ===== *)
theory Replay
  imports Command_Props
begin

text \<open>
  When the command primitive hands a command to the drive a second time. laser.h promises that a
  command that changes CSS authentication state is not sent again once its wrapper has reached
  the drive; the two ways the code breaks that promise are stated here for every host: a
  wrapper that moved whole in a transfer that failed, and a medium change reported after a
  spin-up.
\<close>

definition times_offered :: "byte list \<Rightarrow> event list \<Rightarrow> nat" where
  "times_offered c evs = length (filter (offers c) evs)"

lemma times_offered_simps [simp]:
  "times_offered c [] = 0"
  "times_offered c (ev # evs) = (if offers c ev then 1 else 0) + times_offered c evs"
  "times_offered c (xs @ ys) = times_offered c xs + times_offered c ys"
  by (simp_all add: times_offered_def)

lemma times_offered_pos: "ev \<in> set evs \<Longrightarrow> offers c ev \<Longrightarrow> 1 \<le> times_offered c evs"
  by (induction evs) auto

lemma lost_offers: "lost c ev \<Longrightarrow> offers c ev"
  by (simp add: lost_def took_def)

section \<open>An attempt that is not cancelled offers its command\<close>

lemma attempt_offers:
  assumes run: "cdb_attempt (laser_bot_send_locked h) h cdb n len inward idempotent L d = (res, L', d')"
    and len: "0 \<le> n" "n \<le> 16"
    and other: "pad16 (take (nat n) cdb) \<noteq> pad16 request_sense_cdb"
  shows "if fst (laser_is_cancelled h d) then res = Some LASER_ERR_CANCELLED
    else \<exists>ev evs. trace d' = trace d @ ev # evs \<and> offers (take (nat n) cdb) ev"
  using run
proof (cases rule: cdb_attempt_cases)
  case cancelled
  then show ?thesis by simp
next
  case (ok d1 t d2 out d3)
  with bot_send_offers [OF len, of h cdb "c_data L" len inward "c_actual L" "Some (-1)" d2]
    is_cancelled_clock_trace [OF ok(1,2)]
  show ?thesis by (auto simp: sample_throughput_frame)
next
  case (gone d1 t d2 out d3)
  with bot_send_offers [OF len, of h cdb "c_data L" len inward "c_actual L" "Some (-1)" d2]
    is_cancelled_clock_trace [OF gone(1,2)]
  show ?thesis by auto
next
  case (failed d1 t d2 out d3 sn d4)
  obtain ev evs where out: "trace d3 = trace d2 @ ev # evs" "offers (take (nat n) cdb) ev"
    using bot_send_offers [OF len, of h cdb "c_data L" len inward "c_actual L" "Some (-1)" d2]
      failed(3) by auto
  obtain evs2 where "trace d4 = trace d3 @ evs2"
    using bot.cdb_sense_taken [OF other, of h out d3] failed(6) by auto
  moreover obtain evs3 where "trace d' = trace d4 @ evs3"
    using cdb_failed_trace [OF failed(7)] by blast
  ultimately show ?thesis
    using out failed(1) is_cancelled_clock_trace(1) [OF failed(1,2)] by simp
qed

section \<open>Lost wrappers\<close>

text \<open>What a loop's events say of the wrappers lost: the command is offered again after each.\<close>

definition resends :: "byte list \<Rightarrow> int \<Rightarrow> laser_status \<Rightarrow> event list \<Rightarrow> bool" where
  "resends c left st evs \<longleftrightarrow>
     (0 < left \<longrightarrow> st = LASER_ERR_CANCELLED \<or> (\<exists>ev \<in> set evs. offers c ev)) \<and>
     (\<forall>pre ev post. evs = pre @ ev # post \<longrightarrow> lost c ev \<longrightarrow>
        st = LASER_ERR_CANCELLED \<or> left \<le> int (times_offered c (pre @ [ev])) \<or>
        (\<exists>ev' \<in> set post. offers c ev'))"

lemma resends_last:
  assumes "\<And>ev. ev \<in> set evs \<Longrightarrow> \<not> lost c ev"
    and "st = LASER_ERR_CANCELLED \<or> (\<exists>ev \<in> set evs. offers c ev)"
  shows "resends c left st evs"
  using assms unfolding resends_def by fastforce

lemma resends_more:
  assumes rest: "resends c (left' - 1) st evs2" and left: "left \<le> left'"
    and some: "\<exists>ev \<in> set evs1. offers c ev"
    and same: "\<And>ev. ev \<in> set evs1 \<Longrightarrow> lost c ev \<Longrightarrow> left' = left"
  shows "resends c left st (evs1 @ evs2)"
  unfolding resends_def
proof (intro conjI impI allI)
  show "st = LASER_ERR_CANCELLED \<or> (\<exists>ev \<in> set (evs1 @ evs2). offers c ev)" using some by auto
next
  fix pre ev post
  assume split: "evs1 @ evs2 = pre @ ev # post" and ev: "lost c ev"
  then consider us where "evs1 = pre @ ev # us" "post = us @ evs2"
    | us where "pre = evs1 @ us" "evs2 = us @ ev # post"
    by (auto simp: append_eq_append_conv2 append_eq_Cons_conv)
  then show "st = LASER_ERR_CANCELLED \<or> left \<le> int (times_offered c (pre @ [ev])) \<or>
      (\<exists>ev' \<in> set post. offers c ev')"
  proof cases
    case 1
    then have "left' = left" using same [OF _ ev] by simp
    with rest have "0 < left - 1 \<longrightarrow> st = LASER_ERR_CANCELLED \<or> (\<exists>ev \<in> set evs2. offers c ev)"
      by (simp add: resends_def)
    moreover have "1 \<le> times_offered c (pre @ [ev])" using lost_offers [OF ev] by simp
    ultimately show ?thesis using 1(2) by force
  next
    case 2
    from some have "1 \<le> times_offered c evs1" by (auto dest: times_offered_pos)
    moreover from rest 2(2) ev have "st = LASER_ERR_CANCELLED \<or>
        left' - 1 \<le> int (times_offered c (us @ [ev])) \<or> (\<exists>ev' \<in> set post. offers c ev')"
      unfolding resends_def by blast
    ultimately show ?thesis using 2(1) left by auto
  qed
qed

text \<open>Induction along the passes of one run of the loop, from its last back to its first.\<close>

lemma cdb_loop_induct:
  assumes loop: "cdb_loop send h cdb n len inward idempotent L d = Some (st, L', d')"
    and exhausted: "\<And>L d. LASER_MAX_RETRIES < attempt L \<Longrightarrow> P L d (LASER_ERR_IO, L, d)"
    and stop: "\<And>L d st L' d'. attempt L \<le> LASER_MAX_RETRIES \<Longrightarrow>
      cdb_attempt send h cdb n len inward idempotent L d = (Some st, L', d') \<Longrightarrow> P L d (st, L', d')"
    and step: "\<And>L d L1 d1 r. attempt L \<le> LASER_MAX_RETRIES \<Longrightarrow>
      cdb_attempt send h cdb n len inward idempotent L d = (None, L1, d1) \<Longrightarrow>
      P (L1\<lparr>attempt := attempt L1 + 1\<rparr>) d1 r \<Longrightarrow> P L d r"
  shows "P L d (st, L', d')"
proof -
  let ?P = "\<lambda>s h' c n' l i idem L d r. s = send \<and> h' = h \<and> c = cdb \<and> n' = n \<and> l = len \<and>
    i = inward \<and> idem = idempotent \<longrightarrow> P L d r"
  have "?P send h cdb n len inward idempotent L d (st, L', d')"
  proof (rule cdb_loop.raw_induct [OF _ loop, where P = ?P], intro impI)
    fix rec s h' c n' l i idem L d r
    assume 1: "\<And>s h' c n' l i idem L d r. rec s h' c n' l i idem L d = Some r \<Longrightarrow>
        ?P s h' c n' l i idem L d r"
      "(if LASER_MAX_RETRIES < attempt L then Some (LASER_ERR_IO, L, d)
        else case cdb_attempt s h' c n' l i idem L d of
            (None, L', d') \<Rightarrow> rec s h' c n' l i idem (L'\<lparr>attempt := attempt L' + 1\<rparr>) d'
          | (Some st, L', d') \<Rightarrow> Some (st, L', d')) = Some r"
      and eq: "s = send \<and> h' = h \<and> c = cdb \<and> n' = n \<and> l = len \<and> i = inward \<and> idem = idempotent"
    obtain res L1 d1 where a: "cdb_attempt send h cdb n len inward idempotent L d = (res, L1, d1)"
      by (metis prod_cases3)
    show "P L d r"
    proof (cases "LASER_MAX_RETRIES < attempt L")
      case True
      with 1(2) have "r = (LASER_ERR_IO, L, d)" by simp
      with exhausted [OF True] show ?thesis by simp
    next
      case False
      then have le: "attempt L \<le> LASER_MAX_RETRIES" by simp
      show ?thesis
      proof (cases res)
        case None
        with 1(2) eq a False
        have "rec send h cdb n len inward idempotent (L1\<lparr>attempt := attempt L1 + 1\<rparr>) d1 = Some r"
          by simp
        from 1(1) [OF this] have "P (L1\<lparr>attempt := attempt L1 + 1\<rparr>) d1 r" by simp
        then show ?thesis by (rule step [OF le a [unfolded None]])
      next
        case (Some st')
        with 1(2) eq a False have "r = (st', L1, d1)" by simp
        with stop [OF le a [unfolded Some]] show ?thesis by simp
      qed
    qed
  qed
  then show ?thesis by simp
qed

lemma loop_resends:
  assumes loop: "cdb_loop (laser_bot_send_locked h) h cdb n len inward idempotent L d =
      Some (st, L', d')"
    and n: "0 \<le> n" "n \<le> 16" and other: "pad16 (take (nat n) cdb) \<noteq> pad16 request_sense_cdb"
  shows "\<exists>evs. trace d' = trace d @ evs \<and>
    resends (take (nat n) cdb) (LASER_MAX_RETRIES + 1 - attempt L) st evs"
proof -
  let ?c = "take (nat n) cdb"
  let ?P = "\<lambda>L d r. \<exists>evs. trace (snd (snd r)) = trace d @ evs \<and>
    resends ?c (LASER_MAX_RETRIES + 1 - attempt L) (fst r) evs"
  have "?P L d (st, L', d')"
    using loop
  proof (rule cdb_loop_induct [where P = ?P])
    fix L and d :: "'a dev"
    assume "LASER_MAX_RETRIES < attempt L"
    then show "?P L d (LASER_ERR_IO, L, d)" by (simp add: resends_def)
  next
    fix L L' st and d d' :: "'a dev"
    assume a: "cdb_attempt (laser_bot_send_locked h) h cdb n len inward idempotent L d =
      (Some st, L', d')"
    from bot.attempt_grows [OF a other] obtain evs where evs: "trace d' = trace d @ evs"
      "\<And>ev. ev \<in> set evs \<Longrightarrow> \<not> lost ?c ev" by auto
    moreover have "st = LASER_ERR_CANCELLED \<or> (\<exists>ev \<in> set evs. offers ?c ev)"
      using attempt_offers [OF a n other] evs(1) by (auto split: if_splits)
    ultimately show "?P L d (st, L', d')" using resends_last by simp
  next
    fix L L1 r and d d1 :: "'a dev"
    assume a: "cdb_attempt (laser_bot_send_locked h) h cdb n len inward idempotent L d =
      (None, L1, d1)" and "?P (L1\<lparr>attempt := attempt L1 + 1\<rparr>) d1 r"
    then obtain evs2 where rest: "trace (snd (snd r)) = trace d1 @ evs2"
      "resends ?c (LASER_MAX_RETRIES + 1 - attempt L1 - 1) (fst r) evs2" by auto
    from bot.attempt_grows [OF a other] obtain evs1 where evs1: "trace d1 = trace d @ evs1"
      "\<And>ev. ev \<in> set evs1 \<Longrightarrow> lost ?c ev \<Longrightarrow> attempt L1 = attempt L" "attempt L1 \<le> attempt L" by auto
    moreover have "\<exists>ev \<in> set evs1. offers ?c ev"
      using attempt_offers [OF a n other] evs1(1) by (auto split: if_splits)
    ultimately have "resends ?c (LASER_MAX_RETRIES + 1 - attempt L) (fst r) (evs1 @ evs2)"
      by (intro resends_more [OF rest(2)]) auto
    with evs1(1) rest(1) show "?P L d r" by simp
  qed
  then show ?thesis by simp
qed

lemma finish_cancelled: "fst (cdb_finish LASER_ERR_CANCELLED L d) = LASER_ERR_CANCELLED"
  by (simp add: cdb_finish_def cdb_never_left_def cdb_normalise_def)

lemma opcode_not_sense:
  assumes "length cdb = nat n" and "0 < n" and "cdb ! 0 \<noteq> 0x03"
  shows "pad16 (take (nat n) cdb) \<noteq> pad16 request_sense_cdb"
proof -
  have "cdb \<noteq> []" using assms(1,2) by auto
  then have "pad16 (take (nat n) cdb) ! 0 = cdb ! 0" using assms(1) by (simp add: pad16_head)
  moreover have "pad16 request_sense_cdb ! 0 = 0x03"
    by (simp add: pad16_head request_sense_cdb_def)
  ultimately show ?thesis using assms(3) by auto
qed

text \<open>C30: a whole wrapper does not keep a command from being sent again, a command that changes
  CSS authentication state included: after a wrapper of the call's command of which all 31 bytes
  moved, in a bulk transfer that ended in an error other than a timeout or the device leaving,
  the call offers the same command again, unless the entry is cancelled or the command has been
  offered six times. laser.h says that such a command is not repeated once its wrapper has
  reached the drive, laser_internal.h that what is replayed was never executed.\<close>

theorem lost_wrapper_is_sent_again:
  assumes run: "laser_scsi_cdb h tk (Some cdb) n data len inward act s = Some (o', s')"
    and whole: "length cdb = nat n" and command: "cdb ! 0 \<noteq> 0x03"
    and events: "trace s' = trace s @ pre @ Ev_Bulk_Out CBW_Phase hn ep bs ret 31 # post"
    and wrapper: "drop 15 bs = pad16 cdb"
    and failed: "ret \<notin> {LIBUSB_SUCCESS, LIBUSB_ERROR_TIMEOUT, LIBUSB_ERROR_NO_DEVICE}"
  shows "status o' = LASER_ERR_CANCELLED \<or>
    6 \<le> times_offered cdb (pre @ [Ev_Bulk_Out CBW_Phase hn ep bs ret 31]) \<or>
    (\<exists>ev \<in> set post. offers cdb ev)"
  using run
proof (cases rule: scsi_cdb_cases)
  case (ran c i d')
  then have c: "c = cdb" by simp
  let ?ev = "Ev_Bulk_Out CBW_Phase hn ep bs ret 31"
  from ran(7) show ?thesis
  proof (cases rule: bot.entry_call_cases)
    case entry: (ran d1 result L d2)
    have other: "pad16 (take (nat n) cdb) \<noteq> pad16 request_sense_cdb"
      using opcode_not_sense [OF whole ran(2) command] .
    from loop_resends [OF entry(4) _ ran(3)] ran(2) c other whole obtain evs where
      evs: "trace d2 = trace (lock_io h d1) @ evs" "resends cdb 6 result evs"
      by (auto simp: cdb_start_def)
    have "trace s' = trace s @ evs"
      using evs(1) entry(2,6) ran(8) laser_is_cancelled_frame [of h "dev_of i s"]
      by (simp add: bot.finish_trace lock_io_frame)
    then have "evs = pre @ ?ev # post" using events by simp
    moreover have "lost cdb ?ev" using wrapper failed by (simp add: lost_def)
    ultimately have "result = LASER_ERR_CANCELLED \<or> 6 \<le> times_offered cdb (pre @ [?ev]) \<or>
        (\<exists>ev \<in> set post. offers cdb ev)"
      using evs(2) unfolding resends_def by fastforce
    then show ?thesis using entry(5) finish_cancelled by auto
  qed (use ran(8) events laser_is_cancelled_frame [of h "dev_of i s"] in simp_all)
qed (use events in simp_all)

text \<open>
  Sleep times are left alone when the model is evaluated: as numbers of type \<open>nat\<close> they would be
  counted out in successors.
\<close>

definition sleep_us :: "nat \<Rightarrow> nat" where
  "sleep_us ms = ms * 1000"

lemma reset_sleeps [code]:
  "laser_mass_storage_reset h d =
     do_usleep h (sleep_us 100) (do_clear_halt h (ep_out (ent d)) (do_clear_halt h (ep_in (ent d))
       (snd (do_control h USB_BOT_RESET_bmREQUESTTYPE USB_BOT_RESET_bREQUEST
          (iface_num (ent d)) 0 d))))"
  by (simp add: laser_mass_storage_reset_def sleep_us_def Let_def)

lemma cdb_delay_sleeps [code]:
  "cdb_delay h sn L d =
     (if sense_key sn = SCSI_SENSE_KEY_UNIT_ATTENTION then d
      else if attempt L < LASER_MAX_RETRIES then do_usleep h (sleep_us 500) d
      else d)"
  by (simp add: cdb_delay_def sleep_us_def)

declare sleep_us_def [code del]

text \<open>REPORT KEY: its wrapper moves whole but the transfer fails, then the drive answers.\<close>

definition lost_script :: "answer list" where
  "lost_script = [Refuse LIBUSB_ERROR_IO 31, Answer [0, 6, 0, 0, 0, 0, 0, 0x40] 0]"

definition lost_wrapper_event :: "event \<Rightarrow> bool" where
  "lost_wrapper_event ev =
     (case ev of Ev_Bulk_Out CBW_Phase hn ep bs ret n \<Rightarrow>
        drop 15 bs = pad16 agid_cdb \<and> ret = LIBUSB_ERROR_IO \<and> n = 31 | _ \<Rightarrow> False)"

lemma lost_run:
  "map_option (\<lambda>(o', s'). (status o', times_taken agid_cdb (trace s'),
       trace s' \<noteq> [] \<and> lost_wrapper_event (hd (trace s'))))
     (run_agid (sim_entry\<lparr>css_open := True\<rparr>) lost_script) = Some (LASER_OK, 2, True)"
  by code_simp

text \<open>A call in which the drive has a key command handed over twice and which answers OK.\<close>

theorem lost_wrapper_is_sent_again_witness:
  "\<exists>o' s' ev post. run_agid (sim_entry\<lparr>css_open := True\<rparr>) lost_script = Some (o', s') \<and>
    status o' = LASER_OK \<and> laser_cdb_changes_css_state agid_cdb 12 \<and>
    trace s' = ev # post \<and> lost agid_cdb ev \<and> times_taken agid_cdb (ev # post) = 2 \<and>
    (\<exists>ev' \<in> set post. offers agid_cdb ev')"
proof -
  obtain o' s' where run: "run_agid (sim_entry\<lparr>css_open := True\<rparr>) lost_script = Some (o', s')"
    and ok: "status o' = LASER_OK" and two: "times_taken agid_cdb (trace s') = 2"
    and first: "trace s' \<noteq> []" "lost_wrapper_event (hd (trace s'))"
    using lost_run by (auto simp: case_prod_unfold)
  obtain hn ep bs where ev: "hd (trace s') = Ev_Bulk_Out CBW_Phase hn ep bs LIBUSB_ERROR_IO 31"
    and bs: "drop 15 bs = pad16 agid_cdb"
    using first(2) by (auto simp: lost_wrapper_event_def split: event.splits phase.splits)
  let ?ev = "Ev_Bulk_Out CBW_Phase hn ep bs LIBUSB_ERROR_IO 31"
  have tr: "trace s' = ?ev # tl (trace s')" using first(1) ev by (cases "trace s'") simp_all
  then have events: "trace s' = trace (sim_sys (sim_entry\<lparr>css_open := True\<rparr>) lost_script) @ [] @
      ?ev # tl (trace s')"
    by (simp add: sim_sys_def)
  have "status o' = LASER_ERR_CANCELLED \<or> 6 \<le> times_offered agid_cdb ([] @ [?ev]) \<or>
      (\<exists>ev' \<in> set (tl (trace s')). offers agid_cdb ev')"
    by (rule lost_wrapper_is_sent_again [OF run [unfolded run_agid_def] _ _ events bs])
      (simp_all add: agid_cdb_def)
  then have "\<exists>ev' \<in> set (tl (trace s')). offers agid_cdb ev'" using ok by (simp split: if_splits)
  moreover have "lost agid_cdb ?ev" using bs by (simp add: lost_def)
  moreover have "laser_cdb_changes_css_state agid_cdb 12" by code_simp
  moreover have "times_taken agid_cdb (?ev # tl (trace s')) = 2" using two tr by metis
  ultimately show ?thesis using run ok tr by blast
qed

section \<open>A medium change after a spin-up\<close>

lemma loop_unfold:
  assumes "cdb_loop send h cdb n len inward idempotent L d = Some r"
    and "attempt L \<le> LASER_MAX_RETRIES"
    and "cdb_attempt send h cdb n len inward idempotent L d = (None, L1, d1)"
  shows "cdb_loop send h cdb n len inward idempotent (L1\<lparr>attempt := attempt L1 + 1\<rparr>) d1 = Some r"
  using assms by (simp add: cdb_loop.simps [of send h cdb n len inward idempotent L d])

lemma loop_offers:
  assumes loop: "cdb_loop (laser_bot_send_locked h) h cdb n len inward idempotent L d =
      Some (st, L', d')"
    and n: "0 \<le> n" "n \<le> 16" and other: "pad16 (take (nat n) cdb) \<noteq> pad16 request_sense_cdb"
    and left: "attempt L \<le> LASER_MAX_RETRIES" and alive: "\<not> fst (laser_is_cancelled h d)"
  shows "\<exists>ev evs. trace d' = trace d @ ev # evs \<and> offers (take (nat n) cdb) ev"
proof -
  obtain res L1 d1 where a: "cdb_attempt (laser_bot_send_locked h) h cdb n len inward idempotent
      L d = (res, L1, d1)" by (metis prod_cases3)
  obtain ev evs where first: "trace d1 = trace d @ ev # evs" "offers (take (nat n) cdb) ev"
    using attempt_offers [OF a n other] alive by auto
  show ?thesis
  proof (cases res)
    case None
    obtain evs2 where "trace d' = trace d1 @ evs2"
      using loop_resends [OF loop_unfold [OF loop left a [unfolded None]] n other] by blast
    with first show ?thesis by simp
  next
    case (Some st')
    with loop left a have "d' = d1"
      by (simp add: cdb_loop.simps [of _ h cdb n len inward idempotent L d])
    with first show ?thesis by blast
  qed
qed

lemma check_condition_attempt:
  assumes alive: "laser_is_cancelled h d = (False, d1)"
    and sent: "laser_bot_send_locked h cdb n (c_data L) len inward (c_actual L) (Some (-1))
      (snd (do_clock h d1)) = (out, d3)"
    and answered: "csw_status out = Some (uint USB_BOT_STATUS_FAIL)"
    and sense: "request_sense_locked (laser_bot_send_locked h) no_sense d3 = ((r, sn), d4)"
  shows "cdb_attempt (laser_bot_send_locked h) h cdb n len inward idempotent L d =
    cdb_failed h idempotent BOT_FAIL sn (after_failure out L) d4" and "rc out = BOT_FAIL"
proof -
  show fail: "rc out = BOT_FAIL"
    using bot.send_check [of h cdb n "c_data L" len inward "c_actual L" "-1" "snd (do_clock h d1)"]
      sent answered by simp
  have "cdb_sense (laser_bot_send_locked h) out d3 = (sn, d4)"
    using fail answered sense by (simp add: cdb_sense_def)
  then show "cdb_attempt (laser_bot_send_locked h) h cdb n len inward idempotent L d =
      cdb_failed h idempotent BOT_FAIL sn (after_failure out L) d4"
    using alive sent fail
    by (simp add: cdb_attempt_def cdb_transact_def after_failure_def Let_def case_prod_unfold)
qed

text \<open>C40: the exception on the drive's side, against the same promise of laser.h: on any host,
  in any pass of the loop, once the drive has been becoming ready in this call or the spin-up
  wait of an earlier one had given up, a key command that the drive has taken and answered with
  CHECK CONDITION, and with "medium may have changed" (28h/00h) for a reason, is offered to the
  drive again, unless the entry is cancelled in between; and no attempt is counted for it.\<close>

theorem key_command_replayed_after_spin_up:
  assumes loop: "cdb_loop (laser_bot_send_locked h) h cdb n len inward False L d =
      Some (result, L', d')"
    and key: "laser_cdb_changes_css_state cdb n" and n: "n \<le> 16" and whole: "length cdb = nat n"
    and left: "attempt L \<le> LASER_MAX_RETRIES"
    and spun_up: "becoming_ready L \<or> not_ready (ent d)"
    and alive: "laser_is_cancelled h d = (False, d1)"
    and sent: "laser_bot_send_locked h cdb n (c_data L) len inward (c_actual L) (Some (-1))
      (snd (do_clock h d1)) = (out, d3)"
    and answered: "csw_status out = Some (uint USB_BOT_STATUS_FAIL)"
    and sense: "request_sense_locked (laser_bot_send_locked h) no_sense d3 = ((r, sn), d4)"
    and changed: "asc sn = 0x28" "ascq sn = 0x00"
    and still: "\<not> fst (laser_is_cancelled h (upd_ent (\<lambda>e. e\<lparr>not_ready := False\<rparr>) d4))"
  shows "\<exists>L1 d5 pre ev post.
    cdb_attempt (laser_bot_send_locked h) h cdb n len inward False L d = (None, L1, d5) \<and>
    attempt L1 + 1 = attempt L \<and> trace d5 = trace d @ pre \<and> times_taken cdb pre = 1 \<and>
    trace d' = trace d5 @ ev # post \<and> offers cdb ev"
proof -
  let ?L1 = "(after_failure out L)\<lparr>becoming_ready := False, attempt := attempt L - 1\<rparr>"
  let ?d5 = "upd_ent (\<lambda>e. e\<lparr>not_ready := False\<rparr>) d4"
  have c: "take (nat n) cdb = cdb" using whole by simp
  have other: "pad16 cdb \<noteq> pad16 request_sense_cdb"
    using key_command_not_sense [OF key] whole by simp
  note attempt = check_condition_attempt [OF alive sent answered sense]
  have frames: "not_ready (ent d4) = not_ready (ent d)"
    using entry_frameD(14) [OF bot.send_frame] entry_frameD(14) [OF bot.request_sense_frame]
      is_cancelled_same(2) [of h d] alive sent sense do_clock_frame(1) [of h d1]
    by (metis snd_conv)
  have decide: "cdb_decide False True BOT_FAIL sn = Now_Ready"
    using changed by (simp add: cdb_decide_def)
  have pass: "cdb_attempt (laser_bot_send_locked h) h cdb n len inward False L d =
      (None, ?L1, ?d5)"
    unfolding attempt(1) cdb_failed_def
    using spun_up frames decide by (simp add: after_failure_def)
  obtain evs where evs: "trace d3 = trace (snd (do_clock h d1)) @ evs"
    "bot_promise (ent (snd (do_clock h d1))) BOT_FAIL evs" "only_takes cdb evs"
    using bot.send_trace [of h cdb n "c_data L" len inward "c_actual L" "Some (-1)"
        "snd (do_clock h d1)"] sent attempt(2) c by auto
  obtain evs2 where evs2: "trace d4 = trace d3 @ evs2" "times_taken cdb evs2 = 0"
    using bot.request_sense_taken [OF other, of h no_sense d3] sense by auto
  have d5: "trace ?d5 = trace d @ evs @ evs2"
    using evs(1) evs2(1) is_cancelled_clock_trace(1) [OF alive prod.collapse [symmetric]] by simp
  have one: "times_taken cdb (evs @ evs2) = 1"
    using evs(2,3) evs2(2) times_taken_only by (simp add: bot_promise_def)
  have next_pass: "attempt (?L1\<lparr>attempt := attempt ?L1 + 1\<rparr>) \<le> LASER_MAX_RETRIES"
    using left by simp
  have "0 \<le> n" using key_command_length [OF key] by simp
  from loop_offers [OF loop_unfold [OF loop left pass] this n _ next_pass still] other c
  obtain ev post where "trace d' = trace ?d5 @ ev # post" "offers cdb ev" by auto
  with pass d5 one show ?thesis
    by (intro exI [of _ ?L1] exI [of _ ?d5] exI [of _ "evs @ evs2"] exI [of _ ev] exI [of _ post])
      simp
qed

text \<open>REPORT KEY answered 06h/28h/00h after a spin-up wait that gave up: taken twice, and OK.\<close>

definition change_script :: "answer list" where
  "change_script = check_condition 6 0x28 0 @ [Answer [0, 6, 0, 0, 0, 0, 0, 0x40] 0]"

definition spun_dev :: "sim dev" where
  "spun_dev = (sim_dev change_script)\<lparr>ent := sim_entry\<lparr>css_open := True, not_ready := True\<rparr>\<rparr>"

lemma change_run:
  "map_option (\<lambda>(o', s'). (status o', times_taken agid_cdb (trace s')))
     (run_agid (sim_entry\<lparr>css_open := True, not_ready := True\<rparr>) change_script) = Some (LASER_OK, 2)"
  by code_simp

abbreviation agid_locals :: cdb_locals where
  "agid_locals \<equiv> cdb_start (Some (replicate 8 0)) (Some 0)"

abbreviation agid_sent :: "bot_out \<times> sim dev" where
  "agid_sent \<equiv> laser_bot_send_locked sim_host agid_cdb 12 (c_data agid_locals) 8 True
     (c_actual agid_locals) (Some (-1))
     (snd (do_clock sim_host (snd (laser_is_cancelled sim_host spun_dev))))"

abbreviation agid_sense :: "(int \<times> sense) \<times> sim dev" where
  "agid_sense \<equiv> request_sense_locked (laser_bot_send_locked sim_host) no_sense (snd agid_sent)"

lemma change_steps:
  "\<not> fst (laser_is_cancelled sim_host spun_dev)"
  "csw_status (fst agid_sent) = Some (uint USB_BOT_STATUS_FAIL)"
  "asc (snd (fst agid_sense)) = 0x28" "ascq (snd (fst agid_sense)) = 0x00"
  "\<not> fst (laser_is_cancelled sim_host (upd_ent (\<lambda>e. e\<lparr>not_ready := False\<rparr>) (snd agid_sense)))"
  by code_simp+

lemma change_loop:
  "cdb_loop (laser_bot_send_locked sim_host) sim_host agid_cdb 12 8 True False agid_locals
     spun_dev \<noteq> None"
  by code_simp

theorem key_command_replayed_after_spin_up_witness:
  "map_option (\<lambda>(o', s'). (status o', times_taken agid_cdb (trace s')))
     (run_agid (sim_entry\<lparr>css_open := True, not_ready := True\<rparr>) change_script) =
     Some (LASER_OK, 2) \<and>
   (\<exists>L1 d5 pre ev post.
      cdb_attempt (laser_bot_send_locked sim_host) sim_host agid_cdb 12 8 True False agid_locals
        spun_dev = (None, L1, d5) \<and>
      attempt L1 + 1 = attempt agid_locals \<and> trace d5 = trace spun_dev @ pre \<and>
      times_taken agid_cdb pre = 1 \<and>
      trace (snd (snd (the (cdb_loop (laser_bot_send_locked sim_host) sim_host agid_cdb 12 8 True
        False agid_locals spun_dev)))) = trace d5 @ ev # post \<and> offers agid_cdb ev)"
proof -
  obtain result L' d' where loop: "cdb_loop (laser_bot_send_locked sim_host) sim_host agid_cdb 12 8
      True False agid_locals spun_dev = Some (result, L', d')"
    using change_loop by (metis option.exhaust prod_cases3)
  have alive: "laser_is_cancelled sim_host spun_dev =
      (False, snd (laser_is_cancelled sim_host spun_dev))"
    using change_steps(1) by (metis prod.collapse)
  have sense: "agid_sense = ((fst (fst agid_sense), snd (fst agid_sense)), snd agid_sense)"
    by (simp only: prod.collapse)
  have key: "laser_cdb_changes_css_state agid_cdb 12" by code_simp
  have "\<exists>L1 d5 pre ev post.
      cdb_attempt (laser_bot_send_locked sim_host) sim_host agid_cdb 12 8 True False agid_locals
        spun_dev = (None, L1, d5) \<and>
      attempt L1 + 1 = attempt agid_locals \<and> trace d5 = trace spun_dev @ pre \<and>
      times_taken agid_cdb pre = 1 \<and> trace d' = trace d5 @ ev # post \<and> offers agid_cdb ev"
    by (rule key_command_replayed_after_spin_up [OF loop key _ _ _ _ alive
          prod.collapse [symmetric] change_steps(2) sense change_steps(3,4,5)])
      (simp_all add: agid_cdb_def cdb_start_def spun_dev_def)
  with loop change_run show ?thesis by simp
qed

end
