(* ===== verification/Livelock.thy ===== *)
theory Livelock
  imports Sample_Runs Command_Total
begin

text \<open>
  The command loop need not end. A drive that answers a command in turn "becoming ready"
  (02h/04h/01h) and "medium may have changed" (06h/28h/00h) has every attempt given back: the
  first because the drive is to be waited for, the second because it follows the first. The
  comment on the second branch says this happens once only.
\<close>

record flip =
  change_next :: bool
  queue :: "byte list list"
  clock_ns :: int

definition flip_sense :: "bool \<Rightarrow> byte list" where
  "flip_sense change =
     (if change then sense_bytes 6 0x28 0 else sense_bytes 2 4 1) @ replicate 6 0"

text \<open>Every REQUEST SENSE is answered, with the other sense each time; any other command fails.\<close>

definition flip_bulk_out ::
  "handle \<Rightarrow> byte \<Rightarrow> byte list \<Rightarrow> nat \<Rightarrow> flip \<Rightarrow> (libusb_ret \<times> nat) \<times> flip" where
  "flip_bulk_out hn ep bs t w =
     ((LIBUSB_SUCCESS, length bs),
      if bs ! 15 = 0x03 then
        w\<lparr>queue := [flip_sense (change_next w), sim_csw bs 0], change_next := \<not> change_next w\<rparr>
      else w\<lparr>queue := [sim_csw bs 1]\<rparr>)"

definition flip_bulk_in ::
  "handle \<Rightarrow> byte \<Rightarrow> nat \<Rightarrow> nat \<Rightarrow> flip \<Rightarrow> (libusb_ret \<times> byte list) \<times> flip" where
  "flip_bulk_in hn ep len t w =
     (case queue w of
        [] \<Rightarrow> ((LIBUSB_ERROR_TIMEOUT, []), w)
      | bs # rest \<Rightarrow> ((LIBUSB_SUCCESS, take len bs), w\<lparr>queue := rest\<rparr>))"

definition flip_host :: "flip host" where
  "flip_host = \<lparr>bulk_out = flip_bulk_out, bulk_in = flip_bulk_in,
     clear_halt = (\<lambda>hn ep w. (LIBUSB_SUCCESS, w)),
     control_transfer = (\<lambda>hn a b c len w. ((int len, replicate len 0), w)),
     clock_gettime = (\<lambda>w. (\<lparr>tv_sec = clock_ns w div 1000000000,
                             tv_nsec = clock_ns w mod 1000000000\<rparr>, w)),
     usleep = (\<lambda>us w. w\<lparr>clock_ns := clock_ns w + int us * 1000\<rparr>),
     other_threads = (\<lambda>e w. (e, w)), other_cancel = (\<lambda>w. (False, w)),
     fstat = (\<lambda>fd w. (None, w)), pthread_init = (\<lambda>r w. (True, w)),
     condattr_setclock = (\<lambda>w. (True, w)),
     libusb_init_context = (\<lambda>w. ((LIBUSB_SUCCESS, 1), w)),
     libusb_wrap_sys_device = (\<lambda>c fd w. ((LIBUSB_SUCCESS, 7), w)),
     libusb_get_device_descriptor = (\<lambda>hn w. (None, w)),
     libusb_get_active_config_descriptor = (\<lambda>hn w. (None, w)),
     libusb_kernel_driver_active = (\<lambda>hn i w. (0, w)),
     libusb_interface = (\<lambda>op hn i w. (LIBUSB_SUCCESS, w)),
     libusb_close = (\<lambda>hn w. w), libusb_exit = (\<lambda>c w. w)\<rparr>"

lemma flip_clock: "clock_monotonic flip_host clock_ns"
proof -
  have "clock_ns w \<le> clock_ns (snd (flip_bulk_in hn ep len t w))" for hn ep len t w
    by (simp add: flip_bulk_in_def split: list.split)
  moreover have "clock_ns w \<le> clock_ns (snd (flip_bulk_out hn ep bs t w))" for hn ep bs t w
    by (simp add: flip_bulk_out_def)
  ultimately show ?thesis
    by (auto simp: clock_monotonic_def host_rel_def flip_host_def Let_def intro: reflpI transpI)
qed

lemma CBWCB_nonempty: "cdb_len \<le> 16 \<Longrightarrow> CBWCB (build_cbw e cdb cdb_len n i) \<noteq> []"
  using length_build_cbw [of cdb_len e cdb n i] by (metis length_0_conv zero_neq_numeral)

lemmas flip_simps = flip_host_def flip_bulk_out_def flip_bulk_in_def sim_csw_def cbw_bytes_tag
  cbw_bytes_opcode CBWCB_nonempty length_cbw_bytes csw_of_csw_bytes bot_clear_stall_def

lemma flip_command_fails:
  assumes "queue (world d) = []"
  shows "\<exists>d'. laser_bot_send_locked flip_host test_unit_ready_cdb 6 None 0 False None (Some (-1)) d =
      (\<lparr>rc = BOT_FAIL, buf = None, actual_len = None, csw_status = Some 1\<rparr>, d') \<and>
    world d' = world d \<and> ent d' = (ent d)\<lparr>tag := tag (ent d) + 1\<rparr>"
proof -
  have op: "CBWCB (build_cbw e test_unit_ready_cdb 6 n i) ! 0 = 0" for e n i
    by (simp add: CBWCB_build_cbw pad16_def write_prefix_def test_unit_ready_cdb_def)
  have "dCBWTag (build_cbw e c k n i) = tag e" for e c k n i
    by (simp add: build_cbw_def)
  with assms op show ?thesis
    by (simp add: laser_bot_send_locked_def bot_cbw_phase_def do_bulk_out_def bot_data_phase_def
        bot_csw_phase_def bot_csw_read_def do_bulk_in_def bot_finish_def Let_def flip_simps
        upd_ent_def)
qed

lemma flip_sense_answers:
  assumes "queue (world d) = []"
  shows "\<exists>d' r. request_sense_locked (laser_bot_send_locked flip_host) no_sense d =
      ((r, if change_next (world d) then \<lparr>sense_key = 6, asc = 0x28, ascq = 0\<rparr>
           else \<lparr>sense_key = 2, asc = 4, ascq = 1\<rparr>), d') \<and>
    world d' = (world d)\<lparr>change_next := \<not> change_next (world d)\<rparr> \<and>
    ent d' = (ent d)\<lparr>tag := tag (ent d) + 1\<rparr>"
proof -
  have op: "CBWCB (build_cbw e request_sense_cdb 6 n i) ! 0 = 3" for e n i
    by (simp add: CBWCB_build_cbw pad16_def write_prefix_def request_sense_cdb_def)
  have "dCBWTag (build_cbw e c k n i) = tag e" for e c k n i
    by (simp add: build_cbw_def)
  with assms op show ?thesis
    by (simp add: request_sense_locked_def laser_bot_send_locked_def bot_cbw_phase_def
        do_bulk_out_def bot_data_phase_def bot_data_transfer_def bot_residue_def
        bot_csw_phase_def bot_csw_read_def do_bulk_in_def bot_finish_def Let_def flip_simps
        upd_ent_def flip_sense_def sense_bytes_def write_prefix_def)
qed


text \<open>The two states the loop goes back and forth between.\<close>

definition flip_state :: "cdb_locals \<Rightarrow> flip dev \<Rightarrow> bool" where
  "flip_state L d \<longleftrightarrow> attempt L = 1 \<and> queue (world d) = [] \<and>
     becoming_ready L = change_next (world d) \<and> \<not> not_ready (ent d) \<and> \<not> cancelled (ent d) \<and>
     c_data L = None \<and> c_actual L = None"

lemma flip_wait:
  assumes "\<not> becoming_ready L"
  shows "\<exists>t d'. cdb_wait_ready flip_host sn L d =
      (L\<lparr>becoming_ready := True, becoming_ready_since := t, attempt := attempt L - 1\<rparr>, d') \<and>
    queue (world d') = queue (world d) \<and> change_next (world d') = change_next (world d) \<and>
    ent d' = ent d"
  using assms
  by (intro exI [of _ "\<lparr>tv_sec = clock_ns (world d) div 1000000000,
        tv_nsec = clock_ns (world d) mod 1000000000\<rparr>"])
    (simp add: cdb_wait_ready_def do_clock_def ms_since_def monotonic_ms_since_def do_usleep_def
      flip_host_def)

lemma flip_attempt:
  assumes "flip_state L d"
  shows "\<exists>L' d'. cdb_attempt (laser_bot_send_locked flip_host) flip_host test_unit_ready_cdb 6 0
      False True L d = (None, L', d') \<and> flip_state (L'\<lparr>attempt := attempt L' + 1\<rparr>) d'"
proof -
  have c: "laser_is_cancelled flip_host d = (False, d)"
    using assms by (simp add: laser_is_cancelled_def flip_host_def flip_state_def)
  obtain t where t: "do_clock flip_host d = (t, d)"
    by (simp add: do_clock_def flip_host_def)
  obtain d1 where send: "laser_bot_send_locked flip_host test_unit_ready_cdb 6 None 0 False None
      (Some (-1)) d = (\<lparr>rc = BOT_FAIL, buf = None, actual_len = None, csw_status = Some 1\<rparr>, d1)"
    and d1: "world d1 = world d" "ent d1 = (ent d)\<lparr>tag := tag (ent d) + 1\<rparr>"
    using flip_command_fails [of d] assms by (auto simp: flip_state_def)
  obtain d2 r where sense: "request_sense_locked (laser_bot_send_locked flip_host) no_sense d1 =
      ((r, if change_next (world d) then \<lparr>sense_key = 6, asc = 0x28, ascq = 0\<rparr>
           else \<lparr>sense_key = 2, asc = 4, ascq = 1\<rparr>), d2)"
    and d2: "world d2 = (world d)\<lparr>change_next := \<not> change_next (world d)\<rparr>"
      "ent d2 = (ent d1)\<lparr>tag := tag (ent d1) + 1\<rparr>"
    using flip_sense_answers [of d1] d1 assms by (auto simp: flip_state_def)
  show ?thesis
  proof (cases "change_next (world d)")
    case True
    with assms c t send d1 sense d2 show ?thesis
      by (simp add: cdb_attempt_def cdb_transact_def Let_def cdb_sense_def cdb_failed_def cdb_decide_def flip_state_def)
  next
    case False
    then have "\<not> becoming_ready (L\<lparr>attempts_made := attempt L, c_data := None, c_actual := None\<rparr>)"
      using assms by (simp add: flip_state_def)
    from flip_wait [OF this, of "\<lparr>sense_key = 2, asc = 4, ascq = 1\<rparr>" d2]
    obtain t' d3 where "cdb_wait_ready flip_host \<lparr>sense_key = 2, asc = 4, ascq = 1\<rparr>
        (L\<lparr>attempts_made := attempt L, c_data := None, c_actual := None\<rparr>) d2 =
        (L\<lparr>attempts_made := attempt L, c_data := None, c_actual := None, becoming_ready := True,
           becoming_ready_since := t', attempt := attempt L - 1\<rparr>, d3)"
      "queue (world d3) = queue (world d2)" "change_next (world d3) = change_next (world d2)"
      "ent d3 = ent d2"
      by auto
    with False assms c t send d1 sense d2 show ?thesis
      by (simp add: cdb_attempt_def cdb_transact_def Let_def cdb_sense_def cdb_failed_def cdb_decide_def flip_state_def)
  qed
qed

lemma flip_loop:
  assumes "flip_state L d"
  shows "cdb_loop (laser_bot_send_locked flip_host) flip_host test_unit_ready_cdb 6 0 False True L d =
    None"
proof (rule ccontr)
  assume "\<not> ?thesis"
  then obtain st L' d' where "cdb_loop (laser_bot_send_locked flip_host) flip_host
      test_unit_ready_cdb 6 0 False True L d = Some (st, L', d')"
    by (metis not_None_eq prod_cases3)
  then show False
  proof (rule cdb_loop_invariant [where I = flip_state and Q = "\<lambda>_ _ _. False"])
    show "flip_state L d" by (rule assms)
  next
    fix L d L' d'
    assume "flip_state L d" "cdb_attempt (laser_bot_send_locked flip_host) flip_host
      test_unit_ready_cdb 6 0 False True L d = (None, L', d')"
    then show "flip_state (L'\<lparr>attempt := attempt L' + 1\<rparr>) d'"
      using flip_attempt [of L d] by auto
  next
    fix L d st L' d'
    assume "flip_state L d" "cdb_attempt (laser_bot_send_locked flip_host) flip_host
      test_unit_ready_cdb 6 0 False True L d = (Some st, L', d')"
    then show False using flip_attempt [of L d] by auto
  qed (simp add: flip_state_def)
qed

definition flip_sys :: "flip sys" where
  "flip_sys = \<lparr>world = \<lparr>change_next = False, queue = [], clock_ns = 0\<rparr>, trace = [],
     g_entries = sim_entry # replicate 7 zero_entry\<rparr>"

text \<open>C39: a counterexample to the bounded retries the header promises: on a drive whose clock runs
  but which alternates "becoming ready" with "medium may have changed", a TEST UNIT READY never
  returns.\<close>

theorem command_livelock:
  "clock_monotonic flip_host clock_ns \<and>
   laser_scsi_cdb flip_host 42 (Some test_unit_ready_cdb) 6 None 0 False None flip_sys = None"
proof
  show "clock_monotonic flip_host clock_ns" by (rule flip_clock)
  let ?d = "dev_of 0 flip_sys"
  have slot: "laser_lookup 42 flip_sys = Some 0"
    by (simp add: laser_lookup_def flip_sys_def sim_entry_def zero_entry_def)
  have c: "laser_is_cancelled flip_host ?d = (False, ?d)"
    by (simp add: laser_is_cancelled_def flip_host_def flip_sys_def sim_entry_def zero_entry_def
        Let_def)
  have "flip_state (cdb_start None None) (lock_io flip_host ?d)"
    by (simp add: flip_state_def cdb_start_def lock_io_def flip_host_def flip_sys_def
        sim_entry_def zero_entry_def)
  from flip_loop [OF this] c have
    "scsi_cdb_entry (laser_bot_send_locked flip_host) flip_host test_unit_ready_cdb 6 None 0 False
       None ?d = None"
    by (simp add: scsi_cdb_entry_def cdb_checks_def cdb_idempotent_def laser_cdb_changes_css_state_def flip_sys_def sim_entry_def
        zero_entry_def)
  with slot show "laser_scsi_cdb flip_host 42 (Some test_unit_ready_cdb) 6 None 0 False None
      flip_sys = None"
    by (simp add: laser_scsi_cdb_def)
qed

end
