(* ===== verification/Spinup.thy ===== *)
theory Spinup
  imports Command_Total
begin

text \<open>
  Waking the drive and waiting for its medium (scsi.c): the START STOP UNIT ladder, the polling
  loop with its three ceilings, and the settling of a registered token. The wait returns on
  every drive as soon as the clock runs; how it ended is what the model returns, where the C
  function only logs it.
\<close>

abbreviation LASER_SPINUP_DELAY_MS :: nat where "LASER_SPINUP_DELAY_MS \<equiv> 500"
abbreviation LASER_SPINUP_MAX_WALL_MS :: int where "LASER_SPINUP_MAX_WALL_MS \<equiv> 15000"
abbreviation LASER_NO_MEDIUM_MAX_WALL_MS :: int where "LASER_NO_MEDIUM_MAX_WALL_MS \<equiv> 4000"
abbreviation LASER_SPINUP_MAX_UNIT_ATTENTIONS :: int where
  "LASER_SPINUP_MAX_UNIT_ATTENTIONS \<equiv> 4"

section \<open>The ladder\<close>

definition spin_up_locked :: "'w transport \<Rightarrow> 'w dev \<Rightarrow> 'w dev" where
  "spin_up_locked send d =
     (case start_stop_unit_locked send 1 0x01 d of ((status1, sn1), d1) \<Rightarrow>
      case (if status1 \<noteq> uint USB_BOT_STATUS_PASS \<and>
               sense_key sn1 = SCSI_SENSE_KEY_UNIT_ATTENTION
            then start_stop_unit_locked send 1 0x01 d1
            else ((status1, sn1), d1)) of ((status2, sn), d2) \<Rightarrow>
        if status2 = uint USB_BOT_STATUS_PASS then d2
        else if sense_key sn = SCSI_SENSE_KEY_ILLEGAL_REQUEST \<and> asc sn = SCSI_ASC_INVALID_OPCODE
        then d2
        else if sense_key sn = SCSI_SENSE_KEY_NOT_READY \<and> asc sn = SCSI_ASC_BECOMING_READY
        then d2
        else if sense_key sn = SCSI_SENSE_KEY_ILLEGAL_REQUEST \<and> asc sn = SCSI_ASC_INVALID_CDB_FIELD
        then snd (start_stop_unit_locked send 0 0x01 d2)
        else snd (start_stop_unit_locked send 1 0x03 d2))"

section \<open>The wait\<close>

datatype wait_end = Unit_Ready | Left_The_Bus | Tray_Is_Open | Still_No_Medium | Budget_Spent

record wait_locals =
  w_attempt :: int
  w_becoming_ready :: bool
  unit_attentions :: int

text \<open>One round: \<open>Some\<close> ends the wait. A reading of the clock that only feeds a log line is kept.\<close>

definition wait_sense ::
  "'w transport \<Rightarrow> 'w host \<Rightarrow> timespec \<Rightarrow> timespec \<Rightarrow> sense \<Rightarrow> wait_locals \<Rightarrow> 'w dev \<Rightarrow>
     wait_end option \<times> wait_locals \<times> 'w dev" where
  "wait_sense send h started no_medium_since sn L d =
     (let L1 = (if sense_key sn = SCSI_SENSE_KEY_NOT_READY \<and> asc sn = SCSI_ASC_BECOMING_READY
                then L\<lparr>w_becoming_ready := True\<rparr> else L)
      in if sense_key sn = SCSI_SENSE_KEY_NOT_READY \<and> asc sn = SCSI_ASC_MEDIUM_NOT_PRESENT then
           (if ascq sn = SCSI_ASCQ_TRAY_OPEN then
              (Some Tray_Is_Open, L1, snd (log_media_status_locked send d))
            else case ms_since h no_medium_since d of (no_medium_ms, d1) \<Rightarrow>
              if LASER_NO_MEDIUM_MAX_WALL_MS \<le> no_medium_ms then
                (Some Still_No_Medium, L1, snd (log_media_status_locked send d1))
              else (None, L1, do_usleep h (LASER_SPINUP_DELAY_MS * 1000) d1))
         else
           let L2 = (if sense_key sn = SCSI_SENSE_KEY_UNIT_ATTENTION
                     then L1\<lparr>unit_attentions := unit_attentions L1 + 1\<rparr> else L1)
           in if sense_key sn = SCSI_SENSE_KEY_UNIT_ATTENTION \<and>
                 unit_attentions L2 \<le> LASER_SPINUP_MAX_UNIT_ATTENTIONS then (None, L2, d)
              else case ms_since h started d of (elapsed, d1) \<Rightarrow>
                let ceiling = (if w_becoming_ready L2 then LASER_BECOMING_READY_MAX_WALL_MS
                               else LASER_SPINUP_MAX_WALL_MS)
                in if ceiling \<le> elapsed then (Some Budget_Spent, L2, snd (ms_since h started d1))
                   else (None, L2, do_usleep h (LASER_SPINUP_DELAY_MS * 1000) d1))"

definition wait_round ::
  "'w transport \<Rightarrow> 'w host \<Rightarrow> timespec \<Rightarrow> timespec \<Rightarrow> wait_locals \<Rightarrow> 'w dev \<Rightarrow>
     wait_end option \<times> wait_locals \<times> 'w dev" where
  "wait_round send h started no_medium_since L d =
     (case test_unit_ready_locked send d of (r, d1) \<Rightarrow>
        if r = BOT_OK then
          (Some Unit_Ready, L,
           upd_ent (\<lambda>e. e\<lparr>not_ready := False\<rparr>) (snd (ms_since h started d1)))
        else if r = BOT_FAIL_NO_DEVICE then
          (Some Left_The_Bus, L,
           if w_becoming_ready L then snd (ms_since h started d1) else d1)
        else case request_sense_locked send no_sense d1 of ((_, sn), d2) \<Rightarrow>
          wait_sense send h started no_medium_since sn L d2)"

partial_function (option) wait_loop ::
  "'w transport \<Rightarrow> 'w host \<Rightarrow> timespec \<Rightarrow> timespec \<Rightarrow> wait_locals \<Rightarrow> 'w dev \<Rightarrow>
     (wait_end \<times> wait_locals \<times> 'w dev) option" where
  "wait_loop send h started no_medium_since L d =
     (case wait_round send h started no_medium_since L d of
        (Some r, L', d') \<Rightarrow> Some (r, L', d')
      | (None, L', d') \<Rightarrow>
          wait_loop send h started no_medium_since (L'\<lparr>w_attempt := w_attempt L' + 1\<rparr>) d')"

declare wait_loop.simps [code]

definition wait_start :: wait_locals where
  "wait_start = \<lparr>w_attempt = 1, w_becoming_ready = False, unit_attentions = 0\<rparr>"

definition laser_wait_until_ready ::
  "'w transport \<Rightarrow> 'w host \<Rightarrow> 'w dev \<Rightarrow> (wait_end \<times> wait_locals \<times> 'w dev) option" where
  "laser_wait_until_ready send h d =
     (case do_clock h d of (started, d1) \<Rightarrow>
      case do_clock h (spin_up_locked send (lock_io h d1)) of (no_medium_since, d2) \<Rightarrow>
        wait_loop send h started no_medium_since wait_start
          (upd_ent (\<lambda>e. e\<lparr>not_ready := True\<rparr>) d2))"

text \<open>
  \<open>laser_token_settle()\<close>: one TEST UNIT READY on a live registered token, and the wait if it was
  not ready.
\<close>

definition laser_token_settle :: "'w host \<Rightarrow> int \<Rightarrow> 'w sys \<Rightarrow> 'w sys option" where
  "laser_token_settle h tk s =
     (case laser_lookup tk s of
        None \<Rightarrow> Some s
      | Some i \<Rightarrow>
          if device_gone (g_entries s ! i) then Some s
          else case laser_is_cancelled h (dev_of i s) of (gone, d1) \<Rightarrow>
            if gone then Some (put_dev i d1 s)
            else case test_unit_ready_locked (laser_bot_send_locked h) (lock_io h d1) of (r, d2) \<Rightarrow>
              if r = BOT_OK \<or> r = BOT_FAIL_NO_DEVICE then Some (put_dev i d2 s)
              else (case laser_wait_until_ready (laser_bot_send_locked h) h d2 of
                      None \<Rightarrow> None
                    | Some (_, _, d3) \<Rightarrow> Some (put_dev i d3 s)))"

section \<open>Facts about the ladder\<close>

context bot_transport
begin

lemma spin_up_frame: "entry_frame (ent d) (ent (spin_up_locked send d))"
proof -
  note ss = start_stop_frame
  show ?thesis
    by (auto simp: spin_up_locked_def case_prod_unfold intro: ss entry_frame_trans [OF ss ss]
        entry_frame_trans [OF entry_frame_trans [OF ss ss] ss])
qed

lemma spin_up_world: "host_rel h R \<Longrightarrow> R w (world d) \<Longrightarrow> R w (world (spin_up_locked send d))"
  by (simp add: spin_up_locked_def case_prod_unfold start_stop_world)

end

section \<open>The wait's invariant rule\<close>

lemma wait_loop_invariant:
  assumes loop: "wait_loop send h started nm L d = Some (r, L', d')"
    and init: "I L d"
    and step: "\<And>L d L' d'. I L d \<Longrightarrow> wait_round send h started nm L d = (None, L', d') \<Longrightarrow>
      I (L'\<lparr>w_attempt := w_attempt L' + 1\<rparr>) d'"
    and stop: "\<And>L d r L' d'. I L d \<Longrightarrow> wait_round send h started nm L d = (Some r, L', d') \<Longrightarrow>
      Q r L' d'"
  shows "Q r L' d'"
proof -
  let ?P = "\<lambda>s h' st nm' L d r. s = send \<and> h' = h \<and> st = started \<and> nm' = nm \<longrightarrow>
      I L d \<longrightarrow> Q (fst r) (fst (snd r)) (snd (snd r))"
  have "?P send h started nm L d (r, L', d')"
  proof (rule wait_loop.raw_induct [OF _ loop, where P = ?P])
    fix rec s h' st nm' L d r
    assume 1: "\<And>s h' st nm' L d r. rec s h' st nm' L d = Some r \<Longrightarrow> ?P s h' st nm' L d r"
      "(case wait_round s h' st nm' L d of
          (None, L', d') \<Rightarrow> rec s h' st nm' (L'\<lparr>w_attempt := w_attempt L' + 1\<rparr>) d'
        | (Some r, L', d') \<Rightarrow> Some (r, L', d')) = Some r"
    show "?P s h' st nm' L d r"
    proof (intro impI)
      assume eq: "s = send \<and> h' = h \<and> st = started \<and> nm' = nm" and inv: "I L d"
      obtain res L1 d1 where a: "wait_round send h started nm L d = (res, L1, d1)"
        by (metis prod_cases3)
      show "Q (fst r) (fst (snd r)) (snd (snd r))"
      proof (cases res)
        case None
        with 1(2) eq a
        have "rec send h started nm (L1\<lparr>w_attempt := w_attempt L1 + 1\<rparr>) d1 = Some r" by simp
        from 1(1) [OF this] eq step [OF inv a [unfolded None]] show ?thesis by simp
      next
        case (Some r')
        with 1(2) eq a have "r = (r', L1, d1)" by simp
        with stop [OF inv a [unfolded Some]] show ?thesis by simp
      qed
    qed
  qed
  with init show ?thesis by simp
qed

end
