(* ===== verification/Spinup_Laws.thy ===== *)
theory Spinup_Laws
  imports Spinup
begin

text \<open>
  The wait, round by round, against the transport's contract: what it may change of the entry,
  why it ends, and that it polls at most 65 times.
\<close>

lemma wait_sense_cases:
  assumes run: "wait_sense send h started nm sn L d = (res, L', d')"
  obtains (tray) "res = Some Tray_Is_Open" and "sn = \<lparr>sense_key = 2, asc = 0x3a, ascq = 2\<rparr>"
      and "d' = snd (log_media_status_locked send d)"
      and "w_attempt L' = w_attempt L" and "unit_attentions L' = unit_attentions L"
  | (no_medium) ms d1 where "res = Some Still_No_Medium" and "ms_since h nm d = (ms, d1)"
      and "d' = snd (log_media_status_locked send d1)"
      and "w_attempt L' = w_attempt L" and "unit_attentions L' = unit_attentions L"
  | (poll) t ms d1 where "res = None" and "t = started \<or> t = nm" and "ms_since h t d = (ms, d1)"
      and "ms < LASER_BECOMING_READY_MAX_WALL_MS"
      and "d' = do_usleep h (LASER_SPINUP_DELAY_MS * 1000) d1"
      and "w_attempt L' = w_attempt L"
      and "min (unit_attentions L') 4 = min (unit_attentions L) 4"
  | (attention) "res = None" and "d' = d" and "w_attempt L' = w_attempt L"
      and "unit_attentions L' = unit_attentions L + 1" and "unit_attentions L' \<le> 4"
  | (spent) ms d1 where "res = Some Budget_Spent" and "ms_since h started d = (ms, d1)"
      and "LASER_SPINUP_MAX_WALL_MS \<le> ms" and "d' = snd (ms_since h started d1)"
      and "w_attempt L' = w_attempt L"
      and "min (unit_attentions L') 4 = min (unit_attentions L) 4"
proof -
  consider (m) "sense_key sn = SCSI_SENSE_KEY_NOT_READY \<and> asc sn = SCSI_ASC_MEDIUM_NOT_PRESENT"
    | (a) "sense_key sn = SCSI_SENSE_KEY_UNIT_ATTENTION" "unit_attentions L + 1 \<le> 4"
    | (o) "\<not> (sense_key sn = SCSI_SENSE_KEY_NOT_READY \<and> asc sn = SCSI_ASC_MEDIUM_NOT_PRESENT)"
      "sense_key sn = SCSI_SENSE_KEY_UNIT_ATTENTION \<longrightarrow> 4 < unit_attentions L + 1"
    by fastforce
  then show thesis
  proof cases
    case m
    obtain ms d1 where ms: "ms_since h nm d = (ms, d1)" by fastforce
    consider "ascq sn = SCSI_ASCQ_TRAY_OPEN"
      | "ascq sn \<noteq> SCSI_ASCQ_TRAY_OPEN" "LASER_NO_MEDIUM_MAX_WALL_MS \<le> ms"
      | "ascq sn \<noteq> SCSI_ASCQ_TRAY_OPEN" "ms < LASER_NO_MEDIUM_MAX_WALL_MS" by linarith
    then show thesis
    proof cases
      case 1
      with run m show thesis by (intro tray) (auto simp: wait_sense_def Let_def)
    next
      case 2
      with run m ms show thesis by (intro no_medium) (auto simp: wait_sense_def Let_def)
    next
      case 3
      with run m ms show thesis by (intro poll [of nm]) (auto simp: wait_sense_def Let_def)
    qed
  next
    case a
    with run show thesis by (intro attention) (auto simp: wait_sense_def Let_def)
  next
    case o
    obtain ms d1 where ms: "ms_since h started d = (ms, d1)" by fastforce
    define L1 where "L1 = (if sense_key sn = SCSI_SENSE_KEY_NOT_READY \<and>
      asc sn = SCSI_ASC_BECOMING_READY then L\<lparr>w_becoming_ready := True\<rparr> else L)"
    define L2 where "L2 = (if sense_key sn = SCSI_SENSE_KEY_UNIT_ATTENTION
      then L1\<lparr>unit_attentions := unit_attentions L1 + 1\<rparr> else L1)"
    define c where "c = (if w_becoming_ready L2 then LASER_BECOMING_READY_MAX_WALL_MS
      else LASER_SPINUP_MAX_WALL_MS)"
    have L2: "w_attempt L2 = w_attempt L" "min (unit_attentions L2) 4 = min (unit_attentions L) 4"
      using o(2) by (auto simp: L2_def L1_def)
    have no: "\<not> (sense_key sn = SCSI_SENSE_KEY_UNIT_ATTENTION \<and>
        unit_attentions L2 \<le> LASER_SPINUP_MAX_UNIT_ATTENTIONS)"
      using o(2) by (auto simp: L2_def L1_def)
    have "(res, L', d') = (if c \<le> ms then (Some Budget_Spent, L2, snd (ms_since h started d1))
        else (None, L2, do_usleep h (LASER_SPINUP_DELAY_MS * 1000) d1))"
      unfolding run [symmetric] wait_sense_def Let_def L1_def [symmetric] L2_def [symmetric]
      using o(1) no by (simp only: ms prod.case c_def if_False)
    moreover have "15000 \<le> c" "c \<le> 30000" by (simp_all add: c_def)
    ultimately show thesis
      using L2 ms by (cases "c \<le> ms") (auto intro: spent poll [of started])
  qed
qed

lemma wait_round_cases:
  assumes run: "wait_round send h started nm L d = (res, L', d')"
  obtains (ready) d1 where "test_unit_ready_locked send d = (BOT_OK, d1)"
      and "res = Some Unit_Ready" and "L' = L"
      and "d' = upd_ent (\<lambda>e. e\<lparr>not_ready := False\<rparr>) (snd (ms_since h started d1))"
  | (gone) d1 where "test_unit_ready_locked send d = (BOT_FAIL_NO_DEVICE, d1)"
      and "res = Some Left_The_Bus" and "L' = L"
      and "d' = d1 \<or> d' = snd (ms_since h started d1)"
  | (sensed) r d1 q sn d2 where "test_unit_ready_locked send d = (r, d1)"
      and "r \<noteq> BOT_OK" and "r \<noteq> BOT_FAIL_NO_DEVICE"
      and "request_sense_locked send no_sense d1 = ((q, sn), d2)"
      and "wait_sense send h started nm sn L d2 = (res, L', d')"
proof -
  obtain r d1 where t: "test_unit_ready_locked send d = (r, d1)" by fastforce
  obtain q sn d2 where s: "request_sense_locked send no_sense d1 = ((q, sn), d2)"
    by (rule reply2_exhaust)
  show thesis
  proof (cases "r = BOT_OK \<or> r = BOT_FAIL_NO_DEVICE")
    case True
    with run t show thesis
      by (auto simp: wait_round_def intro: ready gone split: if_splits)
  next
    case False
    with run t s show thesis by (intro sensed) (auto simp: wait_round_def)
  qed
qed

text \<open>Polls made, those after an immediate unit-attention retry aside.\<close>

definition paced :: "wait_locals \<Rightarrow> int" where
  "paced L = w_attempt L - 1 - min (unit_attentions L) 4"

lemma paced_next [simp]: "paced (L\<lparr>w_attempt := w_attempt L + 1\<rparr>) = w_attempt L - min (unit_attentions L) 4"
  by (simp add: paced_def)

context bot_transport
begin

lemma ms_since_world: "host_rel h R \<Longrightarrow> R w (world d) \<Longrightarrow> R w (world (snd (ms_since h t d)))"
  by (rule world_after(7))

lemma wait_sense_world:
  assumes R: "host_rel h R" and run: "wait_sense send h started nm sn L d = (res, L', d')"
  shows "R (world d) (world d')"
  using run
proof (cases rule: wait_sense_cases)
  case tray
  then show ?thesis using media_status_world [OF R host_relD(1) [OF R]] by simp
next
  case (no_medium ms d1)
  then show ?thesis
    using media_status_world [OF R] ms_since_world [OF R host_relD(1) [OF R], of d nm] by simp
next
  case (poll t ms d1)
  then show ?thesis
    using world_after(5) [OF R] ms_since_world [OF R host_relD(1) [OF R], of d t] by simp
next
  case attention
  then show ?thesis using host_relD(1) [OF R] by simp
next
  case (spent ms d1)
  then show ?thesis
    using ms_since_world [OF R] ms_since_world [OF R host_relD(1) [OF R], of d started] by simp
qed

lemma wait_round_world:
  assumes R: "host_rel h R" and run: "wait_round send h started nm L d = (res, L', d')"
  shows "R (world d) (world d')"
proof -
  have tur: "R (world d) (world d1)" if "test_unit_ready_locked send d = (r, d1)" for r d1
    using test_unit_ready_world [OF R host_relD(1) [OF R], of d] that by simp
  from run show ?thesis
  proof (cases rule: wait_round_cases)
    case (ready d1)
    then show ?thesis using ms_since_world [OF R tur [OF ready(1)]] by simp
  next
    case (gone d1)
    then show ?thesis using ms_since_world [OF R tur [OF gone(1)]] tur [OF gone(1)] by auto
  next
    case (sensed r d1 q sn d2)
    have "R (world d) (world d2)"
      using request_sense_world [OF R tur [OF sensed(1)]] sensed(4) by (metis snd_conv)
    then show ?thesis
      using wait_sense_world [OF R sensed(5)] host_relD(2) [OF R] by blast
  qed
qed

lemma wait_sense_frame:
  assumes "wait_sense send h started nm sn L d = (res, L', d')"
  shows "entry_frame (ent d) (ent d')"
  using assms
proof (cases rule: wait_sense_cases)
  case tray
  then show ?thesis by (simp add: media_status_frame)
next
  case (no_medium ms d1)
  then show ?thesis
    using media_status_frame [of d1] ms_since_frame(1) [of h nm d] by simp
next
  case (poll t ms d1)
  then show ?thesis using ms_since_frame(1) [of h t d] by (simp add: frame_simps)
next
  case (spent ms d1)
  then show ?thesis using ms_since_frame(1) [of h started d] by (simp add: frame_simps)
qed simp

text \<open>A round changes nothing but the tag and the log flags; the ready one lowers not_ready.\<close>

lemma wait_round_frame:
  assumes "wait_round send h started nm L d = (res, L', d')"
  shows "if res = Some Unit_Ready
    then \<exists>e. entry_frame (ent d) e \<and> ent d' = e\<lparr>not_ready := False\<rparr>
    else entry_frame (ent d) (ent d')"
  using assms
proof (cases rule: wait_round_cases)
  case (ready d1)
  then show ?thesis
    using test_unit_ready_frame [of d] by (auto simp: frame_simps)
next
  case (gone d1)
  then show ?thesis
    using test_unit_ready_frame [of d] by (auto simp: frame_simps)
next
  case (sensed r d1 q sn d2)
  have "entry_frame (ent d) (ent d1)" using test_unit_ready_frame [of d] sensed(1) by simp
  also have "entry_frame (ent d1) (ent d2)"
    using request_sense_frame [of d1 no_sense] sensed(4) by simp
  also have "entry_frame (ent d2) (ent d')" using sensed(5) by (rule wait_sense_frame)
  finally have "entry_frame (ent d) (ent d')" .
  moreover have "res \<noteq> Some Unit_Ready"
    using sensed(5) by (cases rule: wait_sense_cases) auto
  ultimately show ?thesis by simp
qed

lemma wait_loop_frame:
  assumes "wait_loop send h started nm L d = Some (r, L', d')"
  shows "if r = Unit_Ready
    then \<exists>e. entry_frame (ent d) e \<and> ent d' = e\<lparr>not_ready := False\<rparr>
    else entry_frame (ent d) (ent d')"
  using assms
proof (rule wait_loop_invariant [where I = "\<lambda>_ x. entry_frame (ent d) (ent x)" and
    Q = "\<lambda>r _ d'. if r = Unit_Ready
      then \<exists>e. entry_frame (ent d) e \<and> ent d' = e\<lparr>not_ready := False\<rparr>
      else entry_frame (ent d) (ent d')"])
  fix L x L' x'
  assume "entry_frame (ent d) (ent x)" "wait_round send h started nm L x = (None, L', x')"
  then show "entry_frame (ent d) (ent x')"
    using wait_round_frame [of started nm L x None L' x'] by (auto intro: entry_frame_trans)
next
  fix L x r L' x'
  assume "entry_frame (ent d) (ent x)" "wait_round send h started nm L x = (Some r, L', x')"
  then show "if r = Unit_Ready
      then \<exists>e. entry_frame (ent d) e \<and> ent x' = e\<lparr>not_ready := False\<rparr>
      else entry_frame (ent d) (ent x')"
    using wait_round_frame [of started nm L x "Some r" L' x']
    by (auto intro: entry_frame_trans split: if_splits)
qed simp


text \<open>A paced round starts before the largest ceiling and ends half a second later.\<close>

lemma round_progress:
  assumes clock: "clock_monotonic h now" and order: "time_ns started \<le> time_ns nm"
    and run: "wait_round send h started nm L d = (None, L', d')"
  obtains (attention) "now (world d) \<le> now (world d')" and "w_attempt L' = w_attempt L"
      and "unit_attentions L' = unit_attentions L + 1" and "unit_attentions L' \<le> 4"
  | (poll) "now (world d) < time_ns nm + 30000000000"
      and "now (world d) + 500000000 \<le> now (world d')" and "w_attempt L' = w_attempt L"
      and "min (unit_attentions L') 4 = min (unit_attentions L) 4"
  using run
proof (cases rule: wait_round_cases)
  case (sensed r d1 q sn d2)
  note R = clock_rel [OF clock]
  have "now (world d) \<le> now (world d1)"
    using test_unit_ready_world [OF R order_refl, of d] sensed(1) by simp
  from request_sense_world [OF R this] sensed(4) have d2: "now (world d) \<le> now (world d2)"
    by (metis snd_conv)
  from sensed(5) show thesis
  proof (cases rule: wait_sense_cases)
    case (poll t ms d3)
    have "now (world d2) \<le> now (world d3)"
      using ms_since_world [OF R order_refl, of d2 t] poll(3) by simp
    moreover have "now (world d3) + 500000000 \<le> now (world d')"
      using sleep_advances [OF clock, of d3 "LASER_SPINUP_DELAY_MS * 1000"] poll(5) by simp
    moreover have "now (world d2) - time_ns t < 30000000000"
      using ms_since_elapsed(1) [OF clock poll(3)] poll(4) by linarith
    moreover have "time_ns t \<le> time_ns nm" using poll(2) order by auto
    ultimately show thesis using d2 poll(6,7) by (intro that(2)) linarith+
  next
    case attention
    then show thesis using d2 by (intro that(1)) simp_all
  qed simp_all
qed simp_all

lemma wait_loop_bounded:
  assumes clock: "clock_monotonic h now" and order: "time_ns started \<le> time_ns nm"
    and loop: "wait_loop send h started nm wait_start d = Some (r, L', d')"
    and since: "time_ns nm \<le> now (world d)"
  shows "w_attempt L' \<le> 65"
  using loop
proof (rule wait_loop_invariant [where Q = "\<lambda>_ L' _. w_attempt L' \<le> 65" and I = "\<lambda>L d.
    0 \<le> paced L \<and> paced L \<le> 60 \<and> paced L * 500000000 \<le> now (world d) - time_ns nm"])
  show "0 \<le> paced wait_start \<and> paced wait_start \<le> 60 \<and>
      paced wait_start * 500000000 \<le> now (world d) - time_ns nm"
    using since by (simp add: paced_def wait_start_def)
next
  fix L d L' d'
  assume inv: "0 \<le> paced L \<and> paced L \<le> 60 \<and> paced L * 500000000 \<le> now (world d) - time_ns nm"
    and run: "wait_round send h started nm L d = (None, L', d')"
  from clock order run
  show "0 \<le> paced (L'\<lparr>w_attempt := w_attempt L' + 1\<rparr>) \<and>
      paced (L'\<lparr>w_attempt := w_attempt L' + 1\<rparr>) \<le> 60 \<and>
      paced (L'\<lparr>w_attempt := w_attempt L' + 1\<rparr>) * 500000000 \<le> now (world d') - time_ns nm"
  proof (cases rule: round_progress)
    case attention
    then have "w_attempt L' - min (unit_attentions L') 4 = paced L"
      by (simp add: paced_def)
    with inv attention(1) show ?thesis by simp
  next
    case poll
    then have "w_attempt L' - min (unit_attentions L') 4 = paced L + 1"
      by (simp add: paced_def)
    moreover have "paced L * 500000000 < 30000000000" using inv poll(1) by linarith
    ultimately show ?thesis using inv poll(2) by simp
  qed
next
  fix L d r L' d'
  assume inv: "0 \<le> paced L \<and> paced L \<le> 60 \<and> paced L * 500000000 \<le> now (world d) - time_ns nm"
    and run: "wait_round send h started nm L d = (Some r, L', d')"
  then have "w_attempt L' = w_attempt L"
    by (auto elim!: wait_round_cases wait_sense_cases)
  moreover have "min (unit_attentions L) 4 \<le> 4" by simp
  ultimately show "w_attempt L' \<le> 65" using inv unfolding paced_def by linarith
qed

lemma wait_loop_returns:
  assumes clock: "clock_monotonic h now" and order: "time_ns started \<le> time_ns nm"
  shows "\<exists>r. wait_loop send h started nm L d = Some r"
proof -
  let ?rank = "\<lambda>L d. (nat (4 - min (unit_attentions L) 4),
    nat (time_ns nm + 31000000000 - now (world d)))"
  have "wf (less_than <*lex*> less_than)"
    by (intro wf_lex_prod wf_less_than)
  then show ?thesis
  proof (induction "?rank L d" arbitrary: L d rule: wf_induct_rule)
    case less
    obtain res L' d' where a: "wait_round send h started nm L d = (res, L', d')"
      by (metis prod_cases3)
    show ?case
    proof (cases res)
      case None
      have "(?rank (L'\<lparr>w_attempt := w_attempt L' + 1\<rparr>) d', ?rank L d) \<in> less_than <*lex*> less_than"
        using clock order a [unfolded None] by (cases rule: round_progress) auto
      from less [OF this] a None show ?thesis
        by (subst wait_loop.simps) simp
    next
      case (Some r)
      with a show ?thesis by (subst wait_loop.simps) simp
    qed
  qed
qed

lemma wait_until_ready_result:
  assumes clock: "clock_monotonic h now"
  shows "\<exists>r L' d'. laser_wait_until_ready send h d = Some (r, L', d') \<and> w_attempt L' \<le> 65 \<and>
    not_ready (ent d') = (r \<noteq> Unit_Ready)"
proof -
  obtain started d1 where t1: "do_clock h d = (started, d1)" by fastforce
  obtain nm d2 where t2: "do_clock h (spin_up_locked send (lock_io h d1)) = (nm, d2)" by fastforce
  note R = clock_rel [OF clock]
  have "now (world d1) \<le> now (world (spin_up_locked send (lock_io h d1)))"
    using spin_up_world [OF R call_worlds(8) [OF R, where d = d1]] .
  with clock_reading [OF clock t1] clock_reading [OF clock t2]
  have order: "time_ns started \<le> time_ns nm" and since: "time_ns nm \<le> now (world d2)"
    by linarith+
  let ?d = "upd_ent (\<lambda>e. e\<lparr>not_ready := True\<rparr>) d2"
  obtain r L' d' where loop: "wait_loop send h started nm wait_start ?d = Some (r, L', d')"
    using wait_loop_returns [OF clock order, of wait_start ?d] by auto
  moreover have "w_attempt L' \<le> 65"
    using wait_loop_bounded [OF clock order loop] since by simp
  moreover have "not_ready (ent d') = (r \<noteq> Unit_Ready)"
    using wait_loop_frame [OF loop] by (auto split: if_splits dest: entry_frameD(14))
  ultimately show ?thesis
    using t1 t2 by (simp add: laser_wait_until_ready_def)
qed

lemma wait_until_ready_rely:
  assumes "threads_rely h" and run: "laser_wait_until_ready send h d = Some (r, L', d')"
  shows "entry_rely (ent d) (ent d')"
proof -
  obtain started d1 where t1: "do_clock h d = (started, d1)" by fastforce
  obtain nm d2 where t2: "do_clock h (spin_up_locked send (lock_io h d1)) = (nm, d2)" by fastforce
  have loop: "wait_loop send h started nm wait_start (upd_ent (\<lambda>e. e\<lparr>not_ready := True\<rparr>) d2) =
      Some (r, L', d')"
    using run t1 t2 by (simp add: laser_wait_until_ready_def)
  have "entry_rely (ent d) (ent (lock_io h d1))"
    using assms(1) t1 do_clock_frame(1) [of h d]
    by (simp add: threads_rely_def lock_io_def case_prod_unfold)
  also have "entry_rely \<dots> (ent d2)"
    using t2 do_clock_frame(1) [of h "spin_up_locked send (lock_io h d1)"]
      entry_frame_rely [OF spin_up_frame, of "lock_io h d1"] by simp
  also have "entry_rely (ent d2) ((ent d2)\<lparr>not_ready := True\<rparr>)" by (simp add: entry_rely_def)
  also have "entry_rely ((ent d2)\<lparr>not_ready := True\<rparr>) (ent d')"
    using wait_loop_frame [OF loop]
    by (auto split: if_splits intro: entry_frame_rely entry_rely_trans [OF entry_frame_rely]
        simp: entry_rely_def [of _ "_\<lparr>not_ready := False\<rparr>"])
  finally show ?thesis .
qed

lemma wait_until_ready_total:
  assumes "clock_monotonic h now"
  obtains w where "laser_wait_until_ready send h = (\<lambda>x. Some (w x))"
proof (rule that [of "\<lambda>x. the (laser_wait_until_ready send h x)"], rule ext)
  fix x
  show "laser_wait_until_ready send h x = Some (the (laser_wait_until_ready send h x))"
    using wait_until_ready_result [OF assms, of x] by fastforce
qed

end

end
