(* ===== verification/Spinup_Props.thy ===== *)
theory Spinup_Props
  imports Spinup_Laws Sample_Runs
begin

text \<open>The properties of the spin-up ladder and of the readiness wait.\<close>

text \<open>C20: the readiness wait returns on every drive once the clock runs, whatever the drive answers:
  after at most 65 polls, with not_ready lowered exactly if the unit answered ready.\<close>

theorem wait_until_ready_bounded:
  assumes "clock_monotonic h now_ns"
  shows "\<exists>r L' d'. laser_wait_until_ready (laser_bot_send_locked h) h d = Some (r, L', d') \<and>
    w_attempt L' \<le> 65 \<and> not_ready (ent d') = (r \<noteq> Unit_Ready)"
  using bot.wait_until_ready_result [OF assms] .

theorem wait_until_ready_bounded_witness:
  "\<exists>r L' d'. laser_wait_until_ready (laser_bot_send_locked sim_host) sim_host
      (sim_dev ([Answer [] 0] @ check_condition 2 0x3a 1)) = Some (r, L', d') \<and>
    w_attempt L' \<le> 65 \<and> not_ready (ent d') = (r \<noteq> Unit_Ready)"
  by (rule wait_until_ready_bounded [OF sim_clock_monotonic])

section \<open>The ladder, command by command\<close>

lemma pad16_start_stop_sense: "pad16 (start_stop_cdb a b) \<noteq> pad16 request_sense_cdb"
  by (simp add: pad16_def write_prefix_def start_stop_cdb_def request_sense_cdb_def)

lemma pad16_start_stop: "pad16 (start_stop_cdb a b) = pad16 (start_stop_cdb a' b') \<longleftrightarrow> a = a' \<and> b = b'"
  by (simp add: pad16_def write_prefix_def start_stop_cdb_def)

context bot_transport
begin

lemma start_stop_taken:
  "\<exists>evs. trace (snd (start_stop_unit_locked send i b d)) = trace d @ evs \<and>
     times_taken (start_stop_cdb i b) evs \<le> 1 \<and>
     (\<forall>i' b'. (i', b') \<noteq> (i, b) \<longrightarrow> times_taken (start_stop_cdb i' b') evs = 0)"
proof -
  obtain out d1 where run: "send (start_stop_cdb i b) 6 None 0 False None (Some (-1)) d = (out, d1)"
    by fastforce
  have six: "take (nat 6) (start_stop_cdb i b) = start_stop_cdb i b"
    by (simp add: start_stop_cdb_def)
  obtain evs where evs: "trace d1 = trace d @ evs"
    "bot_promise (ent d) (rc out) evs" "only_takes (start_stop_cdb i b) evs"
    using send_trace [of "start_stop_cdb i b" 6 None 0 False None "Some (-1)" d] run six by auto
  have one: "times_taken (start_stop_cdb i b) evs \<le> 1"
    using evs(2) times_taken_only [OF evs(3)] by (auto simp: bot_promise_def split: bot_rc.splits)
  have other: "(i', b') \<noteq> (i, b) \<Longrightarrow> times_taken (start_stop_cdb i' b') evs = 0" for i' b'
    by (rule times_taken_other [OF evs(3)]) (auto simp: pad16_start_stop)
  obtain q sn d2 where sense: "request_sense_locked send no_sense d1 = ((q, sn), d2)"
    by (rule reply2_exhaust)
  obtain evs2 where evs2: "trace d2 = trace d1 @ evs2" "only_takes request_sense_cdb evs2"
  proof -
    have "\<exists>evs2. trace d2 = trace d1 @ evs2 \<and> only_takes request_sense_cdb evs2"
      using sense send_trace [of request_sense_cdb 6 "Some (replicate 24 0)" 24 True "Some 0" None d1]
      by (auto simp: request_sense_locked_def Let_def case_prod_unfold request_sense_cdb_def
          split: if_splits)
    then show thesis using that by blast
  qed
  have none: "times_taken (start_stop_cdb i' b') evs2 = 0" for i' b'
    by (rule times_taken_other [OF evs2(2)]) (metis pad16_start_stop_sense)
  have "snd (start_stop_unit_locked send i b d) \<in> {d1, d2}"
    using run sense by (auto simp: start_stop_unit_locked_def Let_def)
  with evs(1) evs2(1) one other none show ?thesis by auto
qed

end

text \<open>The ladder sends the plain request at most twice, and then at most one of its two variants
  at most once: without IMMED, or with LOEJ set.\<close>

theorem spin_up_ladder_bounded:
  "\<exists>evs. trace (spin_up_locked (laser_bot_send_locked h) d) = trace d @ evs \<and>
     times_taken (start_stop_cdb 1 0x01) evs \<le> 2 \<and>
     times_taken (start_stop_cdb 0 0x01) evs + times_taken (start_stop_cdb 1 0x03) evs \<le> 1"
proof -
  let ?ss = "start_stop_unit_locked (laser_bot_send_locked h)"
  obtain st1 sn1 d1 where one: "?ss 1 0x01 d = ((st1, sn1), d1)" by (rule reply2_exhaust)
  obtain st sn d2 where two: "(if st1 \<noteq> uint USB_BOT_STATUS_PASS \<and>
      sense_key sn1 = SCSI_SENSE_KEY_UNIT_ATTENTION then ?ss 1 0x01 d1 else ((st1, sn1), d1)) =
      ((st, sn), d2)"
    by (rule reply2_exhaust)
  have again: "d2 = d1 \<or> d2 = snd (?ss 1 0x01 d1)" using two by (auto split: if_splits)
  have last: "spin_up_locked (laser_bot_send_locked h) d \<in>
      {d2, snd (?ss 0 0x01 d2), snd (?ss 1 0x03 d2)}"
    unfolding spin_up_locked_def one prod.case two by simp
  note ss = bot.start_stop_taken [of h]
  obtain e1 where e1: "trace d1 = trace d @ e1" "times_taken (start_stop_cdb 1 0x01) e1 \<le> 1"
    "times_taken (start_stop_cdb 0 0x01) e1 = 0" "times_taken (start_stop_cdb 1 0x03) e1 = 0"
    using ss [of 1 "0x01" d] one by auto
  obtain e2 where e2: "trace d2 = trace d1 @ e2" "times_taken (start_stop_cdb 1 0x01) e2 \<le> 1"
    "times_taken (start_stop_cdb 0 0x01) e2 = 0" "times_taken (start_stop_cdb 1 0x03) e2 = 0"
    using again ss [of 1 "0x01" d1] by auto
  obtain e3 where e3: "trace (spin_up_locked (laser_bot_send_locked h) d) = trace d2 @ e3"
    "times_taken (start_stop_cdb 1 0x01) e3 = 0"
    "times_taken (start_stop_cdb 0 0x01) e3 + times_taken (start_stop_cdb 1 0x03) e3 \<le> 1"
    using last ss [of 0 "0x01" d2] ss [of 1 "0x03" d2] by auto
  show ?thesis using e1 e2 e3 by (intro exI [of _ "e1 @ e2 @ e3"]) simp
qed

text \<open>Against its comment, which says never with the tray open: a drive that refuses START STOP
  UNIT with "tray open" (02h/3Ah/02h) is sent the request again with LOEJ set, which closes it.\<close>

theorem open_tray_is_told_to_close:
  "times_taken (start_stop_cdb 1 0x03) (trace (spin_up_locked (laser_bot_send_locked sim_host)
     (sim_dev (check_condition 2 0x3a 2 @ [Answer [] 0])))) = 1"
  by code_simp

end
