(* ===== verification/Probe.thy ===== *)
theory Probe
  imports Spinup_Laws
begin

text \<open>
  Which logical unit is the optical drive (scsi.c): GET MAX LUN, then an INQUIRY per unit under
  the short probe timeouts, unit 0 with its doubling settle delays.
\<close>

abbreviation SCSI_PDT_MASK :: byte where "SCSI_PDT_MASK \<equiv> 0x1f"
abbreviation SCSI_PDT_DIRECT_ACCESS :: byte where "SCSI_PDT_DIRECT_ACCESS \<equiv> 0x00"
abbreviation SCSI_PDT_CD_DVD :: byte where "SCSI_PDT_CD_DVD \<equiv> 0x05"
abbreviation SCSI_INQUIRY_ALLOC_LEN :: nat where "SCSI_INQUIRY_ALLOC_LEN \<equiv> 36"
abbreviation LASER_MAX_LUN_PROBED :: nat where "LASER_MAX_LUN_PROBED \<equiv> 3"
abbreviation LASER_INQUIRY_MAX_ATTEMPTS :: nat where "LASER_INQUIRY_MAX_ATTEMPTS \<equiv> 7"
abbreviation LASER_INQUIRY_RETRY_MS :: nat where "LASER_INQUIRY_RETRY_MS \<equiv> 100"
abbreviation USB_BOT_GETMAXLUN_bREQUEST :: byte where "USB_BOT_GETMAXLUN_bREQUEST \<equiv> 0xFE"
abbreviation USB_BOT_GETMAXLUN_bmREQUESTTYPE :: byte where
  "USB_BOT_GETMAXLUN_bmREQUESTTYPE \<equiv> 0xA1"

datatype inquiry_result = Inq_Type byte | Inq_No_Answer | Inq_Gone

definition inquiry_cdb :: "byte list" where
  "inquiry_cdb = [0x12, 0x00, 0x00, 0x00, 0x24, 0x00]"

text \<open>One try: the probe timeouts are in force for exactly this transaction.\<close>

definition inquiry_try :: "'w transport \<Rightarrow> 'w host \<Rightarrow> 'w dev \<Rightarrow> bot_out \<times> 'w dev" where
  "inquiry_try send h d =
     (case send inquiry_cdb 6 (Some (replicate SCSI_INQUIRY_ALLOC_LEN 0))
             (int SCSI_INQUIRY_ALLOC_LEN) True (Some 0) None
             (upd_ent (\<lambda>e. e\<lparr>probe_timeouts := True\<rparr>) (lock_io h d)) of (out, d') \<Rightarrow>
        (out, upd_ent (\<lambda>e. e\<lparr>probe_timeouts := False\<rparr>) d'))"

text \<open>
  The loop of \<open>inquiry_pdt()\<close>, by the tries left: \<open>tries\<close> counts up from 1, and the delay after
  a failed one is \<open>LASER_INQUIRY_RETRY_MS << (tries - 1)\<close>.
\<close>

fun inquiry_tries ::
  "'w transport \<Rightarrow> 'w host \<Rightarrow> nat \<Rightarrow> nat \<Rightarrow> 'w dev \<Rightarrow> inquiry_result \<times> 'w dev" where
  "inquiry_tries send h tries 0 d = (Inq_No_Answer, d)"
| "inquiry_tries send h tries (Suc left) d =
     (case inquiry_try send h d of (out, d1) \<Rightarrow>
        if rc out = BOT_OK \<and> 1 \<le> the (actual_len out) then
          (Inq_Type (the (buf out) ! 0 AND SCSI_PDT_MASK), d1)
        else if rc out = BOT_FAIL_NO_DEVICE then (Inq_Gone, d1)
        else if left = 0 then (Inq_No_Answer, d1)
        else inquiry_tries send h (Suc tries) left
               (do_usleep h (push_bit (tries - 1) LASER_INQUIRY_RETRY_MS * 1000) d1))"

definition inquiry_pdt ::
  "'w transport \<Rightarrow> 'w host \<Rightarrow> nat \<Rightarrow> 'w dev \<Rightarrow> inquiry_result \<times> 'w dev" where
  "inquiry_pdt send h attempts d = inquiry_tries send h 1 attempts d"

datatype laser_optical = LASER_OPTICAL_NO | LASER_OPTICAL_YES | LASER_OPTICAL_NO_ANSWER
  | LASER_OPTICAL_GONE

text \<open>The unit loop and what follows it; \<open>lun0_pdt\<close> is unit 0's type once it has answered.\<close>

fun probe_units ::
  "'w transport \<Rightarrow> 'w host \<Rightarrow> nat list \<Rightarrow> byte option \<Rightarrow> 'w dev \<Rightarrow> laser_optical \<times> 'w dev" where
  "probe_units send h [] lun0_pdt d =
     (let d' = upd_ent (\<lambda>e. e\<lparr>lun := 0\<rparr>) d in
      case lun0_pdt of
        None \<Rightarrow> (LASER_OPTICAL_NO_ANSWER, d')
      | Some pdt \<Rightarrow>
          (if pdt = SCSI_PDT_DIRECT_ACCESS then LASER_OPTICAL_NO else LASER_OPTICAL_YES, d'))"
| "probe_units send h (l # rest) lun0_pdt d =
     (case inquiry_pdt send h (if l = 0 then LASER_INQUIRY_MAX_ATTEMPTS else 1)
             (upd_ent (\<lambda>e. e\<lparr>lun := of_nat l\<rparr>) d) of
        (Inq_Gone, d') \<Rightarrow> (LASER_OPTICAL_GONE, upd_ent (\<lambda>e. e\<lparr>lun := 0\<rparr>) d')
      | (Inq_No_Answer, d') \<Rightarrow> probe_units send h rest lun0_pdt d'
      | (Inq_Type pdt, d') \<Rightarrow>
          if pdt = SCSI_PDT_CD_DVD then (LASER_OPTICAL_YES, d')
          else probe_units send h rest (if l = 0 then Some pdt else lun0_pdt) d')"

definition probed_max_lun :: "int \<Rightarrow> byte list \<Rightarrow> nat" where
  "probed_max_lun ret bs =
     (if ret \<noteq> 1 then 0
      else case bs of [] \<Rightarrow> 0 | b # _ \<Rightarrow> min (unat b) LASER_MAX_LUN_PROBED)"

definition laser_probe_lun :: "'w transport \<Rightarrow> 'w host \<Rightarrow> 'w dev \<Rightarrow> laser_optical \<times> 'w dev" where
  "laser_probe_lun send h d =
     (let d0 = upd_ent (\<lambda>e. e\<lparr>lun := 0\<rparr>) d in
      case do_control h USB_BOT_GETMAXLUN_bmREQUESTTYPE USB_BOT_GETMAXLUN_bREQUEST
             (iface_num (ent d0)) 1 d0 of
        ((ret, bs), d1) \<Rightarrow> probe_units send h [0..<Suc (probed_max_lun ret bs)] None d1)"

section \<open>What the probe keeps\<close>

text \<open>
  What registration has set up before the probe and must find afterwards. Until the entry is
  published no other thread can find it, let alone change it.
\<close>

definition probe_frame :: "laser_entry \<Rightarrow> laser_entry \<Rightarrow> bool" where
  "probe_frame e e' \<longleftrightarrow> (\<exists>t r s l p. e' = e\<lparr>tag := t, residue_quirk_logged := r,
     csw_stall_quirk_logged := s, lun := l, probe_timeouts := p\<rparr>)"

definition unpublished :: "'w host \<Rightarrow> bool" where
  "unpublished h \<longleftrightarrow> (\<forall>e w. \<not> in_use e \<longrightarrow> fst (other_threads h e w) = e)"

lemma probe_frame_refl [simp]: "probe_frame e e"
  unfolding probe_frame_def
  by (intro exI [of _ "tag e"] exI [of _ "residue_quirk_logged e"]
      exI [of _ "csw_stall_quirk_logged e"] exI [of _ "lun e"] exI [of _ "probe_timeouts e"]) simp

lemma probe_frame_trans [trans]: "probe_frame a b \<Longrightarrow> probe_frame b c \<Longrightarrow> probe_frame a c"
  unfolding probe_frame_def by (elim exE, intro exI) simp

lemma probe_frame_updates [simp]:
  "probe_frame e (e\<lparr>lun := l\<rparr>)" "probe_frame e (e\<lparr>probe_timeouts := p\<rparr>)"
  unfolding probe_frame_def
  by (intro exI [of _ "tag e"] exI [of _ "residue_quirk_logged e"]
      exI [of _ "csw_stall_quirk_logged e"] exI [of _ l] exI [of _ "probe_timeouts e"], simp)
    (intro exI [of _ "tag e"] exI [of _ "residue_quirk_logged e"]
      exI [of _ "csw_stall_quirk_logged e"] exI [of _ "lun e"] exI [of _ p], simp)

lemma entry_frame_probe: "entry_frame e e' \<Longrightarrow> probe_frame e e'"
  unfolding entry_frame_def probe_frame_def
  by (elim exE, intro exI [of _ "tag e'"] exI [of _ "residue_quirk_logged e'"]
      exI [of _ "csw_stall_quirk_logged e'"] exI [of _ "lun e"] exI [of _ "probe_timeouts e"]) simp

lemma probe_frameD:
  assumes "probe_frame e e'"
  shows "handle e' = handle e" "ctx e' = ctx e" "iface_num e' = iface_num e"
    "token e' = token e" "in_use e' = in_use e" "refs e' = refs e"
    "kernel_driver_detached e' = kernel_driver_detached e" "ep_in e' = ep_in e"
    "ep_out e' = ep_out e" "max_transfer_bytes e' = max_transfer_bytes e"
    "cancelled e' = cancelled e" "device_gone e' = device_gone e"
  using assms unfolding probe_frame_def by (elim exE; simp)+

context bot_transport
begin

lemma inquiry_try_frame:
  assumes "unpublished h" and "\<not> in_use (ent d)"
  shows "probe_frame (ent d) (ent (snd (inquiry_try send h d)))"
    and "\<not> probe_timeouts (ent (snd (inquiry_try send h d)))"
    and "lun (ent (snd (inquiry_try send h d))) = lun (ent d)"
proof -
  let ?d0 = "upd_ent (\<lambda>e. e\<lparr>probe_timeouts := True\<rparr>) (lock_io h d)"
  obtain out d1 where run: "send inquiry_cdb 6 (Some (replicate SCSI_INQUIRY_ALLOC_LEN 0))
      (int SCSI_INQUIRY_ALLOC_LEN) True (Some 0) None ?d0 = (out, d1)" by fastforce
  have lock: "ent (lock_io h d) = ent d"
    using assms by (simp add: unpublished_def lock_io_def case_prod_unfold)
  have frame: "entry_frame (ent ?d0) (ent d1)"
    using send_frame [of ?d0] run by (metis snd_conv)
  have "probe_frame (ent d) (ent ?d0)" using lock by simp
  also have "probe_frame (ent ?d0) (ent d1)" using frame by (rule entry_frame_probe)
  also have "probe_frame (ent d1) ((ent d1)\<lparr>probe_timeouts := False\<rparr>)" by simp
  finally show "probe_frame (ent d) (ent (snd (inquiry_try send h d)))"
    using run by (simp add: inquiry_try_def)
  show "\<not> probe_timeouts (ent (snd (inquiry_try send h d)))"
    using run by (simp add: inquiry_try_def)
  show "lun (ent (snd (inquiry_try send h d))) = lun (ent d)"
    using run entry_frameD(13) [OF frame] lock by (simp add: inquiry_try_def)
qed

lemma inquiry_tries_frame:
  assumes "unpublished h" and "\<not> in_use (ent d)" and "\<not> probe_timeouts (ent d)"
  shows "probe_frame (ent d) (ent (snd (inquiry_tries send h tries left d))) \<and>
    \<not> probe_timeouts (ent (snd (inquiry_tries send h tries left d))) \<and>
    lun (ent (snd (inquiry_tries send h tries left d))) = lun (ent d)"
  using assms(2,3)
proof (induction left arbitrary: tries d)
  case (Suc left)
  obtain out d1 where tried: "inquiry_try send h d = (out, d1)" by fastforce
  then have d1: "probe_frame (ent d) (ent d1)" "\<not> probe_timeouts (ent d1)" "lun (ent d1) = lun (ent d)"
    using inquiry_try_frame [OF assms(1) Suc.prems(1)] by simp_all
  have hidden: "\<not> in_use (ent d1)" using probe_frameD(5) [OF d1(1)] Suc.prems(1) by simp
  show ?case
    using Suc.IH [of "do_usleep h (push_bit (tries - 1) LASER_INQUIRY_RETRY_MS * 1000) d1"
        "Suc tries"] d1 hidden tried
    by (auto simp: frame_simps intro: probe_frame_trans)
qed simp

lemma inquiry_pdt_frame:
  assumes "unpublished h" and "\<not> in_use (ent d)" and "\<not> probe_timeouts (ent d)"
    and "inquiry_pdt send h n d = (a, d1)"
  shows "probe_frame (ent d) (ent d1)" and "\<not> probe_timeouts (ent d1)"
    and "lun (ent d1) = lun (ent d)"
  using inquiry_tries_frame [OF assms(1-3), of 1 n] assms(4) by (simp_all add: inquiry_pdt_def)

lemma probe_units_frame:
  assumes "unpublished h" and "\<not> in_use (ent d)" and "\<not> probe_timeouts (ent d)"
    and "probe_units send h luns lun0 d = (r, d')" and "set luns \<subseteq> {..3}"
  shows "probe_frame (ent d) (ent d') \<and> \<not> probe_timeouts (ent d') \<and> lun (ent d') \<le> 3 \<and>
    (r \<noteq> LASER_OPTICAL_YES \<longrightarrow> lun (ent d') = 0)"
  using assms(2-)
proof (induction luns arbitrary: lun0 d)
  case Nil
  then show ?case by (auto simp: Let_def split: option.splits if_splits)
next
  case (Cons l luns)
  let ?d0 = "upd_ent (\<lambda>e. e\<lparr>lun := of_nat l\<rparr>) d"
  obtain a d1 where inq: "inquiry_pdt send h
      (if l = 0 then LASER_INQUIRY_MAX_ATTEMPTS else 1) ?d0 = (a, d1)"
    by fastforce
  have d1: "probe_frame (ent ?d0) (ent d1)" "\<not> probe_timeouts (ent d1)" "lun (ent d1) = of_nat l"
    using inquiry_pdt_frame [OF assms(1) _ _ inq] Cons.prems(1,2) by simp_all
  have from_d: "probe_frame (ent d) (ent d1)"
    using probe_frame_trans [OF _ d1(1), of "ent d"] by simp
  have hidden: "\<not> in_use (ent d1)" using probe_frameD(5) [OF from_d] Cons.prems(1) by simp
  have low: "(of_nat l :: byte) \<le> 3"
    using Cons.prems(4) by (simp add: word_le_nat_alt unat_of_nat)
  show ?case
  proof (cases "\<exists>r0 d0. (r, d') = (r0, d0) \<and> a \<noteq> Inq_Gone \<and> a \<noteq> Inq_Type SCSI_PDT_CD_DVD")
    case True
    then obtain lun0' where "probe_units send h luns lun0' d1 = (r, d')"
      using Cons.prems(3) inq by (cases a) (auto split: if_splits)
    from Cons.IH [OF hidden d1(2) this] Cons.prems(4) from_d show ?thesis
      by (auto intro: probe_frame_trans)
  next
    case False
    then have "a = Inq_Gone \<or> a = Inq_Type SCSI_PDT_CD_DVD" by auto
    with Cons.prems(3) inq d1 from_d low probe_frame_trans [OF from_d probe_frame_updates(1)]
    show ?thesis by auto
  qed
qed


lemma probe_lun_frame:
  assumes "unpublished h" and "\<not> in_use (ent d)" and "\<not> probe_timeouts (ent d)"
    and run: "laser_probe_lun send h d = (r, d')"
  shows "probe_frame (ent d) (ent d') \<and> \<not> probe_timeouts (ent d') \<and> lun (ent d') \<le> 3 \<and>
    (r \<noteq> LASER_OPTICAL_YES \<longrightarrow> lun (ent d') = 0)"
proof -
  let ?d0 = "upd_ent (\<lambda>e. e\<lparr>lun := 0\<rparr>) d"
  obtain ret bs d1 where c: "do_control h USB_BOT_GETMAXLUN_bmREQUESTTYPE
      USB_BOT_GETMAXLUN_bREQUEST (iface_num (ent ?d0)) 1 ?d0 = ((ret, bs), d1)"
    by (rule reply2_exhaust)
  then have d1: "ent d1 = ent ?d0"
    using do_control_frame [of h USB_BOT_GETMAXLUN_bmREQUESTTYPE USB_BOT_GETMAXLUN_bREQUEST
        "iface_num (ent ?d0)" 1 ?d0] by simp
  have units: "probe_units send h [0..<Suc (probed_max_lun ret bs)] None d1 = (r, d')"
    using run c by (simp add: laser_probe_lun_def)
  have "probed_max_lun ret bs \<le> 3"
    by (simp add: probed_max_lun_def split: list.split)
  then have "set [0..<Suc (probed_max_lun ret bs)] \<subseteq> {..3}" by auto
  from probe_units_frame [OF assms(1) _ _ units this] assms(2,3) d1
  have "probe_frame (ent ?d0) (ent d') \<and> \<not> probe_timeouts (ent d') \<and> lun (ent d') \<le> 3 \<and>
    (r \<noteq> LASER_OPTICAL_YES \<longrightarrow> lun (ent d') = 0)" by simp
  then show ?thesis using probe_frame_trans [of "ent d" "ent ?d0"] by simp
qed

end

section \<open>What the probe decides\<close>

text \<open>The answers a run obtains, unit by unit, up to the one that ends it.\<close>

fun unit_answers ::
  "'w transport \<Rightarrow> 'w host \<Rightarrow> nat list \<Rightarrow> 'w dev \<Rightarrow> inquiry_result list" where
  "unit_answers send h [] d = []"
| "unit_answers send h (l # rest) d =
     (case inquiry_pdt send h (if l = 0 then LASER_INQUIRY_MAX_ATTEMPTS else 1)
             (upd_ent (\<lambda>e. e\<lparr>lun := of_nat l\<rparr>) d) of
        (a, d') \<Rightarrow>
          a # (if a = Inq_Gone \<or> a = Inq_Type SCSI_PDT_CD_DVD then []
               else unit_answers send h rest d'))"

text \<open>
  The verdict as laser_internal.h documents it: GONE when the device left during the probe, YES
  when a unit answered that it is a CD/DVD, NO_ANSWER when INQUIRY went unanswered on every
  unit, and otherwise LUN 0, to which the probe "falls back whenever anything is unsupported or
  inconclusive": only a direct-access block device there is rejected, anything else accepted.
\<close>

definition documented_verdict :: "inquiry_result list \<Rightarrow> laser_optical" where
  "documented_verdict replies =
     (if Inq_Gone \<in> set replies then LASER_OPTICAL_GONE
      else if Inq_Type SCSI_PDT_CD_DVD \<in> set replies then LASER_OPTICAL_YES
      else if \<forall>a \<in> set replies. a = Inq_No_Answer then LASER_OPTICAL_NO_ANSWER
      else if hd replies = Inq_Type SCSI_PDT_DIRECT_ACCESS then LASER_OPTICAL_NO
      else LASER_OPTICAL_YES)"

text \<open>
  Where the code departs from it: LUN 0 was silent, and another unit answered, but no CD/DVD one.
\<close>

definition only_unit_0_silent :: "inquiry_result list \<Rightarrow> bool" where
  "only_unit_0_silent replies \<longleftrightarrow>
     hd replies = Inq_No_Answer \<and> (\<exists>pdt. Inq_Type pdt \<in> set replies) \<and>
     Inq_Gone \<notin> set replies \<and> Inq_Type SCSI_PDT_CD_DVD \<notin> set replies"

lemma probe_units_rest:
  assumes "0 \<notin> set luns"
  shows "fst (probe_units send h luns lun0 d) =
    (let answers = unit_answers send h luns d in
     if Inq_Gone \<in> set answers then LASER_OPTICAL_GONE
     else if Inq_Type SCSI_PDT_CD_DVD \<in> set answers then LASER_OPTICAL_YES
     else case lun0 of None \<Rightarrow> LASER_OPTICAL_NO_ANSWER
       | Some pdt \<Rightarrow> if pdt = SCSI_PDT_DIRECT_ACCESS then LASER_OPTICAL_NO else LASER_OPTICAL_YES)"
  using assms
proof (induction luns arbitrary: d)
  case (Cons l luns)
  obtain a d1 where "inquiry_pdt send h 1 (upd_ent (\<lambda>e. e\<lparr>lun := of_nat l\<rparr>) d) = (a, d1)"
    by fastforce
  then show ?case using Cons.prems Cons.IH [of d1] by (cases a) (auto simp: Let_def)
qed (simp add: Let_def split: option.split)

lemma probe_units_verdict:
  "fst (probe_units send h (0 # map Suc luns) None d) =
     (let replies = unit_answers send h (0 # map Suc luns) d in
      if only_unit_0_silent replies then LASER_OPTICAL_NO_ANSWER
      else documented_verdict replies)"
proof -
  obtain a d1 where asked: "inquiry_pdt send h LASER_INQUIRY_MAX_ATTEMPTS
      (upd_ent (\<lambda>e. e\<lparr>lun := of_nat 0\<rparr>) d) = (a, d1)"
    by fastforce
  let ?rest = "unit_answers send h (map Suc luns) d1"
  have silent: "(\<forall>r \<in> set rs. r = Inq_No_Answer) \<or> Inq_Gone \<in> set rs \<or>
      (\<exists>pdt. Inq_Type pdt \<in> set rs)" for rs
    by (metis inquiry_result.exhaust)
  show ?thesis
  proof (cases a)
    case Inq_No_Answer
    with asked silent [of ?rest] show ?thesis
      using probe_units_rest [of "map Suc luns" send h None d1]
      by (auto simp: documented_verdict_def only_unit_0_silent_def Let_def)
  next
    case (Inq_Type pdt)
    with asked show ?thesis
      using probe_units_rest [of "map Suc luns" send h "Some pdt" d1]
      by (auto simp: documented_verdict_def only_unit_0_silent_def Let_def)
  next
    case Inq_Gone
    with asked show ?thesis
      by (auto simp: documented_verdict_def only_unit_0_silent_def Let_def)
  qed
qed

end
