(* ===== verification/Probe_Props.thy ===== *)
theory Probe_Props
  imports Probe Sample_Runs
begin

text \<open>The properties of the logical unit probe.\<close>

lemma upt_units: "[0..<Suc n] = 0 # map Suc [0..<n]"
  by (simp add: upt_conv_Cons map_Suc_upt del: upt_Suc)

text \<open>C33: the probe asks the units in order, from 0 to the highest GET MAX LUN names, at most 3, and
  no further than the first CD/DVD unit or the device leaving, and its verdict on their answers
  is the documented one, but for one case: when LUN 0 did not answer and another unit did, with
  a type other than CD/DVD, the device is declined as if no unit had answered, where
  laser_internal.h keeps that for a device silent on every unit.\<close>

theorem probe_verdict:
  "fst (laser_probe_lun send h d) =
     (let d0 = upd_ent (\<lambda>e. e\<lparr>lun := 0\<rparr>) d;
          ((ret, bs), d1) = do_control h USB_BOT_GETMAXLUN_bmREQUESTTYPE USB_BOT_GETMAXLUN_bREQUEST
            (iface_num (ent d0)) 1 d0;
          replies = unit_answers send h
            [0..<Suc (if ret = 1 \<and> bs \<noteq> [] then min (unat (hd bs)) 3 else 0)] d1
      in if only_unit_0_silent replies then LASER_OPTICAL_NO_ANSWER
         else documented_verdict replies)"
proof -
  have max: "probed_max_lun ret bs = (if ret = 1 \<and> bs \<noteq> [] then min (unat (hd bs)) 3 else 0)" for ret bs
    by (simp add: probed_max_lun_def split: list.split)
  show ?thesis
    by (simp add: laser_probe_lun_def Let_def case_prod_unfold max [symmetric] upt_units
        probe_units_verdict del: upt_Suc unit_answers.simps probe_units.simps)
qed

text \<open>
  The departure happens: two units, LUN 0 silent (its seven tries refused), LUN 1 a medium
  changer. The delays between the tries are left as they stand in the evaluation.
\<close>

definition probe_delay :: "nat \<Rightarrow> nat" where
  "probe_delay tries = push_bit (tries - 1) LASER_INQUIRY_RETRY_MS * 1000"

lemma inquiry_tries_delay [code]:
  "inquiry_tries send h tries 0 d = (Inq_No_Answer, d)"
  "inquiry_tries send h tries (Suc left) d =
     (case inquiry_try send h d of (out, d1) \<Rightarrow>
        if rc out = BOT_OK \<and> 1 \<le> the (actual_len out) then
          (Inq_Type (the (buf out) ! 0 AND SCSI_PDT_MASK), d1)
        else if rc out = BOT_FAIL_NO_DEVICE then (Inq_Gone, d1)
        else if left = 0 then (Inq_No_Answer, d1)
        else inquiry_tries send h (Suc tries) left (do_usleep h (probe_delay tries) d1))"
  by (simp_all only: inquiry_tries.simps probe_delay_def)

declare probe_delay_def [code del]

definition changer_host :: "sim host" where
  "changer_host = sim_host\<lparr>control_transfer := (\<lambda>hn a b c len w. ((int len, replicate len 1), w))\<rparr>"

lemma changer_behind_silent_unit:
  "fst (laser_probe_lun (laser_bot_send_locked changer_host) changer_host
     (sim_dev (replicate 7 (Refuse LIBUSB_ERROR_TIMEOUT 0) @ [Answer [8, 0x80] 0]))) =
   LASER_OPTICAL_NO_ANSWER"
  by code_simp

text \<open>The unit the entry is left addressing: the first CD/DVD one, else unit 0.\<close>

definition chosen_unit :: "inquiry_result list \<Rightarrow> nat" where
  "chosen_unit replies =
     (if replies \<noteq> [] \<and> last replies = Inq_Type SCSI_PDT_CD_DVD then length replies - 1 else 0)"

context bot_transport
begin

lemma probe_units_lun:
  assumes "unpublished h" and "\<not> in_use (ent d)" and "\<not> probe_timeouts (ent d)"
  shows "lun (ent (snd (probe_units send h luns lun0 d))) =
    (let replies = unit_answers send h luns d in
     if replies \<noteq> [] \<and> last replies = Inq_Type SCSI_PDT_CD_DVD
     then of_nat (luns ! (length replies - 1)) else 0)"
  using assms(2,3)
proof (induction luns arbitrary: lun0 d)
  case Nil
  then show ?case by (simp add: Let_def split: option.split)
next
  case (Cons l luns)
  let ?d0 = "upd_ent (\<lambda>e. e\<lparr>lun := of_nat l\<rparr>) d"
  obtain a d1 where inq: "inquiry_pdt send h
      (if l = 0 then LASER_INQUIRY_MAX_ATTEMPTS else 1) ?d0 = (a, d1)"
    by fastforce
  have d1: "\<not> probe_timeouts (ent d1)" "lun (ent d1) = of_nat l"
    using inquiry_pdt_frame(2,3) [OF assms(1) _ _ inq] Cons.prems by simp_all
  have hidden: "\<not> in_use (ent d1)"
    using probe_frameD(5) [OF inquiry_pdt_frame(1) [OF assms(1) _ _ inq]] Cons.prems by simp
  have replies: "unit_answers send h (l # luns) d =
      a # (if a = Inq_Gone \<or> a = Inq_Type SCSI_PDT_CD_DVD then [] else unit_answers send h luns d1)"
    using inq by simp
  show ?case
  proof (cases "a = Inq_Gone \<or> a = Inq_Type SCSI_PDT_CD_DVD")
    case True
    with inq d1 replies show ?thesis by auto
  next
    case False
    with inq obtain lun0' where
      rest: "probe_units send h (l # luns) lun0 d = probe_units send h luns lun0' d1"
      by (cases a) auto
    show ?thesis
      using Cons.IH [OF hidden d1(1), of lun0'] False replies unfolding rest
      by (cases "unit_answers send h luns d1") (auto simp: Let_def)
  qed
qed

end

text \<open>The probe, run before the entry is published, changes nothing of it but the tag, the
  log-once flags and the unit it addresses, which is the first CD/DVD unit or else unit 0, at
  most 3; and the short probe timeouts are over when it returns.\<close>

theorem probe_leaves_usable_entry:
  assumes "unpublished h" and "\<not> in_use (ent d)" and "\<not> probe_timeouts (ent d)"
    and run: "laser_probe_lun (laser_bot_send_locked h) h d = (r, d')"
  shows "probe_frame (ent d) (ent d') \<and> \<not> probe_timeouts (ent d') \<and> lun (ent d') \<le> 3 \<and>
    (r \<noteq> LASER_OPTICAL_YES \<longrightarrow> lun (ent d') = 0) \<and>
    (\<exists>max_lun d1. max_lun \<le> 3 \<and> lun (ent d') =
      of_nat (chosen_unit (unit_answers (laser_bot_send_locked h) h [0..<Suc max_lun] d1)))"
proof -
  let ?d0 = "upd_ent (\<lambda>e. e\<lparr>lun := 0\<rparr>) d"
  obtain ret bs d1 where c: "do_control h USB_BOT_GETMAXLUN_bmREQUESTTYPE
      USB_BOT_GETMAXLUN_bREQUEST (iface_num (ent ?d0)) 1 ?d0 = ((ret, bs), d1)"
    by (rule reply2_exhaust)
  then have "\<not> in_use (ent d1)" "\<not> probe_timeouts (ent d1)"
    using do_control_frame [of h USB_BOT_GETMAXLUN_bmREQUESTTYPE USB_BOT_GETMAXLUN_bREQUEST
        "iface_num (ent ?d0)" 1 ?d0] assms(2,3) by simp_all
  note lun = bot.probe_units_lun [OF assms(1) this, of "[0..<Suc (probed_max_lun ret bs)]" None]
  have units: "probe_units (laser_bot_send_locked h) h [0..<Suc (probed_max_lun ret bs)] None d1 = (r, d')"
    using run c by (simp add: laser_probe_lun_def del: upt_Suc)
  have short: "length (unit_answers send h luns d) \<le> length luns"
    for luns and send :: "'a transport" and d
    by (induction luns arbitrary: d) (auto split: prod.split)
  have "lun (ent d') = of_nat (chosen_unit (unit_answers (laser_bot_send_locked h) h
      [0..<Suc (probed_max_lun ret bs)] d1))"
    using lun units short [of "laser_bot_send_locked h" "[0..<Suc (probed_max_lun ret bs)]" d1]
    by (auto simp: chosen_unit_def Let_def Suc_le_eq simp del: upt_Suc)
  moreover have "probed_max_lun ret bs \<le> 3"
    by (simp add: probed_max_lun_def split: list.split)
  ultimately show ?thesis
    using bot.probe_lun_frame [OF assms] by blast
qed

lemma sim_unpublished: "unpublished sim_host"
  by (simp add: unpublished_def sim_host_def)

text \<open>The sample drive before it is published.\<close>

definition probing_dev :: "answer list \<Rightarrow> sim dev" where
  "probing_dev script = upd_ent (\<lambda>e. e\<lparr>in_use := False\<rparr>) (sim_dev script)"

theorem probe_leaves_usable_entry_witness:
  "let script = [Answer (replicate 36 5) 0]; (r, d') = laser_probe_lun (laser_bot_send_locked sim_host)
     sim_host (probing_dev script) in
   probe_frame (ent (probing_dev script)) (ent d') \<and> \<not> probe_timeouts (ent d') \<and> lun (ent d') \<le> 3 \<and>
    (r \<noteq> LASER_OPTICAL_YES \<longrightarrow> lun (ent d') = 0) \<and>
    (\<exists>max_lun d1. max_lun \<le> 3 \<and> lun (ent d') = of_nat (chosen_unit
      (unit_answers (laser_bot_send_locked sim_host) sim_host [0..<Suc max_lun] d1)))"
proof -
  let ?d = "probing_dev [Answer (replicate 36 5) 0]"
  obtain r d' where run: "laser_probe_lun (laser_bot_send_locked sim_host) sim_host ?d = (r, d')"
    by fastforce
  have "\<not> in_use (ent ?d)" "\<not> probe_timeouts (ent ?d)"
    by (simp_all add: probing_dev_def sim_dev_def sim_entry_def zero_entry_def)
  from probe_leaves_usable_entry [OF sim_unpublished this run] show ?thesis
    unfolding Let_def run prod.case .
qed

end
