(* ===== verification/Read.thy ===== *)
theory Read
  imports Command_Total
begin

text \<open>
  The LBA-aware chunked block reads of scsi.c, with the negotiation of the transfer size. They are
  parameterised on the command they issue for one chunk; the library's reads instantiate it with
  \<open>laser_scsi_cdb()\<close>.
\<close>

type_synonym 'w command =
  "byte list \<Rightarrow> int \<Rightarrow> byte list option \<Rightarrow> int \<Rightarrow> bool \<Rightarrow> int option \<Rightarrow> 'w sys \<Rightarrow>
     (cdb_out \<times> 'w sys) option"

definition scsi_command :: "'w host \<Rightarrow> int \<Rightarrow> 'w command" where
  "scsi_command h tk cdb n data len inward act s =
     laser_scsi_cdb h tk (Some cdb) n data len inward act s"

section \<open>The transfer cap\<close>

text \<open>\<open>lower_transfer_cap()\<close> on the entry in slot \<open>i\<close>.\<close>

definition lower_cap :: "int \<Rightarrow> laser_entry \<Rightarrow> laser_entry" where
  "lower_cap bytes e =
     (if bytes < max_transfer_bytes e then e\<lparr>max_transfer_bytes := bytes\<rparr> else e)"

definition lower_transfer_cap :: "'w host \<Rightarrow> nat \<Rightarrow> int \<Rightarrow> 'w sys \<Rightarrow> 'w sys" where
  "lower_transfer_cap h i bytes s =
     put_dev i (upd_ent (lower_cap bytes) (lock_io h (dev_of i s))) s"

section \<open>One round of the loop\<close>

record read_locals =
  blocks_done :: int
  trial_cap :: int
  trial_end :: int
  trial_failed :: int
  r_buffer :: "byte list"

text \<open>How many blocks the next command asks for.\<close>

definition next_chunk :: "nat option \<Rightarrow> int \<Rightarrow> int \<Rightarrow> read_locals \<Rightarrow> 'w sys \<Rightarrow> int" where
  "next_chunk slot num_blocks block_size L s =
     (let cap0 = (case slot of Some i \<Rightarrow> max_transfer_bytes (g_entries s ! i)
                  | None \<Rightarrow> LASER_MAX_BYTES_PER_TRANSFER);
          cap = (if 0 < trial_cap L \<and> trial_cap L < cap0 then trial_cap L else cap0);
          max_blocks = (if c_div cap block_size < 1 then 1 else c_div cap block_size);
          left = num_blocks - blocks_done L
      in if max_blocks < left then max_blocks else left)"

text \<open>After a failed chunk: \<open>Inl\<close> is the value returned, \<open>Inr\<close> the next round's locals.\<close>

definition read_failed ::
  "nat option \<Rightarrow> int \<Rightarrow> int \<Rightarrow> laser_status \<Rightarrow> read_locals \<Rightarrow> int + read_locals" where
  "read_failed slot block_size chunk st L =
     (if st = LASER_ERR_MEDIA_GONE \<or> st = LASER_ERR_NO_DEVICE \<or> st = LASER_ERR_CANCELLED then
        Inl (status_code st)
      else
        let tried = chunk * block_size in
        if st = LASER_ERR_IO \<and> 1 < chunk \<and> slot \<noteq> None \<and> LASER_MIN_BYTES_PER_TRANSFER < tried then
          let L1 = (if trial_cap L = 0
                    then L\<lparr>trial_end := blocks_done L + chunk, trial_failed := tried\<rparr> else L);
              half = c_div tried 2
          in Inr (L1\<lparr>trial_cap :=
               if half < LASER_MIN_BYTES_PER_TRANSFER then LASER_MIN_BYTES_PER_TRANSFER else half\<rparr>)
        else Inl (if 0 < blocks_done L then blocks_done L else status_code st))"

text \<open>After a chunk that completed: a short read ends the loop, else the range may be covered.\<close>

definition read_done ::
  "'w host \<Rightarrow> nat option \<Rightarrow> int \<Rightarrow> int \<Rightarrow> int \<Rightarrow> read_locals \<Rightarrow> 'w sys \<Rightarrow>
     (int + read_locals) \<times> 'w sys" where
  "read_done h slot block_size chunk got L s =
     (if got \<noteq> chunk * block_size then
        let short_total = blocks_done L + c_div got block_size in
        (Inl (if short_total = 0 then status_code LASER_ERR_IO else short_total), s)
      else
        let L1 = L\<lparr>blocks_done := blocks_done L + chunk\<rparr> in
        if 0 < trial_cap L1 \<and> trial_end L1 \<le> blocks_done L1 then
          (Inr (L1\<lparr>trial_cap := 0\<rparr>), lower_transfer_cap h (the slot) (trial_cap L1) s)
        else (Inr L1, s))"

definition read_round ::
  "'w command \<Rightarrow> 'w host \<Rightarrow> nat option \<Rightarrow> u32 \<Rightarrow> int \<Rightarrow> int \<Rightarrow> int \<Rightarrow> (u32 \<Rightarrow> int \<Rightarrow> byte list) \<Rightarrow>
     read_locals \<Rightarrow> 'w sys \<Rightarrow> ((int + read_locals) \<times> byte list \<times> 'w sys) option" where
  "read_round cmd h slot lba num_blocks block_size cdb_len build_cdb L s =
     (let chunk = next_chunk slot num_blocks block_size L s;
          off = nat (blocks_done L * block_size);
          cdb = build_cdb (lba + word_of_int (blocks_done L)) chunk
      in case cmd cdb cdb_len (Some (take (nat (chunk * block_size)) (drop off (r_buffer L))))
                  (chunk * block_size) True (Some 0) s of
           None \<Rightarrow> None
         | Some (out, s1) \<Rightarrow>
             let buffer = write_at off (the (o_data out)) (r_buffer L);
                 L1 = L\<lparr>r_buffer := buffer\<rparr>
             in if status out \<noteq> LASER_OK then
                  Some (read_failed slot block_size chunk (status out) L1, buffer, s1)
                else
                  (case read_done h slot block_size chunk (the (o_actual out)) L1 s1 of
                     (r, s2) \<Rightarrow> Some (r, buffer, s2)))"

section \<open>The loop ends\<close>

definition read_rank :: "int \<Rightarrow> read_locals \<Rightarrow> nat \<times> nat \<times> nat" where
  "read_rank num_blocks L =
     (nat (num_blocks - blocks_done L), if trial_cap L \<le> 0 then 1 else 0, nat (trial_cap L))"

lemma c_div_neg: "a < 0 \<Longrightarrow> 0 < (b :: int) \<Longrightarrow> a sdiv b \<le> 0"
  by (simp add: signed_divide_int_def pos_imp_zdiv_nonneg_iff)

lemma next_chunk_pos:
  "blocks_done L < num_blocks \<Longrightarrow> 1 \<le> next_chunk slot num_blocks block_size L s \<and>
     next_chunk slot num_blocks block_size L s \<le> num_blocks - blocks_done L"
  by (simp add: next_chunk_def Let_def)

text \<open>More than one block is only asked for within the size being tried.\<close>

lemma next_chunk_within:
  assumes "0 < trial_cap L" and "1 < next_chunk slot num_blocks block_size L s"
    and "0 < block_size"
  shows "next_chunk slot num_blocks block_size L s * block_size \<le> trial_cap L"
proof -
  define cap0 where "cap0 = (case slot of Some i \<Rightarrow> max_transfer_bytes (g_entries s ! i)
    | None \<Rightarrow> LASER_MAX_BYTES_PER_TRANSFER)"
  define cap where "cap = (if 0 < trial_cap L \<and> trial_cap L < cap0 then trial_cap L else cap0)"
  define m where "m = c_div cap block_size"
  have n: "next_chunk slot num_blocks block_size L s =
      (if (if m < 1 then 1 else m) < num_blocks - blocks_done L then if m < 1 then 1 else m
       else num_blocks - blocks_done L)"
    unfolding next_chunk_def Let_def cap0_def [symmetric] cap_def [symmetric] m_def [symmetric] ..
  then have m: "next_chunk slot num_blocks block_size L s \<le> m" "1 < m"
    using assms(2) by (auto split: if_splits)
  have "0 \<le> cap"
    using c_div_neg [of cap block_size] m(2) assms(3) by (force simp: m_def)
  then have "m * block_size \<le> cap"
    using assms(3) pos_mod_sign [of block_size cap]
    by (simp add: m_def mult.commute minus_mod_eq_mult_div [symmetric])
  moreover have "cap \<le> trial_cap L" using assms(1) by (simp add: cap_def)
  moreover have "next_chunk slot num_blocks block_size L s * block_size \<le> m * block_size"
    using m(1) assms(3) by simp
  ultimately show ?thesis by linarith
qed


lemma read_failed_rank:
  assumes "read_failed slot block_size chunk st L = Inr L'"
    and "0 < trial_cap L \<Longrightarrow> 0 < block_size \<Longrightarrow> chunk * block_size \<le> trial_cap L"
    and "1 \<le> chunk"
  shows "blocks_done L' = blocks_done L" and "0 < trial_cap L'" and "trial_cap L' < chunk * block_size"
    and "0 < trial_cap L \<Longrightarrow> trial_cap L' < trial_cap L"
proof -
  have tried: "LASER_MIN_BYTES_PER_TRANSFER < chunk * block_size" "1 < chunk"
    and L': "blocks_done L' = blocks_done L" "trial_cap L' = (if c_div (chunk * block_size) 2 < 8192
      then 8192 else c_div (chunk * block_size) 2)"
    using assms(1) by (auto simp: read_failed_def Let_def split: if_splits)
  have half: "c_div (chunk * block_size) 2 = chunk * block_size div 2"
    using tried by simp
  have "0 < block_size"
    using tried assms(3) by (smt (verit) zero_less_mult_iff)
  show "blocks_done L' = blocks_done L" by (rule L'(1))
  show "0 < trial_cap L'" and smaller: "trial_cap L' < chunk * block_size"
    using L'(2) tried half by auto
  show "0 < trial_cap L \<Longrightarrow> trial_cap L' < trial_cap L"
    using smaller assms(2) \<open>0 < block_size\<close> by linarith
qed

lemma read_done_rank:
  assumes "read_done h slot block_size chunk got L s = (Inr L', s')" and "1 \<le> chunk"
  shows "blocks_done L' = blocks_done L + chunk"
  using assms by (auto simp: read_done_def Let_def split: if_splits)

lemma read_round_rank:
  assumes run: "read_round cmd h slot lba num_blocks block_size cdb_len build_cdb L s =
      Some (Inr L', buffer, s')"
    and more: "blocks_done L < num_blocks"
  shows "(read_rank num_blocks L', read_rank num_blocks L) \<in> less_than <*lex*> less_than <*lex*> less_than"
proof -
  let ?c = "next_chunk slot num_blocks block_size L s"
  note pos = next_chunk_pos [OF more, of slot block_size s]
  obtain buf' where step: "(\<exists>st. read_failed slot block_size ?c st (L\<lparr>r_buffer := buf'\<rparr>) = Inr L') \<or>
      (\<exists>got s1. read_done h slot block_size ?c got (L\<lparr>r_buffer := buf'\<rparr>) s1 = (Inr L', s'))"
    using run by (auto simp: read_round_def Let_def split: option.splits if_splits prod.splits)
  then show ?thesis
  proof (elim disjE exE)
    fix st assume f: "read_failed slot block_size ?c st (L\<lparr>r_buffer := buf'\<rparr>) = Inr L'"
    then have "1 < ?c" by (auto simp: read_failed_def Let_def split: if_splits)
    then have "0 < trial_cap L \<Longrightarrow> 0 < block_size \<Longrightarrow> ?c * block_size \<le> trial_cap L"
      using next_chunk_within by blast
    with read_failed_rank [OF f] pos show ?thesis
      by (cases "0 < trial_cap L") (auto simp: read_rank_def)
  next
    fix got s1 assume "read_done h slot block_size ?c got (L\<lparr>r_buffer := buf'\<rparr>) s1 = (Inr L', s')"
    from read_done_rank [OF this] pos more show ?thesis by (auto simp: read_rank_def)
  qed
qed

function read_loop ::
  "'w command \<Rightarrow> 'w host \<Rightarrow> nat option \<Rightarrow> u32 \<Rightarrow> int \<Rightarrow> int \<Rightarrow> int \<Rightarrow> (u32 \<Rightarrow> int \<Rightarrow> byte list) \<Rightarrow>
     read_locals \<Rightarrow> 'w sys \<Rightarrow> (int \<times> byte list \<times> 'w sys) option" where
  "read_loop cmd h slot lba num_blocks block_size cdb_len build_cdb L s =
     (if \<not> blocks_done L < num_blocks then Some (blocks_done L, r_buffer L, s)
      else case read_round cmd h slot lba num_blocks block_size cdb_len build_cdb L s of
          None \<Rightarrow> None
        | Some (Inl r, buffer, s') \<Rightarrow> Some (r, buffer, s')
        | Some (Inr L', buffer, s') \<Rightarrow>
            read_loop cmd h slot lba num_blocks block_size cdb_len build_cdb L' s')"
  by pat_completeness auto
termination
proof (relation "inv_image (less_than <*lex*> less_than <*lex*> less_than)
    (\<lambda>(cmd, h, slot, lba, num_blocks, block_size, cdb_len, build_cdb, L, s).
       read_rank num_blocks L)")
  show "wf (inv_image (less_than <*lex*> less_than <*lex*> less_than)
      (\<lambda>(cmd, h, slot, lba, num_blocks, block_size, cdb_len, build_cdb, L, s).
         read_rank num_blocks L))"
    by (intro wf_inv_image wf_lex_prod wf_less_than)
qed (auto dest: read_round_rank)

section \<open>The reads of the library\<close>

definition read_start :: "byte list \<Rightarrow> read_locals" where
  "read_start buffer = \<lparr>blocks_done = 0, trial_cap = 0, trial_end = 0, trial_failed = 0,
     r_buffer = buffer\<rparr>"

definition read_chunked ::
  "'w command \<Rightarrow> 'w host \<Rightarrow> int \<Rightarrow> u32 \<Rightarrow> int \<Rightarrow> int \<Rightarrow> int \<Rightarrow> (u32 \<Rightarrow> int \<Rightarrow> byte list) \<Rightarrow>
     byte list \<Rightarrow> 'w sys \<Rightarrow> (int \<times> byte list \<times> 'w sys) option" where
  "read_chunked cmd h tk lba num_blocks block_size cdb_len build_cdb buffer s =
     (if num_blocks \<le> 0 then Some (0, buffer, s)
      else read_loop cmd h (laser_lookup tk s) lba num_blocks block_size cdb_len build_cdb
             (read_start buffer) s)"

definition build_read10_cdb :: "u32 \<Rightarrow> int \<Rightarrow> byte list" where
  "build_read10_cdb lba blocks =
     [0x28, 0, ucast (drop_bit 24 lba), ucast (drop_bit 16 lba), ucast (drop_bit 8 lba), ucast lba,
      0, word_of_int (drop_bit 8 blocks), word_of_int blocks, 0, 0, 0, 0, 0, 0, 0]"

definition laser_read_blocks ::
  "'w host \<Rightarrow> int \<Rightarrow> u32 \<Rightarrow> int \<Rightarrow> byte list \<Rightarrow> 'w sys \<Rightarrow> (int \<times> byte list \<times> 'w sys) option" where
  "laser_read_blocks h tk lba num_blocks buffer s =
     read_chunked (scsi_command h tk) h tk lba num_blocks 2048 10 build_read10_cdb buffer s"

record read_cd_ctx =
  expected_type :: byte
  field_flags :: byte

definition build_read_cd_cdb :: "read_cd_ctx \<Rightarrow> u32 \<Rightarrow> int \<Rightarrow> byte list" where
  "build_read_cd_cdb rcx lba blocks =
     [0xBE, expected_type rcx, ucast (drop_bit 24 lba), ucast (drop_bit 16 lba),
      ucast (drop_bit 8 lba), ucast lba, word_of_int (drop_bit 16 blocks),
      word_of_int (drop_bit 8 blocks), word_of_int blocks, field_flags rcx, 0, 0, 0, 0, 0, 0]"

definition read_cd_sector_ctx :: "laser_cd_sector \<Rightarrow> read_cd_ctx option" where
  "read_cd_sector_ctx kind =
     (case kind of
        LASER_CD_SECTOR_AUDIO \<Rightarrow> Some \<lparr>expected_type = 0x04, field_flags = 0x10\<rparr>
      | LASER_CD_SECTOR_MODE2_FORM2 \<Rightarrow> Some \<lparr>expected_type = 0x14, field_flags = 0xF8\<rparr>
      | LASER_CD_SECTOR_ANY \<Rightarrow> Some \<lparr>expected_type = 0x00, field_flags = 0xF8\<rparr>
      | CD_SECTOR_OTHER _ \<Rightarrow> None)"

definition laser_read_cd_blocks ::
  "'w host \<Rightarrow> int \<Rightarrow> u32 \<Rightarrow> int \<Rightarrow> laser_cd_sector \<Rightarrow> byte list \<Rightarrow> 'w sys \<Rightarrow>
     (int \<times> byte list \<times> 'w sys) option" where
  "laser_read_cd_blocks h tk lba num_blocks kind buffer s =
     (case read_cd_sector_ctx kind of
        None \<Rightarrow> Some (status_code LASER_ERR_INVALID, buffer, s)
      | Some rcx \<Rightarrow>
          read_chunked (scsi_command h tk) h tk lba num_blocks 2352 12 (build_read_cd_cdb rcx)
            buffer s)"

end
