(* ===== verification/Read_Laws.thy ===== *)
theory Read_Laws
  imports Read
begin

text \<open>
  What the chunked reads promise, against the contract of the command they issue: the locale
  below, which the library's command primitive provides.
\<close>

section \<open>The loop, round by round\<close>

lemma read_loop_invariant:
  assumes loop: "read_loop cmd h slot lba num_blocks block_size cdb_len build_cdb L s = Some (r, b, s')"
    and init: "I L s"
    and step: "\<And>L s L' b s'. I L s \<Longrightarrow> blocks_done L < num_blocks \<Longrightarrow>
      read_round cmd h slot lba num_blocks block_size cdb_len build_cdb L s = Some (Inr L', b, s') \<Longrightarrow>
      I L' s'"
    and stop: "\<And>L s r b s'. I L s \<Longrightarrow> blocks_done L < num_blocks \<Longrightarrow>
      read_round cmd h slot lba num_blocks block_size cdb_len build_cdb L s = Some (Inl r, b, s') \<Longrightarrow>
      Q r b s'"
    and exit: "\<And>L s. I L s \<Longrightarrow> num_blocks \<le> blocks_done L \<Longrightarrow> Q (blocks_done L) (r_buffer L) s"
  shows "Q r b s'"
proof -
  have "read_loop cmd h slot lba num_blocks block_size cdb_len build_cdb L s = Some (r, b, s') \<longrightarrow>
      I L s \<longrightarrow> Q r b s'" for L s
  proof (induction "read_rank num_blocks L" arbitrary: L s
      rule: wf_induct_rule [OF wf_lex_prod [OF wf_less_than wf_lex_prod [OF wf_less_than wf_less_than]]])
    case 1
    show ?case
    proof (intro impI)
      assume loop: "read_loop cmd h slot lba num_blocks block_size cdb_len build_cdb L s = Some (r, b, s')"
        and inv: "I L s"
      show "Q r b s'"
      proof (cases "blocks_done L < num_blocks")
        case False
        with loop exit [OF inv] show ?thesis by (simp add: read_loop.simps [of _ _ _ _ _ _ _ _ L])
      next
        case True
        with loop obtain res b1 s1 where round:
          "read_round cmd h slot lba num_blocks block_size cdb_len build_cdb L s = Some (res, b1, s1)"
          by (subst (asm) read_loop.simps) (auto split: option.splits)
        show ?thesis
        proof (cases res)
          case (Inl r')
          with loop True round stop [OF inv] show ?thesis
            by (subst (asm) read_loop.simps) auto
        next
          case (Inr L')
          with loop True round
          have "read_loop cmd h slot lba num_blocks block_size cdb_len build_cdb L' s1 = Some (r, b, s')"
            by (subst (asm) read_loop.simps) auto
          with 1 [OF read_round_rank [OF round [unfolded Inr] True]]
            step [OF inv True round [unfolded Inr]] show ?thesis by blast
        qed
      qed
    qed
  qed
  with loop init show ?thesis by blast
qed

lemma read_round_cases:
  assumes run: "read_round cmd h slot lba num_blocks block_size cdb_len build_cdb L s = Some (res, b, s')"
  obtains chunk out s1 where "chunk = next_chunk slot num_blocks block_size L s"
      and "cmd (build_cdb (lba + word_of_int (blocks_done L)) chunk) cdb_len
             (Some (take (nat (chunk * block_size)) (drop (nat (blocks_done L * block_size)) (r_buffer L))))
             (chunk * block_size) True (Some 0) s = Some (out, s1)"
      and "b = write_at (nat (blocks_done L * block_size)) (the (o_data out)) (r_buffer L)"
      and "status out \<noteq> LASER_OK" and "s' = s1"
      and "res = read_failed slot block_size chunk (status out) (L\<lparr>r_buffer := b\<rparr>)"
  | chunk out s1 where "chunk = next_chunk slot num_blocks block_size L s"
      and "cmd (build_cdb (lba + word_of_int (blocks_done L)) chunk) cdb_len
             (Some (take (nat (chunk * block_size)) (drop (nat (blocks_done L * block_size)) (r_buffer L))))
             (chunk * block_size) True (Some 0) s = Some (out, s1)"
      and "b = write_at (nat (blocks_done L * block_size)) (the (o_data out)) (r_buffer L)"
      and "status out = LASER_OK"
      and "read_done h slot block_size chunk (the (o_actual out)) (L\<lparr>r_buffer := b\<rparr>) s1 = (res, s')"
  using run by (auto simp: read_round_def Let_def split: option.splits if_splits prod.splits)

lemma read_failed_Inr:
  assumes "read_failed slot block_size chunk st L = Inr L'"
  shows "blocks_done L' = blocks_done L" and "r_buffer L' = r_buffer L"
    and "LASER_MIN_BYTES_PER_TRANSFER \<le> trial_cap L'"
  using assms by (auto simp: read_failed_def Let_def split: if_splits)

lemma read_failed_Inl:
  assumes "read_failed slot block_size chunk st L = Inl r" and "st \<noteq> LASER_OK"
  shows "(0 < r \<and> r = blocks_done L) \<or> r = status_code st"
  using assms by (auto simp: read_failed_def Let_def split: if_splits)

lemma read_done_Inr:
  assumes "read_done h slot block_size chunk got L s = (Inr L', s')"
  shows "got = chunk * block_size" and "blocks_done L' = blocks_done L + chunk"
    and "r_buffer L' = r_buffer L"
    and "(trial_cap L' = trial_cap L \<and> s' = s) \<or>
      (trial_cap L' = 0 \<and> 0 < trial_cap L \<and> s' = lower_transfer_cap h (the slot) (trial_cap L) s)"
  using assms by (auto simp: read_done_def Let_def split: if_splits)

lemma read_done_Inl:
  assumes "read_done h slot block_size chunk got L s = (Inl r, s')"
  shows "got \<noteq> chunk * block_size" and "s' = s"
    and "r = (if blocks_done L + c_div got block_size = 0 then -2
      else blocks_done L + c_div got block_size)"
  using assms by (auto simp: read_done_def Let_def split: if_splits)

section \<open>The command's contract\<close>

locale block_command =
  fixes h :: "'w host" and cmd :: "'w command"
  assumes cmd_buffer:
      "usb_bounded h \<Longrightarrow> cmd cdb n (Some bs) len True (Some 0) s = Some (o', s') \<Longrightarrow>
         0 \<le> len \<Longrightarrow> len < 2 ^ 31 \<Longrightarrow> nat len \<le> length bs \<Longrightarrow>
         \<exists>bs' a. o_data o' = Some bs' \<and> length bs' = length bs \<and> o_actual o' = Some a \<and>
           0 \<le> a \<and> a \<le> len"
    and cmd_rely:
      "threads_rely h \<Longrightarrow> cmd cdb n data len inward act s = Some (o', s') \<Longrightarrow>
         entry_rely (g_entries s ! i) (g_entries s' ! i) \<and>
         length (g_entries s') = length (g_entries s)"
begin

text \<open>What holds at the head of every round of a read into a buffer of a given length.\<close>

definition reading :: "int \<Rightarrow> int \<Rightarrow> nat \<Rightarrow> read_locals \<Rightarrow> bool" where
  "reading num_blocks block_size room L \<longleftrightarrow>
     0 \<le> blocks_done L \<and> blocks_done L \<le> num_blocks \<and> length (r_buffer L) = room"

lemma chunk_geometry:
  assumes "reading num_blocks block_size room L" and "blocks_done L < num_blocks"
    and "0 < block_size" and "nat (num_blocks * block_size) \<le> room"
    and "chunk = next_chunk slot num_blocks block_size L s"
  shows "1 \<le> chunk" and "blocks_done L + chunk \<le> num_blocks"
    and "nat (blocks_done L * block_size) + nat (chunk * block_size) \<le> room"
    and "chunk * block_size \<le> num_blocks * block_size"
proof -
  from next_chunk_pos [OF assms(2), of slot block_size s] assms(5)
  show pos: "1 \<le> chunk" and le: "blocks_done L + chunk \<le> num_blocks" by auto
  have "(blocks_done L + chunk) * block_size \<le> num_blocks * block_size"
    using le assms(3) by (intro mult_right_mono) auto
  moreover have "0 \<le> blocks_done L * block_size" "0 \<le> chunk * block_size"
    using assms(1,3) pos by (auto simp: reading_def)
  ultimately show "nat (blocks_done L * block_size) + nat (chunk * block_size) \<le> room"
    and "chunk * block_size \<le> num_blocks * block_size"
    using assms(4) by (auto simp: distrib_right)
qed

text \<open>One command of a read: it fills its part of the buffer and nothing else.\<close>

lemma chunk_call:
  assumes "usb_bounded h" and geom: "reading num_blocks block_size room L"
      "blocks_done L < num_blocks" "0 < block_size" "nat (num_blocks * block_size) \<le> room"
      "chunk = next_chunk slot num_blocks block_size L s"
    and "num_blocks * block_size < 2 ^ 31"
    and call: "cmd cdb n (Some (take (nat (chunk * block_size))
        (drop (nat (blocks_done L * block_size)) (r_buffer L)))) (chunk * block_size) True (Some 0) s =
      Some (out, s1)"
  obtains data got where "o_data out = Some data" and "length data = nat (chunk * block_size)"
    and "o_actual out = Some got" and "0 \<le> got" and "got \<le> chunk * block_size"
    and "length (write_at (nat (blocks_done L * block_size)) data (r_buffer L)) = room"
proof -
  note g = chunk_geometry [OF geom]
  have whole: "length (r_buffer L) = room" using geom(1) by (simp add: reading_def)
  have "0 \<le> chunk * block_size" using g(1) geom(3) by simp
  moreover have "length (take (nat (chunk * block_size))
      (drop (nat (blocks_done L * block_size)) (r_buffer L))) = nat (chunk * block_size)"
    using g(3) whole by simp
  ultimately obtain data got where "o_data out = Some data" "length data = nat (chunk * block_size)"
    "o_actual out = Some got" "0 \<le> got" "got \<le> chunk * block_size"
    using cmd_buffer [OF assms(1) call] g(4) assms(7) by auto
  moreover from this have "length (write_at (nat (blocks_done L * block_size)) data (r_buffer L)) =
      length (r_buffer L)"
    using g(3) whole by (intro length_write_at) metis
  ultimately show thesis using whole by (intro that) simp_all
qed

lemma read_round_keeps:
  assumes "usb_bounded h" and geom: "reading num_blocks block_size room L"
      "blocks_done L < num_blocks" "0 < block_size" "nat (num_blocks * block_size) \<le> room"
    and "num_blocks * block_size < 2 ^ 31"
    and run: "read_round cmd h slot lba num_blocks block_size n build L s = Some (res, b, s')"
  shows "length b = room" and "res = Inr L' \<Longrightarrow> reading num_blocks block_size room L'"
    and "res = Inl r \<Longrightarrow> r \<le> num_blocks \<and> (0 < r \<or> (\<exists>st. st \<noteq> LASER_OK \<and> r = status_code st))"
proof -
  note geom' = geom(1-4) refl
  let ?R = "length b = room \<and> (\<forall>L'. res = Inr L' \<longrightarrow> reading num_blocks block_size room L') \<and>
    (\<forall>r. res = Inl r \<longrightarrow> r \<le> num_blocks \<and> (0 < r \<or> (\<exists>st. st \<noteq> LASER_OK \<and> r = status_code st)))"
  from run have ?R
  proof (cases rule: read_round_cases)
    case (1 chunk out s1)
    obtain data got where c: "o_data out = Some data"
      "length (write_at (nat (blocks_done L * block_size)) data (r_buffer L)) = room"
      using chunk_call [OF assms(1) geom 1(1) assms(6) 1(2)] by metis
    have "r \<le> num_blocks \<and> (0 < r \<or> (\<exists>st. st \<noteq> LASER_OK \<and> r = status_code st))" if "res = Inl r" for r
      using read_failed_Inl [of slot block_size chunk "status out" "L\<lparr>r_buffer := b\<rparr>" r] that 1
        geom(2) status_code_le_0 [of "status out"] geom(1) by (auto simp: reading_def)
    with c 1 geom(1) show ?thesis
      by (auto simp: reading_def dest!: sym [of "Inr _"] dest: read_failed_Inr)
  next
    case (2 chunk out s1)
    obtain data got where c: "o_data out = Some data" "o_actual out = Some got" "0 \<le> got"
      "got \<le> chunk * block_size"
      "length (write_at (nat (blocks_done L * block_size)) data (r_buffer L)) = room"
      using chunk_call [OF assms(1) geom 2(1) assms(6) 2(2)] by metis
    note g = chunk_geometry [OF geom 2(1)]
    have len: "length b = room" using c 2(3) by simp
    show ?thesis
    proof (cases res)
      case (Inl r)
      with 2(5) c have r: "r = (if blocks_done L + c_div got block_size = 0 then -2
          else blocks_done L + c_div got block_size)"
        using read_done_Inl(3) by fastforce
      have "0 \<le> got div block_size" using c(3) geom(3) by (simp add: pos_imp_zdiv_nonneg_iff)
      moreover have "got div block_size \<le> chunk"
        using c(4) geom(3) by (metis nonzero_mult_div_cancel_right not_less_iff_gr_or_eq zdiv_mono1)
      ultimately have "r \<le> num_blocks \<and> (0 < r \<or> r = status_code LASER_ERR_IO)"
        using r g geom(1,3) c(3) by (auto simp: reading_def)
      with Inl len show ?thesis by blast
    next
      case (Inr L')
      from read_done_Inr(2,3) [OF 2(5) [unfolded Inr]] g geom(1) len Inr show ?thesis
        by (auto simp: reading_def)
    qed
  qed
  then show "length b = room" and "res = Inr L' \<Longrightarrow> reading num_blocks block_size room L'"
    and "res = Inl r \<Longrightarrow> r \<le> num_blocks \<and> (0 < r \<or> (\<exists>st. st \<noteq> LASER_OK \<and> r = status_code st))"
    by blast+
qed

lemma read_chunked_contract:
  assumes "usb_bounded h" and "0 < block_size" and "nat (num_blocks * block_size) \<le> length buffer"
    and "num_blocks * block_size < 2 ^ 31"
    and run: "read_chunked cmd h tk lba num_blocks block_size n build buffer s0 = Some (r, b, s')"
  shows "length b = length buffer \<and> (r = 0 \<longleftrightarrow> num_blocks \<le> 0) \<and> r \<le> max num_blocks 0 \<and>
    (r < 0 \<longrightarrow> (\<exists>st. st \<noteq> LASER_OK \<and> r = status_code st))"
proof (cases "num_blocks \<le> 0")
  case True
  with run show ?thesis by (auto simp: read_chunked_def)
next
  case False
  with run have loop: "read_loop cmd h (laser_lookup tk s0) lba num_blocks block_size n build
      (read_start buffer) s0 = Some (r, b, s')"
    by (simp add: read_chunked_def)
  have "length b = length buffer \<and> r \<le> num_blocks \<and>
      (0 < r \<or> (\<exists>st. st \<noteq> LASER_OK \<and> r = status_code st))"
    using loop
  proof (rule read_loop_invariant [where I = "\<lambda>L _. reading num_blocks block_size (length buffer) L"
        and Q = "\<lambda>r b _. length b = length buffer \<and> r \<le> num_blocks \<and>
          (0 < r \<or> (\<exists>st. st \<noteq> LASER_OK \<and> r = status_code st))"])
    show "reading num_blocks block_size (length buffer) (read_start buffer)"
      using False by (simp add: reading_def read_start_def)
  next
    fix L s L' b s'
    assume "reading num_blocks block_size (length buffer) L" "blocks_done L < num_blocks"
      and "read_round cmd h (laser_lookup tk s0) lba num_blocks block_size n build L s =
        Some (Inr L', b, s')"
    then show "reading num_blocks block_size (length buffer) L'"
      using read_round_keeps(2) [OF assms(1) _ _ assms(2,3,4)] by blast
  next
    fix L s r b s'
    assume "reading num_blocks block_size (length buffer) L" "blocks_done L < num_blocks"
      and "read_round cmd h (laser_lookup tk s0) lba num_blocks block_size n build L s =
        Some (Inl r, b, s')"
    then show "length b = length buffer \<and> r \<le> num_blocks \<and>
        (0 < r \<or> (\<exists>st. st \<noteq> LASER_OK \<and> r = status_code st))"
      using read_round_keeps(1,3) [OF assms(1) _ _ assms(2,3,4)] by blast
  qed (use False in \<open>auto simp: reading_def\<close>)
  then show ?thesis
  proof (elim conjE disjE exE)
    fix st assume "length b = length buffer" "r \<le> num_blocks" "st \<noteq> LASER_OK" "r = status_code st"
    moreover from this have "r < 0" using status_code_neg_iff [of st] by simp
    ultimately show ?thesis using False by auto
  qed (use False in auto)
qed


end

section \<open>The bytes read\<close>

text \<open>A disc as a function from addresses to blocks, and a run of its blocks.\<close>

definition disc_bytes :: "(u32 \<Rightarrow> byte list) \<Rightarrow> u32 \<Rightarrow> nat \<Rightarrow> byte list" where
  "disc_bytes disc lba k = concat (map (\<lambda>i. disc (lba + of_nat i)) [0..<k])"

text \<open>
  A drive that serves it: whenever the command for a chunk succeeds, the bytes it reports are a
  prefix of the blocks asked for.
\<close>

definition serves ::
  "'w command \<Rightarrow> (u32 \<Rightarrow> int \<Rightarrow> byte list) \<Rightarrow> int \<Rightarrow> int \<Rightarrow> (u32 \<Rightarrow> byte list) \<Rightarrow> bool" where
  "serves cmd build n block_size disc \<longleftrightarrow>
     (\<forall>b. length (disc b) = nat block_size) \<and>
     (\<forall>lba k bs s o' s' a data. 0 < k \<longrightarrow>
        cmd (build lba (int k)) n (Some bs) (int k * block_size) True (Some 0) s = Some (o', s') \<longrightarrow>
        status o' = LASER_OK \<longrightarrow> o_actual o' = Some a \<longrightarrow> o_data o' = Some data \<longrightarrow>
        take (nat a) data = take (nat a) (disc_bytes disc lba k))"

text \<open>The same of a drive: whenever a transaction carrying such a command passes.\<close>

definition drive_serves ::
  "'w host \<Rightarrow> (u32 \<Rightarrow> int \<Rightarrow> byte list) \<Rightarrow> int \<Rightarrow> int \<Rightarrow> (u32 \<Rightarrow> byte list) \<Rightarrow> bool" where
  "drive_serves h build n block_size disc \<longleftrightarrow>
     (\<forall>b. length (disc b) = nat block_size) \<and>
     (\<forall>lba k room act d out d' a data. 0 < k \<longrightarrow>
        laser_bot_send_locked h (build lba (int k)) n (Some room) (int k * block_size) True act
          (Some (-1)) d = (out, d') \<longrightarrow>
        rc out = BOT_OK \<longrightarrow> actual_len out = Some a \<longrightarrow> buf out = Some data \<longrightarrow>
        take (nat a) data = take (nat a) (disc_bytes disc lba k))"

lemma servesD:
  assumes "serves cmd build n block_size disc" and "0 < k"
    and "cmd (build lba (int k)) n (Some bs) (int k * block_size) True (Some 0) s = Some (o', s')"
    and "status o' = LASER_OK" and "o_actual o' = Some a" and "o_data o' = Some data"
  shows "take (nat a) data = take (nat a) (disc_bytes disc lba k)"
  using assms(1) [unfolded serves_def, THEN conjunct2, rule_format, OF assms(2-6)] .

lemma disc_bytes_add:
  "disc_bytes disc lba (j + k) = disc_bytes disc lba j @ disc_bytes disc (lba + of_nat j) k"
  by (induction k) (simp_all add: disc_bytes_def add.assoc)

lemma length_disc_bytes:
  "(\<And>b. length (disc b) = m) \<Longrightarrow> length (disc_bytes disc lba k) = k * m"
  by (simp add: disc_bytes_def length_concat comp_def sum_list_triv)

lemma take_disc_bytes:
  assumes "\<And>b. length (disc b) = m" and "j \<le> k"
  shows "take (j * m) (disc_bytes disc lba k) = disc_bytes disc lba j"
proof -
  obtain i where "k = j + i" using assms(2) le_Suc_ex by blast
  then show ?thesis
    using length_disc_bytes [of disc m lba j] assms(1) by (simp add: disc_bytes_add)
qed

lemma take_write_at:
  assumes "off + length bs \<le> length xs" and "j \<le> length bs"
  shows "take (off + j) (write_at off bs xs) = take off xs @ take j bs"
  using assms by (simp add: write_at_def)

lemma take_write_at_start: "off \<le> length xs \<Longrightarrow> take off (write_at off bs xs) = take off xs"
  by (simp add: write_at_def)

context block_command
begin

definition read_so_far :: "(u32 \<Rightarrow> byte list) \<Rightarrow> u32 \<Rightarrow> int \<Rightarrow> read_locals \<Rightarrow> bool" where
  "read_so_far disc lba block_size L \<longleftrightarrow>
     take (nat (blocks_done L) * nat block_size) (r_buffer L) = disc_bytes disc lba (nat (blocks_done L))"

lemma read_round_content:
  assumes usb: "usb_bounded h" and geom: "reading num_blocks block_size room L"
      "blocks_done L < num_blocks" "0 < block_size" "nat (num_blocks * block_size) \<le> room"
    and small: "num_blocks * block_size < 2 ^ 31" and serve: "serves cmd build n block_size disc"
    and so_far: "read_so_far disc lba block_size L"
    and run: "read_round cmd h slot lba num_blocks block_size n build L s = Some (res, b, s')"
  shows "res = Inr L' \<Longrightarrow> read_so_far disc lba block_size L'"
    and "res = Inl r \<Longrightarrow> 0 < r \<Longrightarrow> take (nat r * nat block_size) b = disc_bytes disc lba (nat r)"
proof -
  let ?m = "nat block_size" and ?j = "nat (blocks_done L)"
  have pre: "0 \<le> blocks_done L" "length (r_buffer L) = room" using geom(1) by (auto simp: reading_def)
  have off: "nat (blocks_done L * block_size) = ?j * ?m"
    using pre geom(3) by (simp add: nat_mult_distrib)
  have kept: "take (?j * ?m) (write_at (?j * ?m) data (r_buffer L)) = disc_bytes disc lba ?j"
    if "?j * ?m \<le> length (r_buffer L)" for data
    using so_far that by (simp add: read_so_far_def take_write_at_start)
  have disc: "length (disc x) = ?m" for x using serve by (simp add: serves_def)
  have goals: "(\<forall>L'. res = Inr L' \<longrightarrow> read_so_far disc lba block_size L') \<and>
    (\<forall>r. res = Inl r \<longrightarrow> 0 < r \<longrightarrow> take (nat r * ?m) b = disc_bytes disc lba (nat r))"
    using run
  proof (cases rule: read_round_cases)
    case (1 chunk out s1)
    have fits: "?j * ?m \<le> length (r_buffer L)"
      using chunk_geometry(3) [OF geom 1(1)] off pre by simp
    from kept [OF fits] 1(3) off have b: "take (?j * ?m) b = disc_bytes disc lba ?j" by simp
    have "take (nat r * ?m) b = disc_bytes disc lba (nat r)" if "res = Inl r" "0 < r" for r
      using read_failed_Inl [of slot block_size chunk "status out" "L\<lparr>r_buffer := b\<rparr>" r] that 1(4,6)
        status_code_le_0 [of "status out"] b by auto
    moreover have "read_so_far disc lba block_size L'" if "res = Inr L'" for L'
      using read_failed_Inr(1,2) [of slot block_size chunk "status out" "L\<lparr>r_buffer := b\<rparr>" L']
        that 1(6) b by (simp add: read_so_far_def)
    ultimately show ?thesis by blast
  next
    case (2 chunk out s1)
    obtain data got where c: "o_data out = Some data" "length data = nat (chunk * block_size)"
      "o_actual out = Some got" "0 \<le> got" "got \<le> chunk * block_size"
      using chunk_call [OF usb geom 2(1) small 2(2)] by metis
    note g = chunk_geometry [OF geom 2(1)]
    define k where "k = nat chunk"
    have chunk: "chunk = int k" "0 < k" using g(1) by (simp_all add: k_def)
    have len: "length data = k * ?m" using c(2) chunk geom(3) by (simp add: nat_mult_distrib)
    have fits: "?j * ?m + length data \<le> length (r_buffer L)" using g(3) off c(2) pre(2) by simp
    have data: "take (nat got) data = take (nat got) (disc_bytes disc (lba + of_nat ?j) k)"
    proof -
      have addr: "(word_of_int (blocks_done L) :: u32) = of_nat ?j"
        by (rule of_nat_nat [OF pre(1), symmetric])
      from servesD [OF serve chunk(2) 2(2) [unfolded addr chunk(1)] 2(4) c(3,1)] show ?thesis .
    qed
    have prefix: "take ((?j + i) * ?m) b = disc_bytes disc lba (?j + i)" if "i \<le> k" "i * ?m \<le> nat got" for i
    proof -
      have "take ((?j + i) * ?m) b = take (?j * ?m) (r_buffer L) @ take (i * ?m) data"
        using take_write_at [OF fits, of "i * ?m"] that(1) len 2(3) off c(1)
        by (simp add: add_mult_distrib)
      also have "take (i * ?m) data = take (i * ?m) (take (nat got) data)"
        using that(2) by (simp add: min_def)
      also have "\<dots> = take (i * ?m) (disc_bytes disc (lba + of_nat ?j) k)"
        using that(2) by (simp add: data min_def)
      also have "\<dots> = disc_bytes disc (lba + of_nat ?j) i" by (rule take_disc_bytes [OF disc that(1)])
      finally show ?thesis using so_far by (simp add: read_so_far_def disc_bytes_add)
    qed
    show ?thesis
    proof (cases res)
      case (Inl r)
      let ?i = "nat (got div block_size)"
      have i: "?i \<le> k" "?i * ?m \<le> nat got"
      proof -
        have "got div block_size \<le> int k"
          using c(5) geom(3) chunk by (metis nonzero_mult_div_cancel_right not_less_iff_gr_or_eq zdiv_mono1)
        then show "?i \<le> k" by simp
        have "got div block_size * block_size \<le> got"
          using pos_mod_sign [OF geom(3), of got] by (simp add: minus_mod_eq_div_mult [symmetric])
        then show "?i * ?m \<le> nat got"
          using c(4) geom(3) by (simp add: nat_mult_distrib [symmetric] pos_imp_zdiv_nonneg_iff nat_mono)
      qed
      have "r = blocks_done L + got div block_size" if "0 < r"
        using read_done_Inl(3) [of h slot block_size chunk got "L\<lparr>r_buffer := b\<rparr>" s1 r s'] 2(5) Inl c that
          geom(3) by (auto split: if_splits)
      then have "nat r = ?j + ?i" if "0 < r"
        using that pre(1) c(4) geom(3) by (simp add: nat_add_distrib pos_imp_zdiv_nonneg_iff)
      with prefix [OF i] Inl show ?thesis by auto
    next
      case (Inr L')
      note d = read_done_Inr(1-3) [OF 2(5) [unfolded Inr]]
      have "nat got = k * ?m" using d(1) c(3) chunk geom(3) by (simp add: nat_mult_distrib)
      with prefix [of k] have "take ((?j + k) * ?m) b = disc_bytes disc lba (?j + k)" by simp
      moreover have "nat (blocks_done L') = ?j + k"
        using d(2) pre(1) chunk by (simp add: nat_add_distrib)
      ultimately show ?thesis using d(3) Inr by (simp add: read_so_far_def)
    qed
  qed
  then show "res = Inr L' \<Longrightarrow> read_so_far disc lba block_size L'"
    and "res = Inl r \<Longrightarrow> 0 < r \<Longrightarrow> take (nat r * nat block_size) b = disc_bytes disc lba (nat r)"
    by blast+
qed


lemma read_chunked_content:
  assumes usb: "usb_bounded h" and bs: "0 < block_size"
    and room: "nat (num_blocks * block_size) \<le> length buffer"
    and small: "num_blocks * block_size < 2 ^ 31" and serve: "serves cmd build n block_size disc"
    and run: "read_chunked cmd h tk lba num_blocks block_size n build buffer s0 = Some (r, b, s')"
    and some: "0 < r"
  shows "take (nat r * nat block_size) b = disc_bytes disc lba (nat r)"
proof -
  have pos: "0 < num_blocks" using run some by (auto simp: read_chunked_def split: if_splits)
  with run have loop: "read_loop cmd h (laser_lookup tk s0) lba num_blocks block_size n build
      (read_start buffer) s0 = Some (r, b, s')"
    by (simp add: read_chunked_def)
  have "0 < r \<longrightarrow> take (nat r * nat block_size) b = disc_bytes disc lba (nat r)"
    using loop
  proof (rule read_loop_invariant [where I = "\<lambda>L _. reading num_blocks block_size (length buffer) L \<and>
        read_so_far disc lba block_size L" and Q = "\<lambda>r b _. 0 < r \<longrightarrow>
        take (nat r * nat block_size) b = disc_bytes disc lba (nat r)"])
    show "reading num_blocks block_size (length buffer) (read_start buffer) \<and>
        read_so_far disc lba block_size (read_start buffer)"
      using pos by (simp add: reading_def read_so_far_def read_start_def disc_bytes_def)
  next
    fix L s L' b s'
    assume inv: "reading num_blocks block_size (length buffer) L \<and> read_so_far disc lba block_size L"
      "blocks_done L < num_blocks"
      and "read_round cmd h (laser_lookup tk s0) lba num_blocks block_size n build L s =
        Some (Inr L', b, s')"
    then show "reading num_blocks block_size (length buffer) L' \<and> read_so_far disc lba block_size L'"
      using read_round_keeps(2) [OF usb _ _ bs room small]
        read_round_content(1) [OF usb _ _ bs room small serve] by blast
  next
    fix L s r b s'
    assume "reading num_blocks block_size (length buffer) L \<and> read_so_far disc lba block_size L"
      "blocks_done L < num_blocks"
      and "read_round cmd h (laser_lookup tk s0) lba num_blocks block_size n build L s =
        Some (Inl r, b, s')"
    then show "0 < r \<longrightarrow> take (nat r * nat block_size) b = disc_bytes disc lba (nat r)"
      using read_round_content(2) [OF usb _ _ bs room small serve] by blast
  qed (simp add: read_so_far_def)
  with some show ?thesis by blast
qed

section \<open>The transfer cap\<close>

lemma lower_cap_rely:
  assumes "threads_rely h" and "i < length (g_entries s)"
    and "LASER_MIN_BYTES_PER_TRANSFER \<le> bytes"
  shows "entry_rely (g_entries s ! j) (g_entries (lower_transfer_cap h i bytes s) ! j)"
    and "length (g_entries (lower_transfer_cap h i bytes s)) = length (g_entries s)"
proof -
  have "entry_rely (g_entries s ! i) (ent (lock_io h (dev_of i s)))"
    using assms(1) by (simp add: threads_rely_def lock_io_def case_prod_unfold)
  moreover have "entry_rely e (lower_cap bytes e)" for e
    using assms(3) by (simp add: lower_cap_def entry_rely_def)
  ultimately show "entry_rely (g_entries s ! j) (g_entries (lower_transfer_cap h i bytes s) ! j)"
    using assms(2) by (cases "j = i") (auto simp: lower_transfer_cap_def intro: entry_rely_trans)
  show "length (g_entries (lower_transfer_cap h i bytes s)) = length (g_entries s)"
    by (simp add: lower_transfer_cap_def)
qed

definition shared_ok :: "laser_entry list \<Rightarrow> 'w sys \<Rightarrow> bool" where
  "shared_ok es s \<longleftrightarrow> length (g_entries s) = length es \<and>
     (\<forall>j. entry_rely (es ! j) (g_entries s ! j))"

lemma read_round_shared:
  assumes rely: "threads_rely h" and shared: "shared_ok es s"
    and trial: "trial_cap L = 0 \<or> LASER_MIN_BYTES_PER_TRANSFER \<le> trial_cap L \<and> slot \<noteq> None"
    and slot: "\<And>i. slot = Some i \<Longrightarrow> i < length es"
    and run: "read_round cmd h slot lba num_blocks block_size n build L s = Some (res, b, s')"
  shows "shared_ok es s' \<and> (\<forall>L'. res = Inr L' \<longrightarrow>
    trial_cap L' = 0 \<or> LASER_MIN_BYTES_PER_TRANSFER \<le> trial_cap L' \<and> slot \<noteq> None)"
proof -
  have after: "shared_ok es s1" if "cmd cdb n data len True (Some 0) s = Some (out, s1)"
    for cdb data len out s1
    using cmd_rely [OF rely that] shared by (auto simp: shared_ok_def intro: entry_rely_trans)
  from run show ?thesis
  proof (cases rule: read_round_cases)
    case (1 chunk out s1)
    have "LASER_MIN_BYTES_PER_TRANSFER \<le> trial_cap L' \<and> slot \<noteq> None" if "res = Inr L'" for L'
      using that 1(6) read_failed_Inr(3) [of slot block_size chunk "status out" "L\<lparr>r_buffer := b\<rparr>" L']
      by (auto simp: read_failed_def Let_def split: if_splits)
    with after [OF 1(2)] 1(5) show ?thesis by blast
  next
    case (2 chunk out s1)
    show ?thesis
    proof (cases res)
      case (Inl r)
      with read_done_Inl(2) [OF 2(5) [unfolded Inl]] after [OF 2(2)] show ?thesis by simp
    next
      case (Inr L')
      from read_done_Inr(4) [OF 2(5) [unfolded Inr]]
      show ?thesis
      proof (elim disjE conjE)
        assume "trial_cap L' = trial_cap (L\<lparr>r_buffer := b\<rparr>)" "s' = s1"
        with after [OF 2(2)] trial Inr show ?thesis by simp
      next
        assume low: "trial_cap L' = 0" "0 < trial_cap (L\<lparr>r_buffer := b\<rparr>)"
          "s' = lower_transfer_cap h (the slot) (trial_cap (L\<lparr>r_buffer := b\<rparr>)) s1"
        then obtain i where i: "slot = Some i" "LASER_MIN_BYTES_PER_TRANSFER \<le> trial_cap L"
          using trial by auto
        have s1: "shared_ok es s1" using after [OF 2(2)] .
        then have "i < length (g_entries s1)" using slot [OF i(1)] by (simp add: shared_ok_def)
        from lower_cap_rely [OF rely this i(2)] s1 low i Inr show ?thesis
          by (auto simp: shared_ok_def intro: entry_rely_trans)
      qed
    qed
  qed
qed

lemma read_chunked_shared:
  assumes rely: "threads_rely h"
    and run: "read_chunked cmd h tk lba num_blocks block_size n build buffer s0 = Some (r, b, s')"
  shows "length (g_entries s') = length (g_entries s0) \<and>
    (\<forall>j. entry_rely (g_entries s0 ! j) (g_entries s' ! j))"
proof (cases "num_blocks \<le> 0")
  case True
  with run show ?thesis by (simp add: read_chunked_def)
next
  case False
  with run have loop: "read_loop cmd h (laser_lookup tk s0) lba num_blocks block_size n build
      (read_start buffer) s0 = Some (r, b, s')"
    by (simp add: read_chunked_def)
  let ?slot = "laser_lookup tk s0"
  have slot: "i < length (g_entries s0)" if "?slot = Some i" for i
    using that by (rule laser_lookup_Some)
  have "shared_ok (g_entries s0) s'"
    using loop
  proof (rule read_loop_invariant [where Q = "\<lambda>_ _ s'. shared_ok (g_entries s0) s'" and
      I = "\<lambda>L s. shared_ok (g_entries s0) s \<and> (trial_cap L = 0 \<or>
        LASER_MIN_BYTES_PER_TRANSFER \<le> trial_cap L \<and> ?slot \<noteq> None)"])
    show "shared_ok (g_entries s0) s0 \<and> (trial_cap (read_start buffer) = 0 \<or>
        LASER_MIN_BYTES_PER_TRANSFER \<le> trial_cap (read_start buffer) \<and> ?slot \<noteq> None)"
      by (simp add: shared_ok_def read_start_def)
  next
    fix L s L' b s'
    assume "shared_ok (g_entries s0) s \<and> (trial_cap L = 0 \<or>
        LASER_MIN_BYTES_PER_TRANSFER \<le> trial_cap L \<and> ?slot \<noteq> None)"
      "read_round cmd h ?slot lba num_blocks block_size n build L s = Some (Inr L', b, s')"
    then show "shared_ok (g_entries s0) s' \<and> (trial_cap L' = 0 \<or>
        LASER_MIN_BYTES_PER_TRANSFER \<le> trial_cap L' \<and> ?slot \<noteq> None)"
      using read_round_shared [OF rely _ _ slot] by blast
  next
    fix L s r b s'
    assume "shared_ok (g_entries s0) s \<and> (trial_cap L = 0 \<or>
        LASER_MIN_BYTES_PER_TRANSFER \<le> trial_cap L \<and> ?slot \<noteq> None)"
      "read_round cmd h ?slot lba num_blocks block_size n build L s = Some (Inl r, b, s')"
    then show "shared_ok (g_entries s0) s'"
      using read_round_shared [OF rely _ _ slot] by blast
  qed simp
  then show ?thesis by (simp add: shared_ok_def)
qed

end

section \<open>The command primitive provides it\<close>

context bot_transport
begin

text \<open>The caller's buffer and length across the attempts of one command.\<close>

definition carried :: "nat \<Rightarrow> int \<Rightarrow> cdb_locals \<Rightarrow> bool" where
  "carried room len L \<longleftrightarrow> (\<exists>bs a. c_data L = Some bs \<and> length bs = room \<and> c_actual L = Some a \<and>
     0 \<le> a \<and> a \<le> len)"

lemma carried_send:
  assumes "usb_bounded h" and "0 \<le> len" and "len < 2 ^ 31" and "nat len \<le> room"
    and "carried room len L"
    and "send cdb n (c_data L) len inward (c_actual L) csw d = (out, d')"
  shows "carried room len (L'\<lparr>c_data := buf out, c_actual := actual_len out\<rparr>)"
proof -
  obtain bs a where L: "c_data L = Some bs" "length bs = room" "c_actual L = Some a" "0 \<le> a" "a \<le> len"
    using assms(5) by (auto simp: carried_def)
  have fits: "buffer_fits (Some bs) len" using L(2) assms(4) by simp
  from send_buf [where cdb = cdb and n = n and inward = inward and act = "Some a" and csw = csw
      and d = d, OF assms(1,2) fits]
    send_actual [where cdb = cdb and n = n and inward = inward and csw = csw and d = d,
      OF assms(1,2) fits assms(3) refl L(4,5)] assms(6) L
  show ?thesis by (auto simp: carried_def)
qed

lemma carried_after_failure:
  "carried room len (L\<lparr>c_data := buf out, c_actual := actual_len out\<rparr>) \<Longrightarrow>
     carried room len (after_failure out L)"
  by (simp add: carried_def)

lemma wait_ready_locals:
  "c_data (fst (cdb_wait_ready h sn L d)) = c_data L"
  "c_actual (fst (cdb_wait_ready h sn L d)) = c_actual L"
  by (simp_all add: cdb_wait_ready_def case_prod_unfold)

lemma failed_carried:
  assumes "cdb_failed h idempotent r sn L d = (res, L', d')" and "carried room len L"
  shows "carried room len L'"
  using assms(1)
proof (cases rule: cdb_failed_cases)
  case wait
  then show ?thesis using wait_ready_locals [of sn L d] assms(2) by (simp add: carried_def)
qed (use assms(2) in \<open>auto simp: carried_def\<close>)

lemma attempt_carried:
  assumes "usb_bounded h" and "0 \<le> len" and "len < 2 ^ 31" and "nat len \<le> room"
    and "carried room len L"
    and "cdb_attempt send h cdb n len inward idempotent L d = (res, L', d')"
  shows "carried room len L'"
  using assms(6)
proof (cases rule: cdb_attempt_cases)
  case cancelled
  with assms(5) show ?thesis by (simp add: carried_def)
next
  case (ok d1 t d2 out d3)
  from carried_send [OF assms(1-5) ok(3), of "L\<lparr>attempts_made := attempt L\<rparr>"] ok(6)
  show ?thesis by simp
next
  case (gone d1 t d2 out d3)
  from carried_send [OF assms(1-5) gone(3), of L] gone(6) show ?thesis
    by (simp add: carried_after_failure)
next
  case (failed d1 t d2 out d3 sn d4)
  from carried_send [OF assms(1-5) failed(3), of L] have "carried room len (after_failure out L)"
    by (rule carried_after_failure)
  with failed(7) show ?thesis by (rule failed_carried)
qed

lemma entry_call_buffer:
  assumes "usb_bounded h" and "0 \<le> len" and "len < 2 ^ 31" and "nat len \<le> length bs"
    and run: "scsi_cdb_entry send h cdb n (Some bs) len inward (Some 0) d = Some (o', d')"
  shows "\<exists>bs' a. o_data o' = Some bs' \<and> length bs' = length bs \<and> o_actual o' = Some a \<and>
    0 \<le> a \<and> a \<le> len"
  using run
proof (cases rule: entry_call_cases)
  case (ran d1 result L d2)
  have "carried (length bs) len L"
    using ran(4)
  proof (rule cdb_loop_invariant [where I = "\<lambda>L _. carried (length bs) len L" and
        Q = "\<lambda>_ L _. carried (length bs) len L"])
    show "carried (length bs) len (cdb_start (Some bs) (Some 0))"
      using assms(2) by (simp add: carried_def cdb_start_def)
  next
    fix L d L' d'
    assume "carried (length bs) len L" and a: "cdb_attempt send h cdb n len inward
      (\<not> laser_cdb_changes_css_state cdb n \<and> (inward \<or> len = 0)) L d = (None, L', d')"
    from attempt_carried [OF assms(1-4) this]
    show "carried (length bs) len (L'\<lparr>attempt := attempt L' + 1\<rparr>)" by (simp add: carried_def)
  next
    fix L d st L' d'
    assume "carried (length bs) len L" and a: "cdb_attempt send h cdb n len inward
      (\<not> laser_cdb_changes_css_state cdb n \<and> (inward \<or> len = 0)) L d = (Some st, L', d')"
    from attempt_carried [OF assms(1-4) this] show "carried (length bs) len L'" .
  qed
  with ran(5) show ?thesis by (auto simp: carried_def)
qed (use assms(2) in auto)

end

lemma scsi_command_runs:
  assumes "scsi_command h tk cdb n data len inward act s = Some (o', s')"
  shows "(o_data o' = data \<and> o_actual o' = act \<and> s' = s) \<or>
    (\<exists>i d'. laser_lookup tk s = Some i \<and> s' = put_dev i d' s \<and>
       scsi_cdb_entry (laser_bot_send_locked h) h cdb n data len inward act (dev_of i s) = Some (o', d'))"
  using assms by (auto simp: scsi_command_def laser_scsi_cdb_def Let_def split: if_splits option.splits)

interpretation scsi: block_command h "scsi_command h tk"
proof
  fix cdb n and bs :: "byte list" and len s o' s'
  assume "usb_bounded h" "scsi_command h tk cdb n (Some bs) len True (Some 0) s = Some (o', s')"
    "0 \<le> len" "len < 2 ^ 31" "nat len \<le> length bs"
  with scsi_command_runs [of h tk cdb n "Some bs" len True "Some 0" s o' s']
  show "\<exists>bs' a. o_data o' = Some bs' \<and> length bs' = length bs \<and> o_actual o' = Some a \<and> 0 \<le> a \<and>
      a \<le> len"
    using bot.entry_call_buffer by fastforce
next
  fix cdb n data len inward act s o' s' i
  assume "threads_rely h" "scsi_command h tk cdb n data len inward act s = Some (o', s')"
  note rely = this(1) and runs = scsi_command_runs [OF this(2)]
  from runs show "entry_rely (g_entries s ! i) (g_entries s' ! i) \<and>
      length (g_entries s') = length (g_entries s)"
  proof
    assume "\<exists>k d'. laser_lookup tk s = Some k \<and> s' = put_dev k d' s \<and>
       scsi_cdb_entry (laser_bot_send_locked h) h cdb n data len inward act (dev_of k s) =
         Some (o', d')"
    then obtain k d' where k: "laser_lookup tk s = Some k" "s' = put_dev k d' s"
      "scsi_cdb_entry (laser_bot_send_locked h) h cdb n data len inward act (dev_of k s) =
        Some (o', d')"
      by (elim exE conjE)
    have "entry_rely (g_entries s ! k) (ent d')"
      using bot.entry_call_rely [OF rely k(3)] by simp
    moreover have "k < length (g_entries s)" by (rule laser_lookup_Some(1) [OF k(1)])
    ultimately show ?thesis using k(2) by (cases "i = k") simp_all
  qed simp
qed

end
