(* ===== verification/Sample_Disc.thy ===== *)
theory Sample_Disc
  imports Read_Laws Spinup Sample_Runs
begin

text \<open>
  A drive that plays a disc: a host answering each command block with what a given function says of
  it. It runs the library on whole discs where the scripts of Sample_Drive would not do.
\<close>

section \<open>Decoding the command blocks\<close>

definition be32_word :: "byte \<Rightarrow> byte \<Rightarrow> byte \<Rightarrow> byte \<Rightarrow> u32" where
  "be32_word a b c d = le32_word d c b a"

lemma be32_word_bytes:
  "be32_word (ucast (drop_bit 24 w)) (ucast (drop_bit 16 w)) (ucast (drop_bit 8 w)) (ucast w) = w"
  by (simp add: be32_word_def le32_word_bytes)

lemma unat_byte_of_int: "unat (word_of_int i :: byte) = nat (i mod 256)"
  by (simp add: unat_eq_nat_uint uint_word_of_int)

lemma count16:
  fixes n :: int
  shows "256 * unat (word_of_int (drop_bit 8 n) :: byte) + unat (word_of_int n :: byte) = nat (n mod 65536)"
proof -
  have "n mod 65536 = n mod 256 + 256 * (n div 256 mod 256)"
    using zmod_zmult2_eq [of 256 n 256] by simp
  moreover have "0 \<le> n mod 256" "0 \<le> n div 256 mod 256" by simp_all
  ultimately show ?thesis
    by (simp add: unat_byte_of_int drop_bit_eq_div nat_add_distrib nat_mult_distrib)
qed

lemma count24:
  fixes n :: int
  shows "65536 * unat (word_of_int (drop_bit 16 n) :: byte) +
    256 * unat (word_of_int (drop_bit 8 n) :: byte) + unat (word_of_int n :: byte) = nat (n mod 16777216)"
proof -
  have "n mod 16777216 = n mod 65536 + 65536 * (n div 65536 mod 256)"
    using zmod_zmult2_eq [of 256 n 65536] by simp
  moreover have "0 \<le> n mod 65536" "0 \<le> n div 65536 mod 256" by simp_all
  ultimately show ?thesis using count16 [of n]
    by (simp add: unat_byte_of_int drop_bit_eq_div nat_add_distrib nat_mult_distrib)
qed

text \<open>What READ(10) addresses, decoded from the command block in the wrapper.\<close>

definition read10_lba :: "byte list \<Rightarrow> u32" where
  "read10_lba cb = be32_word (cb ! 2) (cb ! 3) (cb ! 4) (cb ! 5)"

definition read10_count :: "byte list \<Rightarrow> nat" where
  "read10_count cb = 256 * unat (cb ! 7) + unat (cb ! 8)"

lemma cbw_bytes_cb: "drop 15 (cbw_bytes c) = CBWCB c"
  by (simp add: cbw_bytes_def le32_bytes_def)

lemma read10_padded:
  "pad16 (take 10 (build_read10_cdb lba k)) = build_read10_cdb lba k"
  by (simp add: pad16_def write_prefix_def build_read10_cdb_def eval_nat_numeral)

lemma read10_decode:
  "read10_lba (build_read10_cdb lba k) = lba"
  "read10_count (build_read10_cdb lba k) = nat (k mod 65536)"
  by (simp_all add: read10_lba_def read10_count_def build_read10_cdb_def be32_word_bytes count16)

section \<open>Playing commands\<close>

text \<open>\<open>None\<close> refuses the command; the empty answer is a command without data that passed.\<close>

definition player_bulk_out ::
  "(byte list \<Rightarrow> byte list option) \<Rightarrow> handle \<Rightarrow> byte \<Rightarrow> byte list \<Rightarrow> nat \<Rightarrow> sim \<Rightarrow> (libusb_ret \<times> nat) \<times> sim" where
  "player_bulk_out play hn ep bs t w =
     ((LIBUSB_SUCCESS, length bs),
      w\<lparr>pipe := (case play (drop 15 bs) of
          None \<Rightarrow> [None, Some (sim_csw bs 1)]
        | Some [] \<Rightarrow> [Some (sim_csw bs 0)]
        | Some payload \<Rightarrow> [Some payload, Some (sim_csw bs 0)])\<rparr>)"

definition player_host :: "(byte list \<Rightarrow> byte list option) \<Rightarrow> sim host" where
  "player_host play = sim_host\<lparr>bulk_out := player_bulk_out play\<rparr>"

lemma player_usb_bounded: "usb_bounded (player_host play)"
  using sim_usb_bounded by (simp add: usb_bounded_def player_host_def player_bulk_out_def)

lemma player_threads_rely: "threads_rely (player_host play)"
  using sim_threads_rely by (simp add: threads_rely_def player_host_def)

lemma player_host_sel [simp]:
  "bulk_out (player_host play) = player_bulk_out play" "bulk_in (player_host play) = sim_bulk_in"
  "clock_gettime (player_host play) = sim_clock" "other_threads (player_host play) = (\<lambda>e w. (e, w))"
  "other_cancel (player_host play) = sim_cancel" "clear_halt (player_host play) = (\<lambda>hn ep w. (LIBUSB_SUCCESS, w))"
  by (simp_all add: player_host_def sim_host_def)

section \<open>One transaction\<close>

lemma player_send:
  fixes d :: "sim dev"
  assumes "play (pad16 (take (nat n) cdb)) = Some payload" and "payload \<noteq> []"
    and "int (length payload) \<le> len" and "0 \<le> n" and "n \<le> 16"
  shows "\<exists>out d'. laser_bot_send_locked (player_host play) cdb n (Some room) len True act csw d = (out, d') \<and>
    rc out = BOT_OK \<and> buf out = Some (write_prefix payload room) \<and>
    actual_len out = map_option (\<lambda>_. int (length payload)) act \<and>
    ent d' = (ent d)\<lparr>tag := tag (ent d) + 1\<rparr> \<and> cancels (world d') = cancels (world d)"
proof -
  let ?c = "build_cbw ((ent d)\<lparr>tag := tag (ent d) + 1\<rparr>) cdb n len True"
  have cb: "CBWCB ?c = pad16 (take (nat n) cdb)" by (rule CBWCB_build_cbw)
  have len: "length (CBWCB ?c) = 16" using assms unfolding cb pad16_def by (subst length_write_prefix) auto
  have tg: "dCBWTag ?c = tag (ent d) + 1" by (simp add: build_cbw_def)
  have pos: "0 < len" using assms(2,3) by (cases payload) auto
  have plays: "play (drop 15 (cbw_bytes ?c)) = Some payload" using assms(1) by (simp add: cbw_bytes_cb cb)
  obtain b bs where payload: "payload = b # bs" using assms(2) by (cases payload) auto
  have fits: "take (nat len) payload = payload" using assms(3) by simp
  show ?thesis
    using plays pos tg len fits assms(4,5) payload
    by (cases act) (auto simp: laser_bot_send_locked_def bot_cbw_phase_def do_bulk_out_def bot_data_phase_def
        bot_data_transfer_def bot_residue_def bot_csw_phase_def bot_csw_read_def do_bulk_in_def
        bot_finish_def Let_def player_bulk_out_def sim_bulk_in_def sim_csw_def
        cbw_bytes_tag length_cbw_bytes csw_of_csw_bytes upd_ent_def)
qed

lemma player_refuses:
  fixes d :: "sim dev"
  assumes "play (pad16 (take (nat n) cdb)) = None" and "0 < len" and "0 \<le> n" and "n \<le> 16"
    and "laser_bot_send_locked (player_host play) cdb n (Some room) len True act csw d = (out, d')"
  shows "rc out \<noteq> BOT_OK"
proof -
  let ?c = "build_cbw ((ent d)\<lparr>tag := tag (ent d) + 1\<rparr>) cdb n len True"
  have cb: "CBWCB ?c = pad16 (take (nat n) cdb)" by (rule CBWCB_build_cbw)
  have len: "length (CBWCB ?c) = 16" using assms unfolding cb pad16_def by (subst length_write_prefix) auto
  have tg: "dCBWTag ?c = tag (ent d) + 1" by (simp add: build_cbw_def)
  have plays: "play (drop 15 (cbw_bytes ?c)) = None" using assms(1) by (simp add: cbw_bytes_cb cb)
  show ?thesis
    using plays tg len assms(2-5)
    by (cases act) (auto simp: bot_residue_def laser_bot_send_locked_def bot_cbw_phase_def do_bulk_out_def bot_data_phase_def
        bot_data_transfer_def bot_clear_stall_def do_clear_halt_def bot_csw_phase_def bot_csw_read_def
        do_bulk_in_def bot_finish_def Let_def player_bulk_out_def sim_bulk_in_def sim_csw_def
        cbw_bytes_tag length_cbw_bytes csw_of_csw_bytes upd_ent_def)
qed

lemma player_send_no_data:
  fixes d :: "sim dev"
  assumes "play (pad16 (take (nat n) cdb)) = Some []" and "0 \<le> n" and "n \<le> 16"
  shows "\<exists>out d'. laser_bot_send_locked (player_host play) cdb n None 0 False None (Some c) d = (out, d') \<and>
    rc out = BOT_OK \<and> ent d' = (ent d)\<lparr>tag := tag (ent d) + 1\<rparr> \<and> cancels (world d') = cancels (world d)"
proof -
  let ?c = "build_cbw ((ent d)\<lparr>tag := tag (ent d) + 1\<rparr>) cdb n 0 False"
  have cb: "CBWCB ?c = pad16 (take (nat n) cdb)" by (rule CBWCB_build_cbw)
  have len: "length (CBWCB ?c) = 16" using assms unfolding cb pad16_def by (subst length_write_prefix) auto
  have tg: "dCBWTag ?c = tag (ent d) + 1" by (simp add: build_cbw_def)
  have plays: "play (drop 15 (cbw_bytes ?c)) = Some []" using assms(1) by (simp add: cbw_bytes_cb cb)
  show ?thesis
    using plays tg len assms(2,3)
    by (auto simp: laser_bot_send_locked_def bot_cbw_phase_def do_bulk_out_def bot_data_phase_def
        bot_csw_phase_def bot_csw_read_def do_bulk_in_def bot_finish_def Let_def player_bulk_out_def
        sim_bulk_in_def sim_csw_def cbw_bytes_tag length_cbw_bytes csw_of_csw_bytes upd_ent_def)
qed

section \<open>Commands on an idle drive\<close>

text \<open>Registered under token 42, ready, and nobody cancelling.\<close>

definition idle :: "sim sys \<Rightarrow> bool" where
  "idle s \<longleftrightarrow> (\<exists>t. g_entries s = sim_entry\<lparr>tag := t\<rparr> # replicate 7 zero_entry) \<and> cancels (world s) = []"

lemma idle_sample: "idle (sim_sys sim_entry [])"
  unfolding idle_def
  by (intro conjI exI [of _ "tag sim_entry"]) (simp_all add: sim_sys_def sim_world_def)

lemma idle_facts:
  assumes "idle s"
  shows "laser_lookup 42 s = Some 0" and "\<not> cancelled (g_entries s ! 0)"
    and "\<not> device_gone (g_entries s ! 0)" and "\<not> css_open (g_entries s ! 0)"
    and "\<not> not_ready (g_entries s ! 0)" and "max_transfer_bytes (g_entries s ! 0) = 65536"
    and "cancels (world s) = []"
proof -
  obtain t where es: "g_entries s = sim_entry\<lparr>tag := t\<rparr> # replicate 7 zero_entry" and "cancels (world s) = []"
    using assms unfolding idle_def by blast
  then show "cancels (world s) = []" by simp
  have "in_use (sim_entry\<lparr>tag := t\<rparr>) \<and> token (sim_entry\<lparr>tag := t\<rparr>) = 42" by (simp add: sim_entry_def)
  then show "laser_lookup 42 s = Some 0" by (simp add: laser_lookup_def es)
  show "\<not> cancelled (g_entries s ! 0)" "\<not> device_gone (g_entries s ! 0)" "\<not> css_open (g_entries s ! 0)"
    "\<not> not_ready (g_entries s ! 0)" "max_transfer_bytes (g_entries s ! 0) = 65536"
    unfolding es by (simp_all add: sim_entry_def zero_entry_def)
qed

lemma idle_put:
  assumes "idle s" and "ent d = (g_entries s ! 0)\<lparr>tag := t\<rparr>" and "cancels (world d) = []"
  shows "idle (put_dev 0 d s)"
proof -
  obtain t' where "g_entries s = sim_entry\<lparr>tag := t'\<rparr> # replicate 7 zero_entry"
    using assms(1) unfolding idle_def by blast
  then have "g_entries (put_dev 0 d s) = sim_entry\<lparr>tag := t\<rparr> # replicate 7 zero_entry"
    using assms(2) by simp
  with assms(3) show ?thesis unfolding idle_def by auto
qed

lemma player_not_cancelled:
  "cancels (world d) = [] \<Longrightarrow> \<not> cancelled (ent d) \<Longrightarrow> laser_is_cancelled (player_host play) d = (False, d)"
  by (simp add: laser_is_cancelled_def sim_cancel_def)

lemma player_lock [simp]: "lock_io (player_host play) d = d"
  by (simp add: lock_io_def)

lemma player_clock: "\<exists>t. do_clock (player_host play) d = (t, d)"
  by (simp add: do_clock_def sim_clock_def)

lemma player_command:
  assumes "idle s" and "play (pad16 (take (nat n) cdb)) = Some payload" and "payload \<noteq> []"
    and "int (length payload) \<le> len" and "0 < n" and "n \<le> 16" and "len < 32768"
    and "\<not> laser_cdb_changes_css_state cdb n"
  shows "\<exists>s'. scsi_command (player_host play) 42 cdb n (Some room) len True (Some 0) s =
    Some (\<lparr>status = LASER_OK, o_data = Some (write_prefix payload room),
      o_actual = Some (int (length payload))\<rparr>, s') \<and> idle s'"
proof -
  note s = idle_facts [OF assms(1)]
  let ?d = "dev_of 0 s" and ?h = "player_host play"
  have len: "0 \<le> len" using assms(4) by linarith
  have c: "laser_is_cancelled ?h ?d = (False, ?d)"
    by (rule player_not_cancelled) (simp_all add: s)
  obtain t where t: "do_clock ?h ?d = (t, ?d)" using player_clock by blast
  obtain out d' where send: "laser_bot_send_locked ?h cdb n (Some room) len True (Some 0) (Some (-1)) ?d = (out, d')"
    "rc out = BOT_OK" "buf out = Some (write_prefix payload room)"
    "actual_len out = Some (int (length payload))" "ent d' = (ent ?d)\<lparr>tag := tag (ent ?d) + 1\<rparr>"
    "cancels (world d') = cancels (world ?d)"
    using player_send [where play = play and n = n and cdb = cdb, OF assms(2-4) less_imp_le [OF assms(5)] assms(6), of room "Some 0" "Some (-1)" ?d]
    by auto
  let ?L = "cdb_start (Some room) (Some 0)"
  let ?L' = "?L\<lparr>attempts_made := 1, c_data := Some (write_prefix payload room), c_actual := Some (int (length payload))\<rparr>"
  have "cdb_attempt (laser_bot_send_locked ?h) ?h cdb n len True True ?L ?d = (Some LASER_OK, ?L', d')"
    unfolding cdb_attempt_def Let_def c prod.case if_False cdb_transact_def t
    using send(1-4) assms(7) by (simp add: t cdb_start_def sample_throughput_locked_def)
  then have "cdb_loop (laser_bot_send_locked ?h) ?h cdb n len True True ?L ?d = Some (LASER_OK, ?L', d')"
    by (subst cdb_loop.simps) (simp add: cdb_start_def)
  then have "scsi_cdb_entry (laser_bot_send_locked ?h) ?h cdb n (Some room) len True (Some 0) ?d =
      Some (\<lparr>status = LASER_OK, o_data = Some (write_prefix payload room),
        o_actual = Some (int (length payload))\<rparr>, d')"
    using c s assms(8)
    by (simp add: scsi_cdb_entry_def cdb_checks_def cdb_idempotent_def Let_def cdb_finish_def cdb_never_left_def cdb_normalise_def)
  then have "scsi_command ?h 42 cdb n (Some room) len True (Some 0) s =
      Some (\<lparr>status = LASER_OK, o_data = Some (write_prefix payload room),
        o_actual = Some (int (length payload))\<rparr>, put_dev 0 d' s)"
    using s(1) assms(5,6) len by (simp add: scsi_command_def laser_scsi_cdb_def Let_def)
  moreover have "idle (put_dev 0 d' s)"
    by (rule idle_put [OF assms(1)]) (use send(5,6) s(7) in simp_all)
  ultimately show ?thesis by blast
qed

lemma player_settle:
  assumes "idle s" and "play (replicate 16 0) = Some []"
  shows "\<exists>s'. laser_token_settle (player_host play) 42 s = Some s' \<and> idle s'"
proof -
  note s = idle_facts [OF assms(1)]
  let ?d = "dev_of 0 s" and ?h = "player_host play"
  have c: "laser_is_cancelled ?h ?d = (False, ?d)"
    by (rule player_not_cancelled) (simp_all add: s)
  have "pad16 (take (nat 6) test_unit_ready_cdb) = replicate 16 0" by code_simp
  with assms(2) have "play (pad16 (take (nat 6) test_unit_ready_cdb)) = Some []" by simp
  from player_send_no_data [where play = play and n = 6 and cdb = test_unit_ready_cdb, OF this _ _, of "-1" ?d] obtain out d' where send: "laser_bot_send_locked ?h test_unit_ready_cdb 6 None 0 False None (Some (-1)) ?d = (out, d')"
    "rc out = BOT_OK" "ent d' = (ent ?d)\<lparr>tag := tag (ent ?d) + 1\<rparr>" "cancels (world d') = cancels (world ?d)"
    by auto
  then have "laser_token_settle ?h 42 s = Some (put_dev 0 d' s)"
    using c s by (simp add: laser_token_settle_def test_unit_ready_locked_def)
  moreover have "idle (put_dev 0 d' s)"
    by (rule idle_put [OF assms(1)]) (use send(3,4) s(7) in simp_all)
  ultimately show ?thesis by blast
qed

section \<open>A CD with a data track\<close>

text \<open>A ready drive holding a CD whose one track, a data track, starts at \<open>base\<close>.\<close>

definition play_cd :: "(u32 \<Rightarrow> byte list) \<Rightarrow> u32 \<Rightarrow> byte list \<Rightarrow> byte list option" where
  "play_cd disc base cb =
     (if cb ! 0 = 0x28 then
        (if read10_count cb = 0 then None else Some (disc_bytes disc (read10_lba cb) (read10_count cb)))
      else if cb ! 0 = 0x46 then Some [0, 0, 0, 4, 0, 0, 0, 8]
      else if cb ! 0 = 0x43 then
        Some [0, 10, 1, 1, 0, 0x14, 1, 0, ucast (drop_bit 24 base), ucast (drop_bit 16 base),
          ucast (drop_bit 8 base), ucast base]
      else if cb ! 0 = 0x00 then Some []
      else None)"

lemma play_cd_read10:
  "play_cd disc base (build_read10_cdb lba (int k)) =
     (if k mod 65536 = 0 then None else Some (disc_bytes disc lba (k mod 65536)))"
proof -
  have "build_read10_cdb lba (int k) ! 0 = 0x28" by (simp add: build_read10_cdb_def)
  moreover have "read10_count (build_read10_cdb lba (int k)) = k mod 65536"
    by (simp add: read10_decode nat_mod_as_int)
  ultimately show ?thesis by (simp add: play_cd_def read10_decode)
qed

lemma play_cd_serves:
  assumes "\<And>b. length (disc b) = 2048"
  shows "drive_serves (player_host (play_cd disc base)) build_read10_cdb 10 2048 disc"
  unfolding drive_serves_def
proof (intro conjI allI impI)
  show "length (disc b) = nat 2048" for b using assms by simp
next
  fix lba k room act d out d' a data
  assume k: "0 < (k :: nat)" and run: "laser_bot_send_locked (player_host (play_cd disc base))
      (build_read10_cdb lba (int k)) 10 (Some room) (int k * 2048) True act (Some (-1)) d = (out, d')"
    and ok: "rc out = BOT_OK" and out: "actual_len out = Some a" "buf out = Some data"
  let ?p = "disc_bytes disc lba (k mod 65536)"
  have len: "length ?p = k mod 65536 * 2048" using length_disc_bytes [OF assms] .
  have some: "k mod 65536 \<noteq> 0"
  proof
    assume "k mod 65536 = 0"
    then have "play_cd disc base (pad16 (take (nat 10) (build_read10_cdb lba (int k)))) = None"
      by (simp add: read10_padded play_cd_read10)
    from player_refuses [OF this _ _ _ run] k ok show False by simp
  qed
  then have plays: "play_cd disc base (pad16 (take (nat 10) (build_read10_cdb lba (int k)))) = Some ?p"
    by (simp add: read10_padded play_cd_read10)
  have "?p \<noteq> []" using len some by auto
  moreover have "int (length ?p) \<le> int k * 2048" unfolding len by simp
  ultimately have da: "data = write_prefix ?p room" "a = int (length ?p)"
    using player_send [where n = 10 and cdb = "build_read10_cdb lba (int k)" and play = "play_cd disc base", OF plays, of "int k * 2048" room act "Some (-1)" d] run out
    by (cases act; simp)+
  then have "take (nat a) data = ?p" by simp
  moreover have "nat a = k mod 65536 * 2048" unfolding da len by simp
  moreover have "take (k mod 65536 * 2048) (disc_bytes disc lba k) = ?p"
    by (rule take_disc_bytes) (simp_all add: assms)
  ultimately show "take (nat a) data = take (nat a) (disc_bytes disc lba k)" by simp
qed

text \<open>Its clock runs, and it never reports a medium change: it has no sense data.\<close>

lemma player_clock_monotonic: "clock_monotonic (player_host play) now"
  using sim_clock_monotonic by (simp add: clock_monotonic_def host_rel_def player_host_def player_bulk_out_def)

lemma play_cd_no_changes:
  "finitely_many_changes (laser_bot_send_locked (player_host (play_cd disc base)))
     (player_host (play_cd disc base)) (\<lambda>_. 0)"
proof -
  let ?h = "player_host (play_cd disc base)"
  have host: "host_rel ?h (\<lambda>w w'. (0 :: nat) \<le> 0)"
    using player_clock_monotonic [of "play_cd disc base"]
    by (simp add: clock_monotonic_def host_rel_def reflp_def transp_def)
  have "pad16 (take (nat 6) request_sense_cdb) = [3, 0, 0, 0, 24] @ replicate 11 0" by code_simp
  then have silent: "play_cd disc base (pad16 (take (nat 6) request_sense_cdb)) = None"
    by (simp add: play_cd_def)
  have "fst (fst (request_sense_locked (laser_bot_send_locked ?h) sn d)) = -1" for sn d
  proof -
    obtain out d' where run: "laser_bot_send_locked ?h request_sense_cdb 6 (Some (replicate 24 0)) 24 True
        (Some 0) None d = (out, d')" by fastforce
    have "rc out \<noteq> BOT_OK" by (rule player_refuses [OF silent _ _ _ run]) simp_all
    with run show ?thesis by (simp add: request_sense_locked_def)
  qed
  then have "fst (fst (request_sense_locked (laser_bot_send_locked ?h) sn d)) \<noteq> 0" for sn d by simp
  with host show ?thesis by (simp add: finitely_many_changes_def Let_def case_prod_unfold)
qed

lemma play_cd_reads:
  assumes "idle s" and "\<And>b. length (disc b) = 2048" and "length bytes = k * 2048" and "0 < k" and "k < 16"
  shows "\<exists>s'. laser_read_blocks (player_host (play_cd disc base)) 42 lba (int k) bytes s =
    Some (int k, disc_bytes disc lba k, s') \<and> idle s'"
proof -
  let ?h = "player_host (play_cd disc base)" and ?cdb = "build_read10_cdb lba (int k)"
  have len: "length (disc_bytes disc lba k) = k * 2048" using length_disc_bytes [OF assms(2)] .
  have key: "\<not> laser_cdb_changes_css_state ?cdb 10" by (simp add: laser_cdb_changes_css_state_def)
  have plays: "play_cd disc base (pad16 (take (nat 10) ?cdb)) = Some (disc_bytes disc lba k)"
    using assms(4,5) by (simp add: read10_padded play_cd_read10)
  have size: "disc_bytes disc lba k \<noteq> []" "int (length (disc_bytes disc lba k)) \<le> int k * 2048"
    "(0 :: int) < 10" "(10 :: int) \<le> 16" "int k * 2048 < 32768"
    using len assms(4,5) by auto
  obtain s' where cmd: "scsi_command ?h 42 ?cdb 10 (Some bytes) (int k * 2048) True (Some 0) s =
      Some (\<lparr>status = LASER_OK, o_data = Some (write_prefix (disc_bytes disc lba k) bytes),
        o_actual = Some (int (length (disc_bytes disc lba k)))\<rparr>, s')" and "idle s'"
    using player_command [where n = 10 and cdb = ?cdb and play = "play_cd disc base", OF assms(1) plays size key]
    by blast
  moreover have "write_prefix (disc_bytes disc lba k) bytes = disc_bytes disc lba k"
    using len assms(3) by (simp add: write_prefix_def)
  moreover have "nat (int k * 2048) = k * 2048" by (simp add: nat_mult_distrib)
  ultimately have "laser_read_blocks ?h 42 lba (int k) bytes s = Some (int k, disc_bytes disc lba k, s')"
    using idle_facts(1,6) [OF assms(1)] assms(3-5) len
    by (simp add: laser_read_blocks_def read_chunked_def read_loop.simps read_round_def next_chunk_def
        Let_def read_start_def read_done_def write_at_def)
  with \<open>idle s'\<close> show ?thesis by blast
qed

end
