(* ===== verification/Read_Props.thy ===== *)
theory Read_Props
  imports Sample_Disc Command_Props Livelock
begin

text \<open>
  The properties of the block reads: what they return and hand over, that they end, what they
  leave of the shared state, and the command blocks they build. A concrete drive with a disc in
  it shows that the hypothesis on what the drive serves can hold.
\<close>

section \<open>A drive with a disc\<close>

lemma send_no_buffer:
  assumes "laser_bot_send_locked h cdb n None len inward act csw d = (out, d')"
  shows "buf out = None"
  using assms
proof (cases rule: bot_send_cases)
  case (data c d1 r data' actual')
  then show ?thesis by (simp add: bot_data_phase_def)
next
  case (csw c d1 k data' actual' d2 r)
  then show ?thesis by (simp add: bot_data_phase_def)
next
  case (verdict c d1 k data' actual' d2 w d3)
  then show ?thesis
    using bot_finish_buf [of h c w None len k actual' "map_option (\<lambda>_. -1) csw" d3]
    by (auto simp: bot_data_phase_def)
qed simp_all

lemma entry_call_serves:
  assumes "drive_serves h build n block_size disc" and "0 < k"
    and run: "scsi_cdb_entry (laser_bot_send_locked h) h (build lba (int k)) n data0 (int k * block_size)
      True act d = Some (o', d')"
    and "status o' = LASER_OK" and "o_actual o' = Some a" and "o_data o' = Some data"
  shows "take (nat a) data = take (nat a) (disc_bytes disc lba k)"
  using run
proof (cases rule: bot.entry_call_cases)
  case (ran d1 result L d2)
  have ok: "result = LASER_OK" using bot.finish_ok(1) [of result L d2] ran(5) assms(4) by simp
  from bot.loop_ok [OF ran(4) [unfolded ok]] obtain buffer act' d3 out d4 where
    s: "laser_bot_send_locked h (build lba (int k)) n buffer (int k * block_size) True act'
          (Some (-1)) d3 = (out, d4)" "rc out = BOT_OK" "c_data L = buf out"
      "c_actual L = actual_len out"
    unfolding bot.ended_in_success_def by blast
  from s(3,4) ran(5) assms(5,6) have out: "actual_len out = Some a" "buf out = Some data" by simp_all
  then obtain room where "buffer = Some room"
    using s(1) send_no_buffer by (cases buffer) force+
  from assms(1) [unfolded drive_serves_def, THEN conjunct2, rule_format,
      OF assms(2) s(1) [unfolded this] s(2) out]
  show ?thesis .
qed (use assms(4) in simp_all)

lemma scsi_command_serves:
  assumes "drive_serves h build n block_size disc"
  shows "serves (scsi_command h tk) build n block_size disc"
  unfolding serves_def
proof (intro conjI allI impI)
  show "length (disc b) = nat block_size" for b using assms by (simp add: drive_serves_def)
next
  fix lba k bs and s :: "'a sys" and o' s' a data
  assume k: "0 < k" and run: "scsi_command h tk (build lba (int k)) n (Some bs) (int k * block_size)
      True (Some 0) s = Some (o', s')"
    and ok: "status o' = LASER_OK" "o_actual o' = Some a" "o_data o' = Some data"
  show "take (nat a) data = take (nat a) (disc_bytes disc lba k)"
    using run [unfolded scsi_command_def]
  proof (cases rule: scsi_cdb_cases)
    case (ran c i d')
    then have "c = build lba (int k)" by simp
    from entry_call_serves [OF assms k ran(7) [unfolded this] ok] show ?thesis .
  qed (use ok in simp_all)
qed

text \<open>The sample drive with a disc in it: block \<open>b\<close> is filled with the low byte of \<open>b\<close>.\<close>

definition disc_image :: "u32 \<Rightarrow> byte list" where
  "disc_image b = replicate 2048 (ucast b)"

abbreviation disc_host :: "sim host" where
  "disc_host \<equiv> player_host (play_cd disc_image 0)"

lemma disc_serves: "drive_serves disc_host build_read10_cdb 10 2048 disc_image"
  by (rule play_cd_serves) (simp add: disc_image_def)

lemma disc_read_run:
  "\<exists>s'. laser_read_blocks disc_host 42 16 2 (replicate 4096 0) (sim_sys sim_entry []) =
     Some (2, disc_bytes disc_image 16 2, s')"
  using play_cd_reads [OF idle_sample, of disc_image "replicate 4096 0" 2 0 16]
  by (auto simp: disc_image_def)

section \<open>The properties\<close>

text \<open>C19: a block read never writes past or resizes the caller's buffer, answers 0 exactly when
  nothing was asked for, never more blocks than asked, and below zero only a status.\<close>

theorem read_blocks_contract:
  assumes "usb_bounded h"
    and "nat (num_blocks * 2048) \<le> length buffer" and "num_blocks * 2048 < 2 ^ 31"
    and "laser_read_blocks h tk lba num_blocks buffer s = Some (r, b, s')"
  shows "length b = length buffer \<and> (r = 0 \<longleftrightarrow> num_blocks \<le> 0) \<and> r \<le> max num_blocks 0 \<and>
    (r < 0 \<longrightarrow> (\<exists>st. st \<noteq> LASER_OK \<and> r = status_code st))"
  using scsi.read_chunked_contract [OF assms(1) _ assms(2,3) assms(4) [unfolded laser_read_blocks_def]]
  by simp

theorem read_blocks_contract_witness:
  "\<exists>s' b. laser_read_blocks disc_host 42 16 2 (replicate 4096 0) (sim_sys sim_entry []) = Some (2, b, s') \<and>
    length b = length (replicate 4096 (0 :: byte)) \<and> ((2 :: int) = 0 \<longleftrightarrow> (2 :: int) \<le> 0) \<and>
    (2 :: int) \<le> max 2 0 \<and> ((2 :: int) < 0 \<longrightarrow> (\<exists>st. st \<noteq> LASER_OK \<and> 2 = status_code st))"
proof -
  obtain s' where run: "laser_read_blocks disc_host 42 16 2 (replicate 4096 0) (sim_sys sim_entry []) =
      Some (2, disc_bytes disc_image 16 2, s')"
    using disc_read_run by blast
  have "nat (2 * 2048) \<le> length (replicate 4096 (0 :: byte))" "(2 :: int) * 2048 < 2 ^ 31" by simp_all
  from read_blocks_contract [OF player_usb_bounded this run] run show ?thesis by blast
qed

text \<open>C6: what a block read reports read is what is on the disc: when the drive's successful
  answers to READ(10) are prefixes of the blocks addressed, the first r blocks of the buffer are
  the r blocks from the address asked for, however the range was split and retried.\<close>

theorem read_blocks_content:
  assumes "usb_bounded h"
    and "nat (num_blocks * 2048) \<le> length buffer" and "num_blocks * 2048 < 2 ^ 31"
    and "drive_serves h build_read10_cdb 10 2048 disc"
    and "laser_read_blocks h tk lba num_blocks buffer s = Some (r, b, s')" and "0 < r"
  shows "take (nat r * 2048) b = disc_bytes disc lba (nat r)"
  using scsi.read_chunked_content [OF assms(1) _ assms(2,3) scsi_command_serves [OF assms(4)]
      assms(5) [unfolded laser_read_blocks_def] assms(6)]
  by simp

theorem read_blocks_content_witness:
  "\<exists>b s'. laser_read_blocks disc_host 42 16 2 (replicate 4096 0) (sim_sys sim_entry []) =
     Some (2, b, s') \<and> take (nat 2 * 2048) b = disc_bytes disc_image 16 (nat 2)"
proof -
  obtain s' where run: "laser_read_blocks disc_host 42 16 2 (replicate 4096 0) (sim_sys sim_entry []) =
      Some (2, disc_bytes disc_image 16 2, s')"
    using disc_read_run by blast
  have "nat (2 * 2048) \<le> length (replicate 4096 (0 :: byte))" "(2 :: int) * 2048 < 2 ^ 31" by simp_all
  from read_blocks_content [OF player_usb_bounded this disc_serves run] run show ?thesis by auto
qed

text \<open>C28: a block read, negotiation of the transfer size included, moves the shared fields of the
  entry only as their comments promise - the transfer cap never grows and never falls below its
  floor - and leaves every other slot's in order as well.\<close>

theorem read_blocks_keep_shared_promises:
  assumes "threads_rely h"
    and "laser_read_blocks h tk lba num_blocks buffer s = Some (r, b, s')"
  shows "length (g_entries s') = length (g_entries s) \<and>
    (\<forall>j. entry_rely (g_entries s ! j) (g_entries s' ! j))"
  using scsi.read_chunked_shared [OF assms(1) assms(2) [unfolded laser_read_blocks_def]] .

theorem read_blocks_keep_shared_promises_witness:
  "\<exists>b s'. laser_read_blocks disc_host 42 16 2 (replicate 4096 0) (sim_sys sim_entry []) =
     Some (2, b, s') \<and> length (g_entries s') = length (g_entries (sim_sys sim_entry [])) \<and>
    (\<forall>j. entry_rely (g_entries (sim_sys sim_entry []) ! j) (g_entries s' ! j))"
proof -
  obtain s' where run: "laser_read_blocks disc_host 42 16 2 (replicate 4096 0) (sim_sys sim_entry []) =
      Some (2, disc_bytes disc_image 16 2, s')"
    using disc_read_run by blast
  from read_blocks_keep_shared_promises [OF player_threads_rely run] run show ?thesis by blast
qed

section \<open>The reads end\<close>

text \<open>The loop answers whenever its commands do.\<close>

lemma read_loop_answers:
  assumes "\<And>cdb n data len act s. cmd cdb n data len True act s \<noteq> None"
  shows "read_loop cmd h slot lba num_blocks block_size n build L s \<noteq> None"
proof (induction "read_rank num_blocks L" arbitrary: L s
    rule: wf_induct_rule [OF wf_lex_prod [OF wf_less_than wf_lex_prod [OF wf_less_than wf_less_than]]])
  case 1
  show ?case
  proof (cases "blocks_done L < num_blocks")
    case True
    obtain res b s1 where round:
      "read_round cmd h slot lba num_blocks block_size n build L s = Some (res, b, s1)"
      using assms by (fastforce simp: read_round_def Let_def split: option.split prod.split)
    show ?thesis
    proof (cases res)
      case (Inl r)
      with True round show ?thesis by (subst read_loop.simps) simp
    next
      case (Inr L')
      with 1 [OF read_round_rank [OF round [unfolded Inr] True]] True round
      show ?thesis by (subst read_loop.simps) simp
    qed
  qed (simp add: read_loop.simps [of _ _ _ _ _ _ _ _ L])
qed

lemma scsi_command_answers:
  assumes "clock_monotonic h now_ns"
    and "finitely_many_changes (laser_bot_send_locked h) h changes"
  shows "scsi_command h tk cdb n data len inward act s \<noteq> None"
  using scsi_cdb_returns [OF assms, of tk "Some cdb"] by (simp add: scsi_command_def)

text \<open>Block reads end, on any drive whose clock runs and which reports a medium change finitely
  often, however the transfer size is negotiated down.\<close>

theorem read_blocks_terminate:
  assumes "clock_monotonic h now_ns"
    and "finitely_many_changes (laser_bot_send_locked h) h changes"
  shows "(\<exists>r. laser_read_blocks h tk lba num_blocks buffer s = Some r) \<and>
    (\<exists>r. laser_read_cd_blocks h tk lba num_blocks kind buffer s = Some r)"
  using read_loop_answers [where cmd = "scsi_command h tk"] scsi_command_answers [OF assms]
  by (auto simp: laser_read_blocks_def laser_read_cd_blocks_def read_chunked_def split: option.split)

theorem read_blocks_terminate_witness:
  "(\<exists>r. laser_read_blocks sim_host 42 16 2 (replicate 4704 0)
      (sim_sys sim_entry (check_condition 2 4 1)) = Some r) \<and>
    (\<exists>r. laser_read_cd_blocks sim_host 42 16 2 LASER_CD_SECTOR_AUDIO (replicate 4704 0)
      (sim_sys sim_entry (check_condition 2 4 1)) = Some r)"
  by (rule read_blocks_terminate [OF sim_clock_monotonic sim_finitely_many_changes])

section \<open>The CD reads and the command blocks\<close>

text \<open>The raw CD reads keep the same contract over 2352-byte sectors, and refuse a sector kind
  outside the enumeration before the device or the buffer is touched.\<close>

theorem read_cd_blocks_contract:
  assumes "usb_bounded h"
    and "nat (num_blocks * 2352) \<le> length buffer" and "num_blocks * 2352 < 2 ^ 31"
    and run: "laser_read_cd_blocks h tk lba num_blocks kind buffer s = Some (r, b, s')"
  shows "(case kind of
      CD_SECTOR_OTHER _ \<Rightarrow> r = status_code LASER_ERR_INVALID \<and> b = buffer \<and> s' = s
    | _ \<Rightarrow> length b = length buffer \<and> (r = 0 \<longleftrightarrow> num_blocks \<le> 0) \<and> r \<le> max num_blocks 0 \<and>
        (r < 0 \<longrightarrow> (\<exists>st. st \<noteq> LASER_OK \<and> r = status_code st)))"
proof (cases "read_cd_sector_ctx kind")
  case None
  with run show ?thesis
    by (cases kind) (auto simp: laser_read_cd_blocks_def read_cd_sector_ctx_def)
next
  case (Some rcx)
  with run have "read_chunked (scsi_command h tk) h tk lba num_blocks 2352 12 (build_read_cd_cdb rcx)
      buffer s = Some (r, b, s')"
    by (simp add: laser_read_cd_blocks_def)
  from scsi.read_chunked_contract [OF assms(1) _ assms(2,3) this] Some show ?thesis
    by (cases kind) (auto simp: read_cd_sector_ctx_def)
qed

lemma cd_nothing_run:
  "laser_read_cd_blocks sim_host 42 16 0 LASER_CD_SECTOR_AUDIO [] (sim_sys sim_entry []) =
     Some (0, [], sim_sys sim_entry [])"
  by (simp add: laser_read_cd_blocks_def read_cd_sector_ctx_def read_chunked_def)

theorem read_cd_blocks_contract_witness:
  "case LASER_CD_SECTOR_AUDIO of
      CD_SECTOR_OTHER _ \<Rightarrow> (0 :: int) = status_code LASER_ERR_INVALID \<and> ([] :: byte list) = [] \<and>
        sim_sys sim_entry [] = sim_sys sim_entry []
    | _ \<Rightarrow> length ([] :: byte list) = length ([] :: byte list) \<and> ((0 :: int) = 0 \<longleftrightarrow> (0 :: int) \<le> 0) \<and>
        (0 :: int) \<le> max 0 0 \<and> ((0 :: int) < 0 \<longrightarrow> (\<exists>st. st \<noteq> LASER_OK \<and> 0 = status_code st))"
  using read_cd_blocks_contract [OF sim_usb_bounded _ _ cd_nothing_run] by simp

text \<open>The READ(10) and READ CD command blocks carry the address and count asked for, big-endian,
  as long as the count fits their fields, and neither is a key command.\<close>

lemma read_cdbs_round_trip:
  assumes "0 \<le> k" and "k < 65536"
  shows "length (build_read10_cdb lba k) = 16 \<and> build_read10_cdb lba k ! 0 = 0x28 \<and>
    read10_lba (build_read10_cdb lba k) = lba \<and> int (read10_count (build_read10_cdb lba k)) = k \<and>
    length (build_read_cd_cdb rcx lba k) = 16 \<and> build_read_cd_cdb rcx lba k ! 0 = 0xBE \<and>
    read10_lba (build_read_cd_cdb rcx lba k) = lba \<and>
    int (65536 * unat (build_read_cd_cdb rcx lba k ! 6) + 256 * unat (build_read_cd_cdb rcx lba k ! 7) +
      unat (build_read_cd_cdb rcx lba k ! 8)) = k \<and>
    build_read_cd_cdb rcx lba k ! 1 = expected_type rcx \<and>
    build_read_cd_cdb rcx lba k ! 9 = field_flags rcx \<and>
    \<not> laser_cdb_changes_css_state (build_read10_cdb lba k) 10 \<and>
    \<not> laser_cdb_changes_css_state (build_read_cd_cdb rcx lba k) 12"
proof -
  have k: "k mod 65536 = k" "k mod 16777216 = k" using assms by simp_all
  have cd: "build_read_cd_cdb rcx lba k ! i = [0xBE, expected_type rcx, ucast (drop_bit 24 lba),
      ucast (drop_bit 16 lba), ucast (drop_bit 8 lba), ucast lba, word_of_int (drop_bit 16 k),
      word_of_int (drop_bit 8 k), word_of_int k, field_flags rcx, 0, 0, 0, 0, 0, 0] ! i" for i
    by (simp add: build_read_cd_cdb_def)
  have count: "int (65536 * unat (build_read_cd_cdb rcx lba k ! 6) +
      256 * unat (build_read_cd_cdb rcx lba k ! 7) + unat (build_read_cd_cdb rcx lba k ! 8)) = k"
    using count24 [of k] k assms by (simp add: cd)
  have lba: "read10_lba (build_read_cd_cdb rcx lba k) = lba"
    by (simp add: read10_lba_def cd be32_word_bytes)
  have keys: "\<not> laser_cdb_changes_css_state (build_read10_cdb lba k) 10"
    "\<not> laser_cdb_changes_css_state (build_read_cd_cdb rcx lba k) 12"
    by (simp_all add: laser_cdb_changes_css_state_def cd)
  show ?thesis
    using count lba keys k assms
    by (simp add: read10_decode) (simp add: build_read10_cdb_def build_read_cd_cdb_def)
qed

lemma read_cdbs_round_trip_witness:
  "read10_lba (build_read10_cdb 0x12345678 32) = 0x12345678 \<and>
   int (read10_count (build_read10_cdb 0x12345678 32)) = 32"
  using read_cdbs_round_trip [of 32 "0x12345678"] by simp

end
