(* ===== verification/Region.thy ===== *)
theory Region
  imports Read
begin

text \<open>
  The DVD region check (scsi.c): the drive's RPC state, the disc's region mask, and whether the
  two can play together. Both answers come through the command primitive, which is a parameter
  as in theory Read.
\<close>

abbreviation LASER_RPC_TYPE_NONE :: byte where "LASER_RPC_TYPE_NONE \<equiv> 0x00"
abbreviation LASER_RPC_SCHEME_NONE :: byte where "LASER_RPC_SCHEME_NONE \<equiv> 0x00"
abbreviation LASER_REGION_ALL :: byte where "LASER_REGION_ALL \<equiv> 0xFF"

definition report_rpc_cdb :: "byte list" where
  "report_rpc_cdb = [0xA4, 0, 0, 0, 0, 0, 0, 0, 0, 8, 0x08, 0]"

definition dvd_copyright_cdb :: "byte list" where
  "dvd_copyright_cdb = [0xAD, 0, 0, 0, 0, 0, 0x00, 0x01, 0, 8, 0, 0]"

text \<open>One eight-byte answer: \<open>None\<close> inside is the helper's 0, the drive not saying.\<close>

definition eight_bytes :: "'w command \<Rightarrow> byte list \<Rightarrow> 'w sys \<Rightarrow> (byte list option \<times> 'w sys) option" where
  "eight_bytes cmd cdb s =
     (case cmd cdb 12 (Some (replicate 8 0)) 8 True (Some 0) s of
        None \<Rightarrow> None
      | Some (out, s') \<Rightarrow>
          Some (if status out \<noteq> LASER_OK \<or> the (o_actual out) < 8 then None else o_data out, s'))"

record rpc_state =
  rpc_type :: byte
  rpc_mask :: byte
  rpc_scheme :: byte

definition report_rpc_state :: "'w command \<Rightarrow> 'w sys \<Rightarrow> (rpc_state option \<times> 'w sys) option" where
  "report_rpc_state cmd s =
     map_option (\<lambda>(answer, s'). (map_option (\<lambda>bs. \<lparr>rpc_type = drop_bit 6 (bs ! 4),
         rpc_mask = bs ! 5, rpc_scheme = bs ! 6\<rparr>) answer, s'))
       (eight_bytes cmd report_rpc_cdb s)"

definition read_disc_region_mask :: "'w command \<Rightarrow> 'w sys \<Rightarrow> (byte option \<times> 'w sys) option" where
  "read_disc_region_mask cmd s =
     map_option (\<lambda>(answer, s'). (map_option (\<lambda>bs. bs ! 5) answer, s'))
       (eight_bytes cmd dvd_copyright_cdb s)"

text \<open>
  The two out-parameters are \<open>None\<close> for NULL, else what they point at; they are written only
  on the answer that makes them meaningful.
\<close>

definition region_check ::
  "'w command \<Rightarrow> byte option \<Rightarrow> byte option \<Rightarrow> 'w sys \<Rightarrow>
     ((bool \<times> byte option \<times> byte option) \<times> 'w sys) option" where
  "region_check cmd drive_mask disc_mask s =
     (let no = (\<lambda>s. Some ((False, drive_mask, disc_mask), s)) in
      case report_rpc_state cmd s of
        None \<Rightarrow> None
      | Some (None, s1) \<Rightarrow> no s1
      | Some (Some rpc, s1) \<Rightarrow>
          if rpc_scheme rpc = LASER_RPC_SCHEME_NONE \<or> rpc_type rpc = LASER_RPC_TYPE_NONE then no s1
          else case read_disc_region_mask cmd s1 of
              None \<Rightarrow> None
            | Some (None, s2) \<Rightarrow> no s2
            | Some (Some di_mask, s2) \<Rightarrow>
                if di_mask = 0x00 then no s2
                else if NOT (rpc_mask rpc) AND NOT di_mask AND LASER_REGION_ALL \<noteq> 0 then no s2
                else Some ((True, map_option (\<lambda>_. rpc_mask rpc) drive_mask,
                             map_option (\<lambda>_. di_mask) disc_mask), s2))"

definition laser_region_mismatch ::
  "'w host \<Rightarrow> int \<Rightarrow> byte option \<Rightarrow> byte option \<Rightarrow> 'w sys \<Rightarrow>
     ((bool \<times> byte option \<times> byte option) \<times> 'w sys) option" where
  "laser_region_mismatch h tk drive_mask disc_mask s =
     region_check (scsi_command h tk) drive_mask disc_mask s"

section \<open>Regions as sets\<close>

text \<open>A set bit prohibits a region, so what a mask permits is the set of its clear bits.\<close>

definition permitted :: "byte \<Rightarrow> nat set" where
  "permitted m = {r. r < 8 \<and> \<not> bit m r}"

lemma region_all: "x AND LASER_REGION_ALL = x" for x :: byte
proof -
  have "(LASER_REGION_ALL :: byte) = - 1" by simp
  then show ?thesis by (simp only: and.right_neutral)
qed

lemma masks_disjoint:
  "NOT a AND NOT b AND LASER_REGION_ALL = 0 \<longleftrightarrow> permitted a \<inter> permitted b = {}"
proof -
  have "NOT a AND NOT b = 0 \<longleftrightarrow> (\<forall>n < 8. \<not> bit (NOT a AND NOT b) n)"
    by (auto simp: bit_eq_iff possible_bit_word)
  also have "\<dots> \<longleftrightarrow> permitted a \<inter> permitted b = {}"
    by (auto simp: permitted_def bit_simps)
  finally show ?thesis by (simp only: region_all)
qed

text \<open>Neither query is a key command: both are asked outside any CSS session, and retried.\<close>

lemma region_queries_not_key:
  "\<not> laser_cdb_changes_css_state report_rpc_cdb 12" "\<not> laser_cdb_changes_css_state dvd_copyright_cdb 12"
  by (simp_all add: laser_cdb_changes_css_state_def report_rpc_cdb_def dvd_copyright_cdb_def)

lemma region_check_iff:
  assumes "region_check cmd drv dsc s = Some ((res, drv', dsc'), s')"
  shows "(res \<longleftrightarrow> (\<exists>rpc di s1. report_rpc_state cmd s = Some (Some rpc, s1) \<and> rpc_scheme rpc \<noteq> 0 \<and>
      rpc_type rpc \<noteq> 0 \<and> read_disc_region_mask cmd s1 = Some (Some di, s') \<and> di \<noteq> 0 \<and>
      permitted (rpc_mask rpc) \<inter> permitted di = {} \<and>
      drv' = map_option (\<lambda>_. rpc_mask rpc) drv \<and> dsc' = map_option (\<lambda>_. di) dsc)) \<and>
    (\<not> res \<longrightarrow> drv' = drv \<and> dsc' = dsc)"
  using assms
  by (auto simp: region_check_def Let_def masks_disjoint split: option.splits if_splits prod.splits)

end
