(* ===== verification/Region_Props.thy ===== *)
theory Region_Props
  imports Region Command_Props
begin

text \<open>The properties of the region check.\<close>

text \<open>C27: a region mismatch is reported exactly when the drive enforces regions and has one set, the
  disc restricts them, and no region is permitted by both; the two masks are written exactly
  then, and neither query needs a CSS session.\<close>

theorem region_mismatch_iff_disjoint:
  assumes "laser_region_mismatch h tk drv dsc s = Some ((res, drv', dsc'), s')"
  shows "(res \<longleftrightarrow> (\<exists>rpc di s1. report_rpc_state (scsi_command h tk) s = Some (Some rpc, s1) \<and>
      rpc_scheme rpc \<noteq> 0 \<and> rpc_type rpc \<noteq> 0 \<and>
      read_disc_region_mask (scsi_command h tk) s1 = Some (Some di, s') \<and> di \<noteq> 0 \<and>
      permitted (rpc_mask rpc) \<inter> permitted di = {} \<and>
      drv' = map_option (\<lambda>_. rpc_mask rpc) drv \<and> dsc' = map_option (\<lambda>_. di) dsc)) \<and>
    (\<not> res \<longrightarrow> drv' = drv \<and> dsc' = dsc) \<and>
    \<not> laser_cdb_changes_css_state report_rpc_cdb 12 \<and>
    \<not> laser_cdb_changes_css_state dvd_copyright_cdb 12"
  using region_check_iff [OF assms [unfolded laser_region_mismatch_def]] region_queries_not_key by blast

definition region_script :: "byte \<Rightarrow> byte \<Rightarrow> answer list" where
  "region_script drive disc =
     [Answer [0, 6, 0, 0, 0x40, drive, 1, 0] 0, Answer [0, 6, 0, 0, 1, disc, 0, 0] 0]"

lemma region_run:
  "map_option fst (laser_region_mismatch sim_host 42 (Some 0) None (sim_sys sim_entry (region_script 0xFD 0xFE))) =
     Some (True, Some 0xFD, None)"
  by code_simp

theorem region_mismatch_iff_disjoint_witness:
  "\<exists>rpc di s1 s'. report_rpc_state (scsi_command sim_host 42)
       (sim_sys sim_entry (region_script 0xFD 0xFE)) = Some (Some rpc, s1) \<and>
     rpc_scheme rpc \<noteq> 0 \<and> rpc_type rpc \<noteq> 0 \<and>
     read_disc_region_mask (scsi_command sim_host 42) s1 = Some (Some di, s') \<and> di \<noteq> 0 \<and>
     permitted (rpc_mask rpc) \<inter> permitted di = {} \<and> Some 0xFD = Some (rpc_mask rpc)"
proof -
  let ?s = "sim_sys sim_entry (region_script 0xFD 0xFE)"
  obtain s' where "laser_region_mismatch sim_host 42 (Some 0) None ?s =
      Some ((True, Some 0xFD, None), s')"
    using region_run by auto
  from region_mismatch_iff_disjoint [OF this] show ?thesis by auto
qed

end
