(* ===== verification/Token.thy ===== *)
theory Token
  imports Api
begin

text \<open>
  Parsing a registry token from a string (registry.c). A \<open>char *\<close> is \<open>None\<close> for NULL, else the
  characters in memory, read up to the terminating zero. \<open>strtol()\<close> is modelled on what the
  function lets reach it - a leading digit, base ten - with the range of \<open>long\<close> a parameter:
  it differs between the platforms the library is built for.
\<close>

abbreviation INT_MAX :: int where "INT_MAX \<equiv> 2147483647"

definition c_string :: "char list \<Rightarrow> char list" where
  "c_string cs = takeWhile (\<lambda>c. c \<noteq> CHR 0x00) cs"

definition is_digit :: "char \<Rightarrow> bool" where
  "is_digit c \<longleftrightarrow> 48 \<le> (of_char c :: nat) \<and> (of_char c :: nat) \<le> 57"

definition digits_value :: "char list \<Rightarrow> int" where
  "digits_value cs = fold (\<lambda>c v. v * 10 + (int (of_char c) - 48)) cs 0"

text \<open>The value, saturated to \<open>LONG_MAX\<close>; whether \<open>errno\<close> is ERANGE; and what \<open>end\<close> points at.\<close>

definition strtol :: "int \<Rightarrow> char list \<Rightarrow> int \<times> bool \<times> char list" where
  "strtol long_max cs =
     (let v = digits_value (takeWhile is_digit cs)
      in (min v long_max, long_max < v, dropWhile is_digit cs))"

definition laser_parse_token :: "int \<Rightarrow> char list option \<Rightarrow> int option" where
  "laser_parse_token long_max str =
     (case str of
        None \<Rightarrow> None
      | Some mem \<Rightarrow>
          (case c_string mem of
             [] \<Rightarrow> None
           | c # cs \<Rightarrow>
               if \<not> is_digit c then None
               else case strtol long_max (c # cs) of (value, erange, rest) \<Rightarrow>
                 if rest \<noteq> [] \<or> erange \<or> INT_MAX < value then None else Some value))"

section \<open>Decimal notation\<close>

fun decimal :: "nat \<Rightarrow> char list" where
  "decimal n = (if n < 10 then [char_of (48 + n)] else decimal (n div 10) @ [char_of (48 + n mod 10)])"

declare decimal.simps [simp del]

lemma digits_value_snoc:
  "digits_value (cs @ [c]) = digits_value cs * 10 + (int (of_char c) - 48)"
  by (simp add: digits_value_def)

lemma of_char_digit: "n < 10 \<Longrightarrow> (of_char (char_of (48 + n :: nat)) :: nat) = 48 + n"
  by simp

lemma decimal_digits: "\<forall>c \<in> set (decimal n). is_digit c"
proof (induction n rule: decimal.induct)
  case (1 n)
  then show ?case
    by (subst decimal.simps) (auto simp: is_digit_def)
qed

lemma decimal_value: "digits_value (decimal n) = int n"
proof (induction n rule: decimal.induct)
  case (1 n)
  show ?case
  proof (cases "n < 10")
    case True
    then show ?thesis by (simp add: decimal.simps [of n] digits_value_def)
  next
    case False
    with 1 show ?thesis
      by (simp add: decimal.simps [of n] digits_value_snoc zdiv_int zmod_int)
  qed
qed

lemma decimal_nonempty: "decimal n \<noteq> []"
  by (simp add: decimal.simps [of n])

lemma digits_no_zero: "\<forall>c \<in> set cs. is_digit c \<Longrightarrow> c_string cs = cs"
  by (auto simp: c_string_def is_digit_def)

lemma parse_digits:
  assumes "INT_MAX \<le> long_max"
  shows "laser_parse_token long_max (Some mem) =
    (if c_string mem \<noteq> [] \<and> (\<forall>c \<in> set (c_string mem). is_digit c) \<and> digits_value (c_string mem) \<le> INT_MAX
     then Some (digits_value (c_string mem)) else None)"
proof (cases "c_string mem")
  case Nil
  then show ?thesis by (simp add: laser_parse_token_def)
next
  case (Cons c cs)
  show ?thesis
  proof (cases "\<forall>x \<in> set (c # cs). is_digit x")
    case True
    then have whole: "takeWhile is_digit cs = cs" "dropWhile is_digit cs = []" by simp_all
    with Cons True assms show ?thesis
      by (auto simp: laser_parse_token_def strtol_def Let_def min_def whole)
  next
    case False
    then have "dropWhile is_digit (c # cs) \<noteq> []" by (simp add: dropWhile_eq_Nil_conv)
    with Cons False show ?thesis
      by (auto simp: laser_parse_token_def strtol_def Let_def)
  qed
qed

text \<open>C38: a token is accepted exactly when the string is one or more decimal digits up to its
  terminator - no blank, no sign, nothing after - of a value an int holds, whatever the width
  of long.\<close>

theorem parse_token_exact:
  assumes "INT_MAX \<le> long_max"
  shows "laser_parse_token long_max str =
    (case str of None \<Rightarrow> None
     | Some mem \<Rightarrow> if c_string mem \<noteq> [] \<and> (\<forall>c \<in> set (c_string mem). is_digit c) \<and>
           digits_value (c_string mem) \<le> INT_MAX
         then Some (digits_value (c_string mem)) else None)"
  using parse_digits [OF assms] by (simp add: laser_parse_token_def [of _ None] split: option.split)

theorem parse_token_exact_witness:
  "laser_parse_token 2147483647 (Some ''2147483648'') = None \<and>
   laser_parse_token 2147483647 (Some ''42'') = Some 42"
  using parse_token_exact [of 2147483647 "Some ''2147483648''"]
    parse_token_exact [of 2147483647 "Some ''42''"]
  by (simp add: c_string_def is_digit_def digits_value_def)

text \<open>Printing a descriptor in decimal and parsing it back gives the descriptor, on every
  platform.\<close>

lemma parse_token_round_trip:
  assumes "int n \<le> INT_MAX" and "INT_MAX \<le> long_max"
  shows "laser_parse_token long_max (Some (decimal n @ CHR 0x00 # garbage)) = Some (int n)"
proof -
  have "c_string (decimal n @ CHR 0x00 # garbage) = decimal n"
    using decimal_digits [of n] by (auto simp: c_string_def is_digit_def takeWhile_append)
  with assms parse_digits [OF assms(2)] show ?thesis
    using decimal_digits [of n] decimal_nonempty [of n] by (simp add: decimal_value)
qed

lemma parse_token_round_trip_witness:
  "laser_parse_token 2147483647 (Some (decimal 1023 @ CHR 0x00 # ''x'')) = Some 1023"
  using parse_token_round_trip [of 1023 2147483647 "''x''"] by simp

end
