(* ===== verification/Quiet.thy ===== *)
theory Quiet
  imports Probe "HOL-Library.Multiset"
begin

text \<open>
  Resources as the trace shows them: what is held after a run of calls, and the calls that set up and
  give back nothing. Everything done through the transport is of the second kind, and works on the
  entry's own handle.
\<close>

section \<open>What a trace holds\<close>

text \<open>The handle a transfer goes to.\<close>

fun on_handle :: "event \<Rightarrow> handle option" where
  "on_handle (Ev_Bulk_Out _ hn _ _ _ _) = Some hn"
| "on_handle (Ev_Bulk_In _ hn _ _ _ _) = Some hn"
| "on_handle (Ev_Clear_Halt hn _ _) = Some hn"
| "on_handle (Ev_Control hn _ _ _ _) = Some hn"
| "on_handle _ = None"

text \<open>A handle can be used while it is open and an interface of it is claimed.\<close>

fun interface_of :: "resource \<Rightarrow> handle option" where
  "interface_of (Res_Interface hn _) = Some hn"
| "interface_of _ = None"

definition usable :: "resource multiset \<Rightarrow> handle \<Rightarrow> bool" where
  "usable held hn \<longleftrightarrow> Res_Handle hn \<in># held \<and> (\<exists>r \<in># held. interface_of r = Some hn)"

text \<open>\<open>None\<close> is a release of something not held - a double release, or a wrong one - or a transfer on a
  handle that is not open and claimed.\<close>

fun resources :: "event list \<Rightarrow> resource multiset \<Rightarrow> resource multiset option" where
  "resources [] held = Some held"
| "resources (Ev_Acquire r # evs) held = resources evs (add_mset r held)"
| "resources (Ev_Release r # evs) held =
     (if r \<in># held then resources evs (held - {#r#}) else None)"
| "resources (ev # evs) held =
     (case on_handle ev of
        None \<Rightarrow> resources evs held
      | Some hn \<Rightarrow> if usable held hn then resources evs held else None)"

fun touches_resource :: "event \<Rightarrow> bool" where
  "touches_resource (Ev_Acquire r) = True"
| "touches_resource (Ev_Release r) = True"
| "touches_resource _ = False"

text \<open>Calls that only transfer, on some handles.\<close>

definition quiet :: "(handle \<Rightarrow> bool) \<Rightarrow> event list \<Rightarrow> bool" where
  "quiet P evs \<longleftrightarrow> list_all (\<lambda>ev. \<not> touches_resource ev \<and> pred_option P (on_handle ev)) evs"

lemma resources_append:
  "resources (xs @ ys) held = Option.bind (resources xs held) (resources ys)"
  by (induction xs held rule: resources.induct) simp_all

lemma quiet_simps [simp]:
  "quiet P []" "quiet P (ev # evs) \<longleftrightarrow> \<not> touches_resource ev \<and> pred_option P (on_handle ev) \<and> quiet P evs"
  "quiet P (xs @ ys) \<longleftrightarrow> quiet P xs \<and> quiet P ys"
  by (auto simp: quiet_def)

lemma quiet_mono: "quiet P evs \<Longrightarrow> (\<And>hn. P hn \<Longrightarrow> Q hn) \<Longrightarrow> quiet Q evs"
  by (induction evs) (auto simp: option.pred_mono_strong)

lemma usable_more: "usable H hn \<Longrightarrow> usable (K + H) hn"
  by (auto simp: usable_def)

lemma resources_quiet: "quiet P evs \<Longrightarrow> (\<And>hn. P hn \<Longrightarrow> usable held hn) \<Longrightarrow> resources evs held = Some held"
  by (induction evs held rule: resources.induct) (simp_all split: option.split)

section \<open>Quiet steps\<close>

definition quiet_step :: "'w dev \<Rightarrow> 'w dev \<Rightarrow> bool" where
  "quiet_step d d' \<longleftrightarrow> handle (ent d') = handle (ent d) \<and>
     (\<exists>evs. trace d' = trace d @ evs \<and> quiet (\<lambda>hn. hn = handle (ent d)) evs)"

lemma quiet_step_refl [simp, intro]: "quiet_step d d"
  by (simp add: quiet_step_def)

lemma quiet_step_trans [trans]: "quiet_step a b \<Longrightarrow> quiet_step b c \<Longrightarrow> quiet_step a c"
  unfolding quiet_step_def by (elim exE conjE) (simp add: append_assoc)

lemma quiet_same:
  "trace d' = trace d \<Longrightarrow> handle (ent d') = handle (ent d) \<Longrightarrow> quiet_step a d \<Longrightarrow> quiet_step a d'"
  by (simp add: quiet_step_def)

lemma quiet_one:
  "trace d' = trace d @ [ev] \<Longrightarrow> \<not> touches_resource ev \<Longrightarrow> pred_option (\<lambda>hn. hn = handle (ent d)) (on_handle ev) \<Longrightarrow>
     handle (ent d') = handle (ent d) \<Longrightarrow> quiet_step a d \<Longrightarrow> quiet_step a d'"
  by (auto simp: quiet_step_def)

named_theorems quiet_intros \<open>chains of calls that touch no resource, last call first\<close>

lemma quiet_calls [quiet_intros]:
  "quiet_step a d \<Longrightarrow> quiet_step a (snd (do_bulk_out h ph ep bs t d))"
  "quiet_step a d \<Longrightarrow> quiet_step a (snd (do_bulk_in h ph ep len t d))"
  "quiet_step a d \<Longrightarrow> quiet_step a (do_clear_halt h ep d)"
  "quiet_step a d \<Longrightarrow> quiet_step a (snd (do_control h x y z len d))"
  "quiet_step a d \<Longrightarrow> quiet_step a (do_usleep h us d)"
  "quiet_step a d \<Longrightarrow> quiet_step a (snd (do_clock h d))"
  "quiet_step a d \<Longrightarrow> quiet_step a (snd (ms_since h s d))"
  "threads_rely h \<Longrightarrow> quiet_step a d \<Longrightarrow> quiet_step a (lock_io h d)"
  "quiet_step a d \<Longrightarrow> quiet_step a (snd (laser_is_cancelled h d))"
  "handle (f (ent d)) = handle (ent d) \<Longrightarrow> quiet_step a d \<Longrightarrow> quiet_step a (upd_ent f d)"
  by (auto simp: do_bulk_out_def do_bulk_in_def do_clear_halt_def do_control_def do_usleep_def
      do_clock_def ms_since_def lock_io_def laser_is_cancelled_def laser_set_cancelled_def threads_rely_def
      entry_rely_def Let_def case_prod_unfold intro: quiet_one quiet_same)

lemma quiet_reset [quiet_intros]: "quiet_step a d \<Longrightarrow> quiet_step a (laser_mass_storage_reset h d)"
  by (simp add: laser_mass_storage_reset_def Let_def quiet_intros)

text \<open>The phases of a transaction.\<close>

lemma quiet_phases [quiet_intros]:
  "quiet_step a d \<Longrightarrow> quiet_step a (snd (bot_cbw_phase h cdb n len inward d))"
  "quiet_step a d \<Longrightarrow> quiet_step a (snd (bot_data_transfer h bytes len inward d))"
  "quiet_step a d \<Longrightarrow> quiet_step a (bot_clear_stall h ep d)"
  "quiet_step a d \<Longrightarrow> quiet_step a (snd (bot_csw_read h d))"
  "quiet_step a d \<Longrightarrow> quiet_step a (snd (bot_finish h c w data len k act csw0 d))"
  by (simp_all add: bot_cbw_phase_def bot_data_transfer_def bot_clear_stall_def bot_csw_read_def
      bot_finish_def Let_def case_prod_unfold quiet_intros entry_frameD(7) [OF bot_residue_frame])

lemma quiet_longer_phases [quiet_intros]:
  "quiet_step a d \<Longrightarrow> quiet_step a (snd (snd (snd (bot_data_phase h data len inward act d))))"
  "quiet_step a d \<Longrightarrow> quiet_step a (snd (bot_csw_phase h d))"
  by (simp_all add: bot_data_phase_def bot_csw_phase_def Let_def case_prod_unfold quiet_intros split: option.split)

text \<open>Whatever happens to it, a transaction begins with its wrapper, and goes on quietly.\<close>

lemma send_goes_on:
  assumes "laser_bot_send_locked h cdb n data len inward act csw d = (out, d')" and "0 \<le> n" and "n \<le> 16"
  shows "quiet_step (snd (bot_cbw_phase h cdb n len inward d)) d'"
proof -
  let ?d = "snd (bot_cbw_phase h cdb n len inward d)"
  note q = quiet_longer_phases(1) [OF quiet_step_refl, of ?d h data len inward act]
  from assms(1) show ?thesis
  proof (cases rule: bot_send_cases)
    case (cbw r)
    then show ?thesis by simp
  next
    case (data c d1 r data' actual')
    then show ?thesis using q by simp
  next
    case (csw c d1 k data' actual' d2 r)
    then show ?thesis using quiet_longer_phases(2) [OF q, of h] by simp
  next
    case (verdict c d1 k data' actual' d2 w d3)
    then show ?thesis
      using quiet_phases(5) [OF quiet_longer_phases(2) [OF q, of h], of h c w data' len k actual'
          "map_option (\<lambda>_. -1) csw"] by simp
  qed (use assms(2,3) in simp)
qed

lemma quiet_send:
  "quiet_step d (snd (laser_bot_send_locked h cdb n data len inward act csw d))"
proof (cases "0 \<le> n \<and> n \<le> 16")
  case True
  obtain out d' where run: "laser_bot_send_locked h cdb n data len inward act csw d = (out, d')"
    by fastforce
  have "quiet_step (snd (bot_cbw_phase h cdb n len inward d)) d'"
    by (rule send_goes_on [OF run]) (use True in simp_all)
  then have "quiet_step d d'"
    using quiet_step_trans [OF quiet_phases(1) [OF quiet_step_refl, of d h cdb n len inward]] by blast
  with run show ?thesis by simp
qed (auto simp: laser_bot_send_locked_def Let_def)

lemma wrapper_goes_out:
  "\<exists>bs ret k evs. trace (snd (bot_cbw_phase h cdb n len inward d)) =
     trace d @ Ev_Bulk_Out CBW_Phase (handle (ent d)) (ep_out (ent d)) bs ret k # evs"
proof -
  let ?d = "upd_ent (\<lambda>e. e\<lparr>tag := tag e + 1\<rparr>) d"
  let ?d1 = "snd (do_bulk_out h CBW_Phase (ep_out (ent ?d)) (cbw_bytes (build_cbw (ent ?d) cdb n len inward))
    (phase_timeout (ent ?d) CBW_Phase) ?d)"
  have sent: "\<exists>bs ret k. trace ?d1 = trace d @ [Ev_Bulk_Out CBW_Phase (handle (ent d)) (ep_out (ent d)) bs ret k]"
    by (simp add: do_bulk_out_def case_prod_unfold)
  obtain evs where "trace (laser_mass_storage_reset h ?d1) = trace ?d1 @ evs"
    using quiet_reset [OF quiet_step_refl, of ?d1 h] unfolding quiet_step_def by blast
  moreover have "snd (bot_cbw_phase h cdb n len inward d) \<in> {?d1, laser_mass_storage_reset h ?d1}"
    by (simp add: bot_cbw_phase_def Let_def case_prod_unfold)
  ultimately show ?thesis using sent by auto
qed

lemma send_goes_out:
  assumes "laser_bot_send_locked h cdb n data len inward act csw d = (out, d')" and "0 \<le> n" and "n \<le> 16"
  shows "\<exists>bs ret k evs. trace d' = trace d @ Ev_Bulk_Out CBW_Phase (handle (ent d)) (ep_out (ent d)) bs ret k # evs"
  using wrapper_goes_out [of h cdb n len inward d] send_goes_on [OF assms] by (auto simp: quiet_step_def)

section \<open>The commands are quiet\<close>

locale quiet_transport = bot_transport +
  assumes send_quiet: "quiet_step d (snd (send cdb n data len inward act csw d))"
begin

lemma quiet_after_send:
  "quiet_step a d \<Longrightarrow> quiet_step a (snd (send cdb n data len inward act csw d))"
  by (rule quiet_step_trans [OF _ send_quiet])

lemma quiet_commands:
  "quiet_step a d \<Longrightarrow> quiet_step a (snd (request_sense_locked send sn d))"
  "quiet_step a d \<Longrightarrow> quiet_step a (snd (test_unit_ready_locked send d))"
  "quiet_step a d \<Longrightarrow> quiet_step a (snd (log_media_status_locked send d))"
  by (simp_all add: request_sense_locked_def test_unit_ready_locked_def log_media_status_locked_def
      case_prod_unfold Let_def quiet_after_send)

lemma quiet_start_stop:
  "quiet_step a d \<Longrightarrow> quiet_step a (snd (start_stop_unit_locked send i b d))"
  by (simp add: start_stop_unit_locked_def case_prod_unfold Let_def quiet_after_send quiet_commands)

lemma quiet_allow_removal:
  "threads_rely h \<Longrightarrow> quiet_step a d \<Longrightarrow> quiet_step a (laser_allow_medium_removal send h d)"
  by (simp add: laser_allow_medium_removal_def case_prod_unfold quiet_after_send quiet_commands
      quiet_intros)

lemma quiet_spin_up: "quiet_step a d \<Longrightarrow> quiet_step a (spin_up_locked send d)"
  by (simp add: spin_up_locked_def case_prod_unfold quiet_start_stop)

lemma quiet_wait_sense:
  "quiet_step a d \<Longrightarrow> quiet_step a (snd (snd (wait_sense send h started nm sn L d)))"
  by (simp add: wait_sense_def case_prod_unfold Let_def quiet_commands quiet_intros)

lemma quiet_wait_round:
  "quiet_step a d \<Longrightarrow> quiet_step a (snd (snd (wait_round send h started nm L d)))"
  by (simp add: wait_round_def case_prod_unfold Let_def quiet_wait_sense quiet_commands quiet_intros)

lemma quiet_wait:
  assumes "laser_wait_until_ready send h d = Some (r, L', d')" and "quiet_step a d" and "threads_rely h"
  shows "quiet_step a d'"
proof -
  obtain started d1 where t1: "do_clock h d = (started, d1)" by fastforce
  obtain nm d2 where t2: "do_clock h (spin_up_locked send (lock_io h d1)) = (nm, d2)" by fastforce
  have "quiet_step a d1" using quiet_calls(6) [OF assms(2), of h] t1 by simp
  then have "quiet_step a (spin_up_locked send (lock_io h d1))"
    by (simp add: quiet_spin_up quiet_intros assms(3))
  then have d2: "quiet_step a d2" using quiet_calls(6) [of a _ h] t2 by fastforce
  from assms(1) t1 t2
  have "wait_loop send h started nm wait_start (upd_ent (\<lambda>e. e\<lparr>not_ready := True\<rparr>) d2) = Some (r, L', d')"
    by (simp add: laser_wait_until_ready_def)
  then show ?thesis
  proof (rule wait_loop_invariant [where I = "\<lambda>_ x. quiet_step a x" and Q = "\<lambda>_ _ x. quiet_step a x"])
    show "quiet_step a (upd_ent (\<lambda>e. e\<lparr>not_ready := True\<rparr>) d2)" using d2 by (simp add: quiet_intros)
  next
    fix L x L' x'
    assume "quiet_step a x" "wait_round send h started nm L x = (None, L', x')"
    then show "quiet_step a x'" using quiet_wait_round [of a x started nm L] by simp
  next
    fix L x r L' x'
    assume "quiet_step a x" "wait_round send h started nm L x = (Some r, L', x')"
    then show "quiet_step a x'" using quiet_wait_round [of a x started nm L] by simp
  qed
qed

lemma quiet_inquiry:
  "threads_rely h \<Longrightarrow> quiet_step a d \<Longrightarrow> quiet_step a (snd (inquiry_tries send h tries left d))"
proof (induction left arbitrary: tries d)
  case (Suc left)
  have "quiet_step a (snd (inquiry_try send h d))"
    using Suc.prems
    by (simp add: inquiry_try_def case_prod_unfold quiet_after_send quiet_intros)
  then show ?case
    using Suc.IH Suc.prems(1) by (simp add: case_prod_unfold quiet_intros)
qed simp

lemma quiet_probe_units:
  "threads_rely h \<Longrightarrow> quiet_step a d \<Longrightarrow> quiet_step a (snd (probe_units send h luns lun0 d))"
proof (induction luns arbitrary: lun0 d)
  case (Cons l luns)
  obtain ans d1 where inq: "inquiry_pdt send h (if l = 0 then LASER_INQUIRY_MAX_ATTEMPTS else 1)
      (upd_ent (\<lambda>e. e\<lparr>lun := of_nat l\<rparr>) d) = (ans, d1)"
    by fastforce
  have "quiet_step a (snd (inquiry_pdt send h k (upd_ent (\<lambda>e. e\<lparr>lun := of_nat l\<rparr>) d)))" for k
    using Cons.prems by (simp add: inquiry_pdt_def quiet_inquiry quiet_intros)
  from this [of "if l = 0 then LASER_INQUIRY_MAX_ATTEMPTS else 1"] inq
  have "quiet_step a d1" by simp
  with inq Cons.IH Cons.prems(1) show ?case by (cases ans) (simp_all add: quiet_intros)
qed (simp add: Let_def quiet_intros split: option.split)

lemma quiet_probe:
  "threads_rely h \<Longrightarrow> quiet_step a d \<Longrightarrow> quiet_step a (snd (laser_probe_lun send h d))"
  by (simp add: laser_probe_lun_def case_prod_unfold Let_def quiet_probe_units quiet_intros
      del: upt_Suc)

end

interpretation quiet_bot: quiet_transport h "laser_bot_send_locked h"
  by unfold_locales (rule quiet_send)

end
