(* ===== verification/Registry.thy ===== *)
theory Registry
  imports Quiet
begin

text \<open>
  registry.c: registering a device with its unwind ladder, claims on a token, teardown. What the
  code sets up is recorded as acquisitions and releases in the trace, so that leaks and double
  releases can be stated. The condition variable is created the way the code does where
  \<open>pthread_condattr_setclock()\<close> exists. Registration and teardown run under the registry lock:
  each is one step here.
\<close>

section \<open>Calls of registration\<close>

definition do_call :: "('w \<Rightarrow> 'r \<times> 'w) \<Rightarrow> 'w dev \<Rightarrow> 'r \<times> 'w dev" where
  "do_call f d = (case f (world d) of (r, w) \<Rightarrow> (r, d\<lparr>world := w\<rparr>))"

definition logged :: "event \<Rightarrow> 'w dev \<Rightarrow> 'w dev" where
  "logged ev d = d\<lparr>trace := trace d @ [ev]\<rparr>"

definition do_pthread_init :: "'w host \<Rightarrow> resource \<Rightarrow> 'w dev \<Rightarrow> bool \<times> 'w dev" where
  "do_pthread_init h r d =
     (case do_call (pthread_init h r) d of
        (ok, d1) \<Rightarrow> (ok, if ok then logged (Ev_Acquire r) d1 else d1))"

definition do_interface :: "'w host \<Rightarrow> iface_op \<Rightarrow> 'w dev \<Rightarrow> libusb_ret \<times> 'w dev" where
  "do_interface h op d = do_call (libusb_interface h op (handle (ent d)) (iface_num (ent d))) d"

definition do_close :: "'w host \<Rightarrow> 'w dev \<Rightarrow> 'w dev" where
  "do_close h d = logged (Ev_Release (Res_Handle (handle (ent d))))
     (d\<lparr>world := libusb_close h (handle (ent d)) (world d)\<rparr>)"

definition do_exit :: "'w host \<Rightarrow> 'w dev \<Rightarrow> 'w dev" where
  "do_exit h d = logged (Ev_Release (Res_Context (ctx (ent d))))
     (d\<lparr>world := libusb_exit h (ctx (ent d)) (world d)\<rparr>)"

definition do_release_interface :: "'w host \<Rightarrow> 'w dev \<Rightarrow> 'w dev" where
  "do_release_interface h d =
     logged (Ev_Release (Res_Interface (handle (ent d)) (iface_num (ent d)))) (snd (do_interface h Op_Release d))"

text \<open>The driver counts as given back once the attempt is made; its result is only logged.\<close>

definition reattach_kernel_driver :: "'w host \<Rightarrow> 'w dev \<Rightarrow> 'w dev" where
  "reattach_kernel_driver h d =
     (if \<not> kernel_driver_detached (ent d) then d
      else let d1 = upd_ent (\<lambda>e. e\<lparr>kernel_driver_detached := False\<rparr>) d in
        logged (Ev_Release (Res_Kernel_Driver (handle (ent d)) (iface_num (ent d))))
          (snd (do_interface h Op_Attach_Kernel_Driver d1)))"

section \<open>Setting a device up\<close>

text \<open>The labels of the unwind ladder, in the order of acquisition.\<close>

datatype unwind = Err_Slot | Err_Io_Mutex | Err_Css_Mutex | Err_Css_Cond | Err_Ctx | Err_Handle
  | Err_Iface

definition register_identity :: "'w host \<Rightarrow> int \<Rightarrow> 'w dev \<Rightarrow> 'w dev" where
  "register_identity h fd d =
     (case do_call (fstat h fd) d of (st, d1) \<Rightarrow>
        upd_ent (\<lambda>e. e\<lparr>max_transfer_bytes := LASER_MAX_BYTES_PER_TRANSFER\<rparr>)
          (case st of
             None \<Rightarrow> d1
           | Some (dv, ino) \<Rightarrow> upd_ent (\<lambda>e. e\<lparr>reg_dev := dv, reg_ino := ino\<rparr>) d1))"

definition register_locks :: "'w host \<Rightarrow> 'w dev \<Rightarrow> unwind option \<times> 'w dev" where
  "register_locks h d =
     (case do_pthread_init h Res_Io_Lock d of (ok1, d1) \<Rightarrow>
      if \<not> ok1 then (Some Err_Slot, d1)
      else case do_pthread_init h Res_Css_Mtx d1 of (ok2, d2) \<Rightarrow>
      if \<not> ok2 then (Some Err_Io_Mutex, d2)
      else case do_pthread_init h Res_Cv_Attr d2 of (ok3, d3) \<Rightarrow>
      if \<not> ok3 then (Some Err_Css_Mutex, d3)
      else case do_call (condattr_setclock h) d3 of (ok4, d4) \<Rightarrow>
      if \<not> ok4 then (Some Err_Css_Mutex, logged (Ev_Release Res_Cv_Attr) d4)
      else case do_pthread_init h Res_Css_Cv d4 of (ok5, d5) \<Rightarrow>
        let d6 = logged (Ev_Release Res_Cv_Attr) d5
        in (if \<not> ok5 then Some Err_Css_Mutex else None, d6))"

definition open_device :: "'w host \<Rightarrow> int \<Rightarrow> 'w dev \<Rightarrow> unwind option \<times> 'w dev" where
  "open_device h fd d =
     (case do_call (libusb_init_context h) d of ((ret1, c), d1) \<Rightarrow>
      if ret1 \<noteq> LIBUSB_SUCCESS then (Some Err_Css_Cond, d1)
      else
        let d2 = logged (Ev_Acquire (Res_Context c)) (upd_ent (\<lambda>e. e\<lparr>ctx := c\<rparr>) d1)
        in case do_call (libusb_wrap_sys_device h c fd) d2 of ((ret2, hn), d3) \<Rightarrow>
        if ret2 \<noteq> LIBUSB_SUCCESS then (Some Err_Ctx, d3)
        else
          let d4 = logged (Ev_Acquire (Res_Handle hn)) (upd_ent (\<lambda>e. e\<lparr>handle := hn\<rparr>) d3)
          in case do_call (libusb_get_device_descriptor h hn) d4 of (desc, d5) \<Rightarrow>
            (None, case desc of
                None \<Rightarrow> d5
              | Some ds \<Rightarrow> upd_ent (\<lambda>e. e\<lparr>vid := idVendor ds, pid := idProduct ds,
                  bcd_device := bcdDevice ds\<rparr>) d5))"

text \<open>Detaching the kernel driver by hand; a failure only shows in the claim.\<close>

definition detach_kernel_driver :: "'w host \<Rightarrow> 'w dev \<Rightarrow> 'w dev" where
  "detach_kernel_driver h d =
     (case do_call (libusb_kernel_driver_active h (handle (ent d)) (iface_num (ent d))) d of
        (ret, d1) \<Rightarrow>
          if ret = 1 then
            (case do_interface h Op_Detach_Kernel_Driver d1 of (ret', d2) \<Rightarrow>
               if ret' = LIBUSB_SUCCESS then
                 logged (Ev_Acquire (Res_Kernel_Driver (handle (ent d)) (iface_num (ent d))))
                   (upd_ent (\<lambda>e. e\<lparr>kernel_driver_detached := True\<rparr>) d2)
               else d2)
          else d1)"

definition claim_device :: "'w host \<Rightarrow> 'w dev \<Rightarrow> unwind option \<times> 'w dev" where
  "claim_device h d =
     (case laser_find_bulk_endpoints h d of (found, d1) \<Rightarrow>
      if \<not> found then (Some Err_Handle, d1)
      else case do_interface h Op_Claim (detach_kernel_driver h d1) of (ret, d2) \<Rightarrow>
        if ret \<noteq> LIBUSB_SUCCESS then (Some Err_Handle, d2)
        else (None, logged (Ev_Acquire (Res_Interface (handle (ent d2)) (iface_num (ent d2)))) d2))"

text \<open>The commands: reset, which unit, unlock the tray, wait for the medium. Only an optical
  drive is kept.\<close>

definition prepare_drive ::
  "'w transport \<Rightarrow> 'w host \<Rightarrow> 'w dev \<Rightarrow> (unwind option \<times> 'w dev) option" where
  "prepare_drive send h d =
     (case laser_probe_lun send h (laser_mass_storage_reset h d) of (optical, d1) \<Rightarrow>
      if optical = LASER_OPTICAL_NO then Some (Some Err_Iface, d1)
      else if optical = LASER_OPTICAL_GONE then Some (Some Err_Iface, d1)
      else if optical = LASER_OPTICAL_NO_ANSWER then Some (Some Err_Iface, d1)
      else
        let d2 = (if kernel_driver_detached (ent d1) then laser_allow_medium_removal send h d1 else d1)
        in case laser_wait_until_ready send h d2 of
            None \<Rightarrow> None
          | Some (_, _, d3) \<Rightarrow> Some (None, upd_ent (\<lambda>e. e\<lparr>in_use := True\<rparr>) d3))"

definition register_device ::
  "'w transport \<Rightarrow> 'w host \<Rightarrow> int \<Rightarrow> 'w dev \<Rightarrow> (unwind option \<times> 'w dev) option" where
  "register_device send h fd d =
     (case register_locks h (register_identity h fd d) of
        (Some err, d1) \<Rightarrow> Some (Some err, d1)
      | (None, d1) \<Rightarrow>
          (case open_device h fd d1 of
             (Some err, d2) \<Rightarrow> Some (Some err, d2)
           | (None, d2) \<Rightarrow>
               (case claim_device h d2 of
                  (Some err, d3) \<Rightarrow> Some (Some err, d3)
                | (None, d3) \<Rightarrow> prepare_drive send h d3)))"

section \<open>Unwinding\<close>

fun unwind_rank :: "unwind \<Rightarrow> nat" where
  "unwind_rank Err_Slot = 0"
| "unwind_rank Err_Io_Mutex = 1"
| "unwind_rank Err_Css_Mutex = 2"
| "unwind_rank Err_Css_Cond = 3"
| "unwind_rank Err_Ctx = 4"
| "unwind_rank Err_Handle = 5"
| "unwind_rank Err_Iface = 6"

function (sequential) unwind_from :: "'w host \<Rightarrow> unwind \<Rightarrow> 'w dev \<Rightarrow> 'w dev" where
  "unwind_from h Err_Slot d = d"
| "unwind_from h Err_Io_Mutex d = unwind_from h Err_Slot (logged (Ev_Release Res_Io_Lock) d)"
| "unwind_from h Err_Css_Mutex d = unwind_from h Err_Io_Mutex (logged (Ev_Release Res_Css_Mtx) d)"
| "unwind_from h Err_Css_Cond d = unwind_from h Err_Css_Mutex (logged (Ev_Release Res_Css_Cv) d)"
| "unwind_from h Err_Ctx d = unwind_from h Err_Css_Cond (do_exit h d)"
| "unwind_from h Err_Handle d = unwind_from h Err_Ctx (do_close h (reattach_kernel_driver h d))"
| "unwind_from h Err_Iface d = unwind_from h Err_Handle (do_release_interface h d)"
  by pat_completeness auto
termination
  by (relation "measure (\<lambda>(h, err, d). unwind_rank err)") simp_all

definition laser_register :: "'w host \<Rightarrow> int \<Rightarrow> 'w sys \<Rightarrow> (bool \<times> 'w sys) option" where
  "laser_register h fd s =
     (case reserve_slot fd s of
        (None, s1) \<Rightarrow> Some (False, s1)
      | (Some i, s1) \<Rightarrow>
          (case register_device (laser_bot_send_locked h) h fd (dev_of i s1) of
             None \<Rightarrow> None
           | Some (None, d) \<Rightarrow> Some (True, put_dev i d s1)
           | Some (Some err, d) \<Rightarrow> Some (False, release_slot i (put_dev i (unwind_from h err d) s1))))"

section \<open>Teardown and claims\<close>

text \<open>What teardown does with the I/O lock held.\<close>

definition close_device :: "'w host \<Rightarrow> 'w dev \<Rightarrow> 'w dev" where
  "close_device h d =
     (let d1 = (if \<not> device_gone (ent d) then laser_mass_storage_reset h d else d)
      in do_exit h (do_close h (do_release_interface h d1)))"

definition teardown_device :: "'w host \<Rightarrow> 'w dev \<Rightarrow> 'w dev" where
  "teardown_device h d =
     logged (Ev_Release Res_Io_Lock) (logged (Ev_Release Res_Css_Mtx) (logged (Ev_Release Res_Css_Cv)
       (close_device h (lock_io h d))))"

definition teardown_entry_locked :: "'w host \<Rightarrow> nat \<Rightarrow> 'w sys \<Rightarrow> 'w sys" where
  "teardown_entry_locked h i s = release_slot i (put_dev i (teardown_device h (dev_of i s)) s)"

definition fd_still_ours :: "'w host \<Rightarrow> int \<Rightarrow> 'w dev \<Rightarrow> bool \<times> 'w dev" where
  "fd_still_ours h fd d =
     (if reg_dev (ent d) = 0 \<and> reg_ino (ent d) = 0 then (True, d)
      else case do_call (fstat h fd) d of
          (None, d1) \<Rightarrow> (False, d1)
        | (Some (dv, ino), d1) \<Rightarrow> (dv = reg_dev (ent d) \<and> ino = reg_ino (ent d), d1))"

definition add_claim :: "nat \<Rightarrow> 'w sys \<Rightarrow> 'w sys" where
  "add_claim i s = put_dev i (upd_ent (\<lambda>e. e\<lparr>refs := refs e + 1\<rparr>) (dev_of i s)) s"

definition laser_acquire :: "'w host \<Rightarrow> int \<Rightarrow> 'w sys \<Rightarrow> (laser_status \<times> 'w sys) option" where
  "laser_acquire h tk s =
     (case laser_lookup tk s of
        Some i \<Rightarrow>
          (case run_on i (fd_still_ours h tk) s of (ours, s1) \<Rightarrow>
             if \<not> ours then Some (LASER_ERR_NO_SUCH_TOKEN, s1) else Some (LASER_OK, add_claim i s1))
      | None \<Rightarrow>
          (case laser_register h tk s of
             None \<Rightarrow> None
           | Some (_, s1) \<Rightarrow>
               (case laser_lookup tk s1 of
                  None \<Rightarrow> Some (LASER_ERR_NO_SUCH_TOKEN, s1)
                | Some i \<Rightarrow> Some (LASER_OK, add_claim i s1))))"

definition laser_release :: "'w host \<Rightarrow> int \<Rightarrow> 'w sys \<Rightarrow> 'w sys" where
  "laser_release h tk s =
     (case laser_lookup tk s of
        None \<Rightarrow> s
      | Some i \<Rightarrow>
          if refs (g_entries s ! i) \<le> 0 then s
          else
            let s1 = put_dev i (upd_ent (\<lambda>e. e\<lparr>refs := refs e - 1\<rparr>) (dev_of i s)) s
            in if 0 < refs (g_entries s1 ! i) then s1
               else teardown_entry_locked h i (put_dev i (upd_ent laser_set_cancelled (dev_of i s1)) s1))"

end
