(* ===== verification/Registry_Laws.thy ===== *)
theory Registry_Laws
  imports Registry
begin

text \<open>
  What registration and teardown do with resources: at every label of the unwind ladder exactly
  what the rungs below it release is held, a device kept owns exactly what teardown gives back,
  and nothing else of the table is touched.
\<close>

section \<open>Accounting\<close>

definition acquired :: "('w, 'a) io_scheme \<Rightarrow> ('w, 'b) io_scheme \<Rightarrow> resource multiset \<Rightarrow> bool" where
  "acquired d0 d H \<longleftrightarrow>
     (\<exists>evs. trace d = trace d0 @ evs \<and> (\<forall>K. resources evs K = Some (K + H)))"

lemma acquired_start: "trace d = trace d0 \<Longrightarrow> acquired d0 d {#}"
  by (auto simp: acquired_def intro: exI [of _ "[]"])

lemma acquired_same: "acquired d0 d H \<Longrightarrow> trace d' = trace d \<Longrightarrow> acquired d0 d' H"
  by (simp add: acquired_def)

lemma acquired_quiet:
  assumes "acquired d0 d H" and "quiet_step d d'" and "usable H (handle (ent d))"
  shows "acquired d0 d' H"
proof -
  obtain xs where xs: "trace d = trace d0 @ xs" "\<forall>K. resources xs K = Some (K + H)"
    using assms(1) by (auto simp: acquired_def)
  obtain ys where ys: "trace d' = trace d @ ys" "quiet (\<lambda>hn. hn = handle (ent d)) ys"
    using assms(2) by (auto simp: quiet_step_def)
  have "resources ys (K + H) = Some (K + H)" for K
    by (rule resources_quiet [OF ys(2)]) (simp add: usable_more [OF assms(3)])
  with xs ys show ?thesis by (auto simp: acquired_def resources_append)
qed

lemma acquired_more:
  "acquired d0 d H \<Longrightarrow> acquired d0 (logged (Ev_Acquire r) d) (add_mset r H)"
  by (auto simp: acquired_def logged_def resources_append)

lemma acquired_less:
  assumes "acquired d0 d H" and "r \<in># H"
  shows "acquired d0 (logged (Ev_Release r) d) (H - {#r#})"
proof -
  obtain evs where "trace d = trace d0 @ evs" "\<forall>K. resources evs K = Some (K + H)"
    using assms(1) by (auto simp: acquired_def)
  moreover from this(2) assms(2) have "resources (evs @ [Ev_Release r]) K = Some (K + (H - {#r#}))" for K
    by (simp add: resources_append)
  ultimately show ?thesis by (auto simp: acquired_def logged_def)
qed

lemma acquired_release: "acquired d0 d (add_mset r H) \<Longrightarrow> acquired d0 (logged (Ev_Release r) d) H"
  using acquired_less [of d0 d "add_mset r H" r] by simp

lemma acquired_resources:
  assumes "acquired d0 d H" and "resources (trace d0) {#} = Some K"
  shows "resources (trace d) {#} = Some (K + H)"
  using assms by (auto simp: acquired_def resources_append)

lemma acquired_trans:
  assumes "acquired a b G" and "acquired b c H"
  shows "acquired a c (G + H)"
proof -
  obtain xs ys where "trace b = trace a @ xs" "\<forall>K. resources xs K = Some (K + G)"
    "trace c = trace b @ ys" "\<forall>K. resources ys K = Some (K + H)"
    using assms by (auto simp: acquired_def)
  then show ?thesis
    by (auto simp: acquired_def resources_append ac_simps intro!: exI [of _ "xs @ ys"])
qed

lemma logged_sel [simp]:
  "ent (logged ev d) = ent d" "world (logged ev d) = world d" "trace (logged ev d) = trace d @ [ev]"
  by (simp_all add: logged_def)

lemma do_call_sel [simp]:
  "ent (snd (do_call f d)) = ent d" "trace (snd (do_call f d)) = trace d"
  by (simp_all add: do_call_def case_prod_unfold)

lemma do_interface_sel [simp]:
  "ent (snd (do_interface h op d)) = ent d" "trace (snd (do_interface h op d)) = trace d"
  by (simp_all add: do_interface_def)

lemma do_close_ent [simp]: "ent (do_close h d) = ent d"
  by (simp add: do_close_def)

lemma do_exit_ent [simp]: "ent (do_exit h d) = ent d"
  by (simp add: do_exit_def)

lemma do_release_interface_ent [simp]: "ent (do_release_interface h d) = ent d"
  by (simp add: do_release_interface_def)

section \<open>What each label holds\<close>

definition driver_of :: "laser_entry \<Rightarrow> resource multiset" where
  "driver_of e =
     (if kernel_driver_detached e then {#Res_Kernel_Driver (handle e) (iface_num e)#} else {#})"

fun held_at :: "unwind \<Rightarrow> laser_entry \<Rightarrow> resource multiset" where
  "held_at Err_Slot e = {#}"
| "held_at Err_Io_Mutex e = {#Res_Io_Lock#}"
| "held_at Err_Css_Mutex e = {#Res_Css_Mtx, Res_Io_Lock#}"
| "held_at Err_Css_Cond e = {#Res_Css_Cv, Res_Css_Mtx, Res_Io_Lock#}"
| "held_at Err_Ctx e = {#Res_Context (ctx e), Res_Css_Cv, Res_Css_Mtx, Res_Io_Lock#}"
| "held_at Err_Handle e = add_mset (Res_Handle (handle e))
     (driver_of e + {#Res_Context (ctx e), Res_Css_Cv, Res_Css_Mtx, Res_Io_Lock#})"
| "held_at Err_Iface e = add_mset (Res_Interface (handle e) (iface_num e))
     (add_mset (Res_Handle (handle e))
       (driver_of e + {#Res_Context (ctx e), Res_Css_Cv, Res_Css_Mtx, Res_Io_Lock#}))"

lemma reattach_acquired:
  assumes "acquired d0 d (driver_of (ent d) + H)"
  shows "acquired d0 (reattach_kernel_driver h d) H"
    and "ent (reattach_kernel_driver h d) = (ent d)\<lparr>kernel_driver_detached := False\<rparr>"
proof -
  show "ent (reattach_kernel_driver h d) = (ent d)\<lparr>kernel_driver_detached := False\<rparr>"
    by (cases "kernel_driver_detached (ent d)") (simp_all add: reattach_kernel_driver_def Let_def)
  show "acquired d0 (reattach_kernel_driver h d) H"
  proof (cases "kernel_driver_detached (ent d)")
    case False
    with assms show ?thesis by (simp add: reattach_kernel_driver_def driver_of_def)
  next
    case True
    let ?d = "snd (do_interface h Op_Attach_Kernel_Driver
      (upd_ent (\<lambda>e. e\<lparr>kernel_driver_detached := False\<rparr>) d))"
    have "acquired d0 ?d (add_mset (Res_Kernel_Driver (handle (ent d)) (iface_num (ent d))) H)"
      using acquired_same [OF assms, of ?d] True by (simp add: driver_of_def)
    from acquired_release [OF this] True show ?thesis
      by (simp add: reattach_kernel_driver_def Let_def)
  qed
qed

lemma close_acquired:
  assumes "acquired d0 d (add_mset (Res_Handle (handle (ent d))) H)"
  shows "acquired d0 (do_close h d) H"
  unfolding do_close_def by (rule acquired_release [OF acquired_same [OF assms]]) simp

lemma exit_acquired:
  assumes "acquired d0 d (add_mset (Res_Context (ctx (ent d))) H)"
  shows "acquired d0 (do_exit h d) H"
  unfolding do_exit_def by (rule acquired_release [OF acquired_same [OF assms]]) simp

lemma release_interface_acquired:
  assumes "acquired d0 d (add_mset (Res_Interface (handle (ent d)) (iface_num (ent d))) H)"
  shows "acquired d0 (do_release_interface h d) H"
  unfolding do_release_interface_def by (rule acquired_release [OF acquired_same [OF assms]]) simp

text \<open>From any label, the ladder releases what is held there, once each.\<close>

lemma unwind_releases:
  "acquired d0 d (held_at err (ent d)) \<Longrightarrow> acquired d0 (unwind_from h err d) {#}"
proof (induction h err d rule: unwind_from.induct)
  case (1 h d)
  then show ?case by simp
next
  case (2 h d)
  from 2(2) show ?case by (auto intro!: 2(1) acquired_release)
next
  case (3 h d)
  from 3(2) show ?case by (auto intro!: 3(1) acquired_release)
next
  case (4 h d)
  from 4(2) show ?case by (auto intro!: 4(1) acquired_release)
next
  case (5 h d)
  have "acquired d0 (do_exit h d) (held_at Err_Css_Cond (ent (do_exit h d)))"
    using 5(2) by (simp add: exit_acquired)
  from 5(1) [OF this] show ?case by (simp only: unwind_from.simps(5))
next
  case (6 h d)
  let ?d = "reattach_kernel_driver h d" and ?e = "ent d"
  have held: "acquired d0 d (driver_of ?e + add_mset (Res_Handle (handle ?e)) (held_at Err_Ctx ?e))"
    using 6(2) by (simp add: ac_simps)
  have "acquired d0 (do_close h ?d) (held_at Err_Ctx ?e)"
    using reattach_acquired [OF held, of h] by (intro close_acquired) simp
  then have "acquired d0 (do_close h ?d) (held_at Err_Ctx (ent (do_close h ?d)))"
    using reattach_acquired(2) [OF held, of h] by simp
  from 6(1) [OF this] show ?case by (simp only: unwind_from.simps(6))
next
  case (7 h d)
  have "acquired d0 (do_release_interface h d) (held_at Err_Handle (ent (do_release_interface h d)))"
    using 7(2) by (simp add: release_interface_acquired)
  from 7(1) [OF this] show ?case by (simp only: unwind_from.simps(7))
qed

section \<open>Setting up\<close>

text \<open>The part of an entry the commands of registration leave alone.\<close>

definition core :: "laser_entry \<Rightarrow> handle \<times> nat \<times> byte \<times> bool \<times> int \<times> int \<times> bool \<times> bool \<times> bool \<times> int" where
  "core e = (handle e, ctx e, iface_num e, kernel_driver_detached e, token e, refs e, in_use e,
     cancelled e, device_gone e, max_transfer_bytes e)"

lemma held_at_core: "core e = core e' \<Longrightarrow> held_at err e = held_at err e'"
  by (cases err) (simp_all add: core_def driver_of_def)

lemma core_entry_frame: "entry_frame e e' \<Longrightarrow> core e' = core e"
  by (auto simp: entry_frame_def core_def)

lemma core_probe_frame: "probe_frame e e' \<Longrightarrow> core e' = core e"
  by (auto simp: probe_frame_def core_def)

definition fresh_entry :: "int \<Rightarrow> laser_entry \<Rightarrow> bool" where
  "fresh_entry fd e \<longleftrightarrow> token e = fd \<and> refs e = 0 \<and> \<not> in_use e \<and> \<not> cancelled e \<and> \<not> device_gone e \<and>
     max_transfer_bytes e = LASER_MAX_BYTES_PER_TRANSFER"

lemma fresh_entry_core: "core e = core e' \<Longrightarrow> fresh_entry fd e = fresh_entry fd e'"
  by (simp add: fresh_entry_def core_def)

lemma register_identity_facts:
  "trace (register_identity h fd d) = trace d"
  "ent d = zero_entry\<lparr>token := fd\<rparr> \<Longrightarrow> fresh_entry fd (ent (register_identity h fd d)) \<and>
     \<not> kernel_driver_detached (ent (register_identity h fd d))"
  by (simp_all add: register_identity_def case_prod_unfold fresh_entry_def zero_entry_def
      split: option.split)

lemma pthread_init_acquired:
  assumes "do_pthread_init h r d = (ok, d')" and "acquired d0 d H"
  shows "acquired d0 d' (if ok then add_mset r H else H)" and "ent d' = ent d"
proof -
  obtain b d1 where c: "do_call (pthread_init h r) d = (b, d1)" by fastforce
  then have same: "trace d1 = trace d" "ent d1 = ent d"
    using do_call_sel [of "pthread_init h r" d] by simp_all
  from acquired_same [OF assms(2) same(1)] assms(1) c acquired_more
  show "acquired d0 d' (if ok then add_mset r H else H)"
    by (auto simp: do_pthread_init_def)
  show "ent d' = ent d" using assms(1) c same by (auto simp: do_pthread_init_def)
qed

lemma register_locks_acquired:
  assumes run: "register_locks h d = (err, d')" and start: "acquired d0 d {#}"
  shows "acquired d0 d' (held_at (case err of None \<Rightarrow> Err_Css_Cond | Some l \<Rightarrow> l) (ent d'))"
    and "ent d' = ent d"
proof -
  obtain ok1 d1 where i1: "do_pthread_init h Res_Io_Lock d = (ok1, d1)" by fastforce
  obtain ok2 d2 where i2: "do_pthread_init h Res_Css_Mtx d1 = (ok2, d2)" by fastforce
  obtain ok3 d3 where i3: "do_pthread_init h Res_Cv_Attr d2 = (ok3, d3)" by fastforce
  obtain ok4 d4 where i4: "do_call (condattr_setclock h) d3 = (ok4, d4)" by fastforce
  obtain ok5 d5 where i5: "do_pthread_init h Res_Css_Cv d4 = (ok5, d5)" by fastforce
  note a1 = pthread_init_acquired [OF i1 start]
  have a4: "trace d4 = trace d3" "ent d4 = ent d3"
    using do_call_sel [of "condattr_setclock h" d3] i4 by simp_all
  let ?R = "acquired d0 d' (held_at (case err of None \<Rightarrow> Err_Css_Cond | Some l \<Rightarrow> l) (ent d')) \<and>
    ent d' = ent d"
  have ?R
  proof (cases ok1)
    case False
    with run i1 a1 show ?thesis by (auto simp: register_locks_def)
  next
    case ok1: True
    with a1 have b1: "acquired d0 d1 {#Res_Io_Lock#}" by simp
    note a2 = pthread_init_acquired [OF i2 b1]
    show ?thesis
    proof (cases ok2)
      case False
      with run i1 i2 ok1 a1 a2 show ?thesis by (auto simp: register_locks_def)
    next
      case ok2: True
      with a2 have b2: "acquired d0 d2 {#Res_Css_Mtx, Res_Io_Lock#}" by simp
      note a3 = pthread_init_acquired [OF i3 b2]
      show ?thesis
      proof (cases ok3)
        case False
        with run i1 i2 i3 ok1 ok2 a1 a2 a3 show ?thesis by (auto simp: register_locks_def)
      next
        case ok3: True
        with a3 a4 have b4: "acquired d0 d4 {#Res_Cv_Attr, Res_Css_Mtx, Res_Io_Lock#}"
          by (auto intro: acquired_same)
        note a5 = pthread_init_acquired [OF i5 b4]
        have "ok5 \<Longrightarrow> acquired d0 d5 {#Res_Cv_Attr, Res_Css_Cv, Res_Css_Mtx, Res_Io_Lock#}"
          using a5(1) by (simp add: add_mset_commute [of Res_Cv_Attr Res_Css_Cv])
        then have "ok5 \<Longrightarrow> acquired d0 (logged (Ev_Release Res_Cv_Attr) d5)
            {#Res_Css_Cv, Res_Css_Mtx, Res_Io_Lock#}"
          by (rule acquired_release)
        moreover have "\<not> ok5 \<Longrightarrow> acquired d0 (logged (Ev_Release Res_Cv_Attr) d5)
            {#Res_Css_Mtx, Res_Io_Lock#}"
          using a5(1) by (intro acquired_release) simp
        moreover have "acquired d0 (logged (Ev_Release Res_Cv_Attr) d4) {#Res_Css_Mtx, Res_Io_Lock#}"
          by (rule acquired_release [OF b4])
        ultimately show ?thesis
          using run i1 i2 i3 i4 i5 ok1 ok2 ok3 a1(2) a2(2) a3(2) a4(2) a5(2)
          by (auto simp: register_locks_def Let_def split: if_splits)
      qed
    qed
  qed
  then show "acquired d0 d' (held_at (case err of None \<Rightarrow> Err_Css_Cond | Some l \<Rightarrow> l) (ent d'))"
    and "ent d' = ent d" by blast+
qed

lemma open_device_acquired:
  assumes run: "open_device h fd d = (err, d')" and start: "acquired d0 d (held_at Err_Css_Cond (ent d))"
    and driver: "\<not> kernel_driver_detached (ent d)"
  shows "acquired d0 d' (held_at (case err of None \<Rightarrow> Err_Handle | Some l \<Rightarrow> l) (ent d'))"
    and "\<not> kernel_driver_detached (ent d')"
    and "fresh_entry tk (ent d) \<Longrightarrow> fresh_entry tk (ent d')"
proof -
  obtain ret1 c d1 where c1: "do_call (libusb_init_context h) d = ((ret1, c), d1)"
    by (rule reply2_exhaust)
  then have s1: "trace d1 = trace d" "ent d1 = ent d"
    using do_call_sel [of "libusb_init_context h" d] by simp_all
  let ?d2 = "logged (Ev_Acquire (Res_Context c)) (upd_ent (\<lambda>e. e\<lparr>ctx := c\<rparr>) d1)"
  obtain ret2 hn d3 where c2: "do_call (libusb_wrap_sys_device h c fd) ?d2 = ((ret2, hn), d3)"
    by (rule reply2_exhaust)
  then have s3: "trace d3 = trace ?d2" "ent d3 = ent ?d2"
    using do_call_sel [of "libusb_wrap_sys_device h c fd" ?d2] by simp_all
  let ?d4 = "logged (Ev_Acquire (Res_Handle hn)) (upd_ent (\<lambda>e. e\<lparr>handle := hn\<rparr>) d3)"
  obtain desc d5 where c3: "do_call (libusb_get_device_descriptor h hn) ?d4 = (desc, d5)" by fastforce
  then have s5: "trace d5 = trace ?d4" "ent d5 = ent ?d4"
    using do_call_sel [of "libusb_get_device_descriptor h hn" ?d4] by simp_all
  have b1: "acquired d0 d1 {#Res_Css_Cv, Res_Css_Mtx, Res_Io_Lock#}"
    using acquired_same [OF start s1(1)] by simp
  have b2: "acquired d0 ?d2 {#Res_Context c, Res_Css_Cv, Res_Css_Mtx, Res_Io_Lock#}"
    by (rule acquired_more [OF acquired_same [OF b1]]) simp
  have b4: "acquired d0 ?d4 {#Res_Handle hn, Res_Context c, Res_Css_Cv, Res_Css_Mtx, Res_Io_Lock#}"
    by (rule acquired_more [OF acquired_same [OF b2]]) (simp add: s3)
  have b3: "acquired d0 d3 {#Res_Context c, Res_Css_Cv, Res_Css_Mtx, Res_Io_Lock#}"
    by (rule acquired_same [OF b2 s3(1)])
  have b5: "acquired d0 d5 {#Res_Handle hn, Res_Context c, Res_Css_Cv, Res_Css_Mtx, Res_Io_Lock#}"
    by (rule acquired_same [OF b4 s5(1)])
  consider "ret1 \<noteq> LIBUSB_SUCCESS" "err = Some Err_Css_Cond" "d' = d1"
    | "err = Some Err_Ctx" "d' = d3"
    | "err = None" "trace d' = trace d5" "core (ent d') = core (ent d5)"
    using run c1 c2 c3 by (auto simp: open_device_def Let_def core_def split: if_splits option.splits)
  then have "acquired d0 d' (held_at (case err of None \<Rightarrow> Err_Handle | Some l \<Rightarrow> l) (ent d')) \<and>
    \<not> kernel_driver_detached (ent d') \<and> (fresh_entry tk (ent d) \<longrightarrow> fresh_entry tk (ent d'))"
  proof cases
    case 1
    with b1 s1 driver show ?thesis by simp
  next
    case 2
    with b3 s1 s3 driver show ?thesis by (simp add: fresh_entry_def)
  next
    case 3
    then have "trace d' = trace d5" "handle (ent d') = hn" "ctx (ent d') = c"
      "kernel_driver_detached (ent d') = kernel_driver_detached (ent d)"
      "fresh_entry tk (ent d) \<longrightarrow> fresh_entry tk (ent d')"
      using s1 s3 s5 by (auto simp: fresh_entry_def core_def)
    with acquired_same [OF b5] 3(1) driver show ?thesis by (simp add: driver_of_def)
  qed
  then show "acquired d0 d' (held_at (case err of None \<Rightarrow> Err_Handle | Some l \<Rightarrow> l) (ent d'))"
    and "\<not> kernel_driver_detached (ent d')"
    and "fresh_entry tk (ent d) \<Longrightarrow> fresh_entry tk (ent d')" by blast+
qed

lemma choose_interface_keeps:
  "choose_interface cfg e = Some e' \<Longrightarrow> \<exists>n i o' m. e' = e\<lparr>iface_num := n, ep_in := i, ep_out := o',
     ep_max_packet := m\<rparr>"
  by (induction cfg e rule: choose_interface.induct) (auto simp: Let_def split: if_splits)

lemma find_endpoints_acquired:
  assumes run: "laser_find_bulk_endpoints h d = (found, d')" and "acquired d0 d H"
  shows "acquired d0 d' H"
    and "\<exists>n i o' m. ent d' = (ent d)\<lparr>iface_num := n, ep_in := i, ep_out := o', ep_max_packet := m\<rparr>"
proof -
  obtain cfg w where c: "libusb_get_active_config_descriptor h (handle (ent d)) (world d) = (cfg, w)"
    by fastforce
  have same: "\<exists>n i o' m. ent d = (ent d)\<lparr>iface_num := n, ep_in := i, ep_out := o', ep_max_packet := m\<rparr>"
    by (intro exI [of _ "iface_num (ent d)"] exI [of _ "ep_in (ent d)"] exI [of _ "ep_out (ent d)"]
        exI [of _ "ep_max_packet (ent d)"]) simp
  let ?r = "Res_Config (handle (ent d))"
  have cases: "trace d' = trace d \<or> trace d' = trace (logged (Ev_Release ?r) (logged (Ev_Acquire ?r) d))"
    using run c by (auto simp: laser_find_bulk_endpoints_def Let_def split: option.splits)
  have "acquired d0 (logged (Ev_Release ?r) (logged (Ev_Acquire ?r) d)) H"
    by (rule acquired_release [OF acquired_more [OF assms(2)]])
  with cases assms(2) show "acquired d0 d' H" by (blast intro: acquired_same)
  show "\<exists>n i o' m. ent d' = (ent d)\<lparr>iface_num := n, ep_in := i, ep_out := o', ep_max_packet := m\<rparr>"
  proof (cases "ent d' = ent d")
    case True
    with same show ?thesis by simp
  next
    case False
    with run c obtain x where "choose_interface x (ent d) = Some (ent d')"
      by (auto simp: laser_find_bulk_endpoints_def Let_def split: option.splits)
    then show ?thesis by (rule choose_interface_keeps)
  qed
qed

lemma detach_acquired:
  assumes "acquired d0 d H" and "\<not> kernel_driver_detached (ent d)"
    and d'_def: "d' = detach_kernel_driver h d"
  shows "acquired d0 d' (driver_of (ent d') + H)"
    and "\<exists>b. ent d' = (ent d)\<lparr>kernel_driver_detached := b\<rparr>"
proof -
  obtain ret d1 where c: "do_call (libusb_kernel_driver_active h (handle (ent d)) (iface_num (ent d))) d =
      (ret, d1)" by fastforce
  then have s1: "trace d1 = trace d" "ent d1 = ent d"
    using do_call_sel [of "libusb_kernel_driver_active h (handle (ent d)) (iface_num (ent d))" d]
    by simp_all
  obtain ret' d2 where op: "do_interface h Op_Detach_Kernel_Driver d1 = (ret', d2)" by fastforce
  then have s2: "trace d2 = trace d1" "ent d2 = ent d1"
    using do_interface_sel [of h Op_Detach_Kernel_Driver d1] by simp_all
  have b2: "acquired d0 d2 H" "acquired d0 d1 H"
    using acquired_same [OF assms(1)] s1 s2 by simp_all
  have b3: "acquired d0 (logged (Ev_Acquire r) (upd_ent f d2)) (add_mset r H)" for r f
    by (rule acquired_more [OF acquired_same [OF b2(1)]]) simp
  have "ent d = (ent d)\<lparr>kernel_driver_detached := kernel_driver_detached (ent d)\<rparr>" by simp
  then have same: "\<exists>b. ent d = (ent d)\<lparr>kernel_driver_detached := b\<rparr>" by blast
  consider "d' = d1" | "d' = d2"
    | "d' = logged (Ev_Acquire (Res_Kernel_Driver (handle (ent d)) (iface_num (ent d))))
          (upd_ent (\<lambda>e. e\<lparr>kernel_driver_detached := True\<rparr>) d2)"
    using c op d'_def by (auto simp: detach_kernel_driver_def split: if_splits)
  then have "acquired d0 d' (driver_of (ent d') + H) \<and> (\<exists>b. ent d' = (ent d)\<lparr>kernel_driver_detached := b\<rparr>)"
  proof cases
    case 1
    with b2 s1 same assms(2) show ?thesis by (simp add: driver_of_def)
  next
    case 2
    with b2 s1 s2 same assms(2) show ?thesis by (simp add: driver_of_def)
  next
    case 3
    have "driver_of (ent d') = {#Res_Kernel_Driver (handle (ent d)) (iface_num (ent d))#}"
      using 3 s1 s2 by (simp add: driver_of_def)
    moreover have "acquired d0 d' (add_mset (Res_Kernel_Driver (handle (ent d)) (iface_num (ent d))) H)"
      unfolding 3 by (rule b3)
    moreover have "ent d' = (ent d)\<lparr>kernel_driver_detached := True\<rparr>" using 3 s1 s2 by simp
    ultimately show ?thesis by auto
  qed
  then show "acquired d0 d' (driver_of (ent d') + H)"
    and "\<exists>b. ent d' = (ent d)\<lparr>kernel_driver_detached := b\<rparr>" by blast+
qed

lemma claim_device_acquired:
  assumes run: "claim_device h d = (err, d')" and start: "acquired d0 d (held_at Err_Handle (ent d))"
    and driver: "\<not> kernel_driver_detached (ent d)"
  shows "acquired d0 d' (held_at (case err of None \<Rightarrow> Err_Iface | Some l \<Rightarrow> l) (ent d'))"
    and "fresh_entry tk (ent d) \<Longrightarrow> fresh_entry tk (ent d')"
proof -
  let ?base = "\<lambda>e. {#Res_Handle (handle e), Res_Context (ctx e), Res_Css_Cv, Res_Css_Mtx, Res_Io_Lock#}"
  obtain found d1 where f: "laser_find_bulk_endpoints h d = (found, d1)" by fastforce
  obtain ret d3 where cl: "do_interface h Op_Claim (detach_kernel_driver h d1) = (ret, d3)" by fastforce
  then have s3: "trace d3 = trace (detach_kernel_driver h d1)" "ent d3 = ent (detach_kernel_driver h d1)"
    using do_interface_sel [of h Op_Claim "detach_kernel_driver h d1"] by simp_all
  have base: "acquired d0 d (?base (ent d))" using start driver by (simp add: driver_of_def)
  note found = find_endpoints_acquired [OF f base]
  have e1: "handle (ent d1) = handle (ent d)" "ctx (ent d1) = ctx (ent d)"
    "\<not> kernel_driver_detached (ent d1)" "fresh_entry tk (ent d1) = fresh_entry tk (ent d)"
    using found(2) driver by (auto simp: fresh_entry_def)
  note det = detach_acquired [OF found(1) e1(3) refl, of h]
  have e3: "handle (ent d3) = handle (ent d)" "ctx (ent d3) = ctx (ent d)"
    "fresh_entry tk (ent d3) = fresh_entry tk (ent d)"
    using det(2) e1 s3 by (auto simp: fresh_entry_def)
  have b3: "acquired d0 d3 (held_at Err_Handle (ent d3))"
    using acquired_same [OF det(1) s3(1)] s3(2) e3 by simp
  have b4: "acquired d0 (logged (Ev_Acquire (Res_Interface (handle (ent d3)) (iface_num (ent d3)))) d3)
      (held_at Err_Iface (ent d3))"
    using acquired_more [OF b3] by simp
  have b1: "acquired d0 d1 (held_at Err_Handle (ent d1))"
    using found(1) e1 by (simp add: driver_of_def)
  consider "err = Some Err_Handle" "d' = d1" | "err = Some Err_Handle" "d' = d3"
    | "err = None" "d' = logged (Ev_Acquire (Res_Interface (handle (ent d3)) (iface_num (ent d3)))) d3"
    using run f cl by (auto simp: claim_device_def split: if_splits)
  then have "acquired d0 d' (held_at (case err of None \<Rightarrow> Err_Iface | Some l \<Rightarrow> l) (ent d')) \<and>
    (fresh_entry tk (ent d) \<longrightarrow> fresh_entry tk (ent d'))"
    using b1 b3 b4 e1(4) e3(3) by cases (simp_all del: held_at.simps)
  then show "acquired d0 d' (held_at (case err of None \<Rightarrow> Err_Iface | Some l \<Rightarrow> l) (ent d'))"
    and "fresh_entry tk (ent d) \<Longrightarrow> fresh_entry tk (ent d')" by blast+
qed

section \<open>The commands of registration\<close>

lemma unpublished_lock: "unpublished h \<Longrightarrow> \<not> in_use (ent d) \<Longrightarrow> ent (lock_io h d) = ent d"
  by (simp add: unpublished_def lock_io_def case_prod_unfold)

context bot_transport
begin

lemma allow_removal_core:
  "unpublished h \<Longrightarrow> \<not> in_use (ent d) \<Longrightarrow> core (ent (laser_allow_medium_removal send h d)) = core (ent d)"
  using core_entry_frame [OF send_frame] core_entry_frame [OF request_sense_frame]
  by (simp add: laser_allow_medium_removal_def case_prod_unfold unpublished_lock)

lemma wait_until_ready_core:
  assumes "unpublished h" and "\<not> in_use (ent d)"
    and run: "laser_wait_until_ready send h d = Some (r, L', d')"
  shows "core (ent d') = core (ent d)"
proof -
  obtain started d1 where t1: "do_clock h d = (started, d1)" by fastforce
  obtain nm d2 where t2: "do_clock h (spin_up_locked send (lock_io h d1)) = (nm, d2)" by fastforce
  let ?d = "upd_ent (\<lambda>e. e\<lparr>not_ready := True\<rparr>) d2"
  have loop: "wait_loop send h started nm wait_start ?d = Some (r, L', d')"
    using run t1 t2 by (simp add: laser_wait_until_ready_def)
  have "core (ent d') = core (ent ?d)"
    using wait_loop_frame [OF loop] core_entry_frame
    by (auto simp: core_def split: if_splits dest!: core_entry_frame)
  also have "\<dots> = core (ent d2)" by (simp add: core_def)
  also have "\<dots> = core (ent (lock_io h d1))"
    using do_clock_frame(1) [of h "spin_up_locked send (lock_io h d1)"] t2
      core_entry_frame [OF spin_up_frame] by simp
  also have "\<dots> = core (ent d)"
    using unpublished_lock [OF assms(1), of d1] assms(2) do_clock_frame(1) [of h d] t1 by simp
  finally show ?thesis .
qed

end

lemma prepare_drive_acquired:
  assumes "unpublished h" and hidden: "\<not> in_use (ent d)" and probe: "\<not> probe_timeouts (ent d)"
    and threads: "threads_rely h"
    and run: "prepare_drive (laser_bot_send_locked h) h d = Some (err, d')"
    and start: "acquired d0 d (held_at Err_Iface (ent d))"
  shows "acquired d0 d' (held_at (case err of None \<Rightarrow> Err_Iface | Some l \<Rightarrow> l) (ent d'))"
    and "fresh_entry fd (ent d) \<Longrightarrow>
      if err = None then in_use (ent d') \<and> fresh_entry fd ((ent d')\<lparr>in_use := False\<rparr>) else fresh_entry fd (ent d')"
    and "err = None \<or> err = Some Err_Iface"
proof -
  let ?send = "laser_bot_send_locked h" and ?r = "laser_mass_storage_reset h d"
  obtain optical d1 where p: "laser_probe_lun ?send h ?r = (optical, d1)" by fastforce
  have q1: "quiet_step d d1"
    using quiet_bot.quiet_probe [OF threads, of d ?r] quiet_reset [of d d h] p by simp
  have open_handle: "usable (held_at Err_Iface (ent d)) (handle (ent d))" by (simp add: usable_def)
  have c1: "core (ent d1) = core (ent d)"
    using bot.probe_lun_frame [OF assms(1) _ _ p] hidden probe core_probe_frame
    by (simp add: laser_mass_storage_reset_frame)
  then have h1: "\<not> in_use (ent d1)" using hidden by (simp add: core_def)
  let ?d2 = "if kernel_driver_detached (ent d1) then laser_allow_medium_removal ?send h d1 else d1"
  have q2: "quiet_step d ?d2" using quiet_bot.quiet_allow_removal [OF threads q1] q1 by simp
  have c2: "core (ent ?d2) = core (ent d)" using bot.allow_removal_core [OF assms(1) h1] c1 by simp
  then have h2: "\<not> in_use (ent ?d2)" using hidden by (simp only: core_def prod.inject) simp
  consider "err = Some Err_Iface" "d' = d1"
    | r L d3 where "laser_wait_until_ready ?send h ?d2 = Some (r, L, d3)" "err = None"
        "d' = upd_ent (\<lambda>e. e\<lparr>in_use := True\<rparr>) d3"
    using run p by (auto simp: prepare_drive_def Let_def split: if_splits option.splits)
  then have "acquired d0 d' (held_at (case err of None \<Rightarrow> Err_Iface | Some l \<Rightarrow> l) (ent d')) \<and>
    (fresh_entry fd (ent d) \<longrightarrow> (if err = None then in_use (ent d') \<and>
      fresh_entry fd ((ent d')\<lparr>in_use := False\<rparr>) else fresh_entry fd (ent d'))) \<and>
    (err = None \<or> err = Some Err_Iface)"
  proof cases
    case 1
    with acquired_quiet [OF start q1 open_handle] held_at_core [OF c1] fresh_entry_core [OF c1] show ?thesis
      by (simp del: held_at.simps)
  next
    case (2 r L d3)
    have c3: "core (ent d3) = core (ent d)"
      using bot.wait_until_ready_core [OF assms(1) h2 2(1)] c2 by simp
    have q3: "quiet_step d d3" by (rule quiet_bot.quiet_wait [OF 2(1) q2 threads])
    have "acquired d0 d' (held_at Err_Iface (ent d3))"
      unfolding held_at_core [OF c3]
      by (rule acquired_same [OF acquired_quiet [OF start q3 open_handle]]) (simp add: 2(3))
    moreover have "held_at Err_Iface (ent d3) = held_at Err_Iface (ent d')"
      using 2(3) by (simp add: driver_of_def)
    moreover have "fresh_entry fd (ent d) \<Longrightarrow> fresh_entry fd ((ent d')\<lparr>in_use := False\<rparr>)"
      using fresh_entry_core [OF c3, of fd] 2(3) by (simp add: fresh_entry_def)
    ultimately show ?thesis using 2 by simp
  qed
  then show "acquired d0 d' (held_at (case err of None \<Rightarrow> Err_Iface | Some l \<Rightarrow> l) (ent d'))"
    and "fresh_entry fd (ent d) \<Longrightarrow>
      if err = None then in_use (ent d') \<and> fresh_entry fd ((ent d')\<lparr>in_use := False\<rparr>) else fresh_entry fd (ent d')"
    and "err = None \<or> err = Some Err_Iface" by blast+
qed

section \<open>One registration\<close>

lemma open_device_probe:
  "probe_timeouts (ent (snd (open_device h fd d))) = probe_timeouts (ent d)"
  by (simp add: open_device_def case_prod_unfold Let_def split: option.split)

lemma claim_device_probe:
  "probe_timeouts (ent (snd (claim_device h d))) = probe_timeouts (ent d)"
proof -
  obtain found d1 where f: "laser_find_bulk_endpoints h d = (found, d1)" by fastforce
  have "probe_timeouts (ent d1) = probe_timeouts (ent d)"
    using find_endpoints_acquired(2) [OF f acquired_start [of d d]] by auto
  moreover have "probe_timeouts (ent (detach_kernel_driver h d1)) = probe_timeouts (ent d1)"
    by (simp add: detach_kernel_driver_def case_prod_unfold)
  ultimately show ?thesis using f by (simp add: claim_device_def case_prod_unfold)
qed

lemma register_device_result:
  assumes "unpublished h" and threads: "threads_rely h" and start: "ent d = zero_entry\<lparr>token := fd\<rparr>"
    and run: "register_device (laser_bot_send_locked h) h fd d = Some (err, d')"
  shows "acquired d d' (held_at (case err of None \<Rightarrow> Err_Iface | Some l \<Rightarrow> l) (ent d'))"
    and "err = None \<Longrightarrow> in_use (ent d') \<and> fresh_entry fd ((ent d')\<lparr>in_use := False\<rparr>)"
proof -
  let ?d1 = "register_identity h fd d"
  note id = register_identity_facts(1) [of h fd d] register_identity_facts(2) [OF start, of h]
  have quick: "\<not> probe_timeouts (ent ?d1)"
    using start by (simp add: register_identity_def case_prod_unfold zero_entry_def split: option.split)
  obtain err1 d2 where locks: "register_locks h ?d1 = (err1, d2)" by fastforce
  obtain err2 d3 where opened: "open_device h fd d2 = (err2, d3)" by fastforce
  obtain err3 d4 where claimed: "claim_device h d3 = (err3, d4)" by fastforce
  have a1: "acquired d ?d1 {#}" by (rule acquired_start) (rule id(1))
  note a2 = register_locks_acquired [OF locks a1]
  have "acquired d d' (held_at (case err of None \<Rightarrow> Err_Iface | Some l \<Rightarrow> l) (ent d')) \<and>
    (err = None \<longrightarrow> in_use (ent d') \<and> fresh_entry fd ((ent d')\<lparr>in_use := False\<rparr>))"
  proof (cases err1)
    case (Some l)
    with run locks a2 show ?thesis by (auto simp: register_device_def simp del: held_at.simps)
  next
    case none1: None
    have f2: "fresh_entry fd (ent d2)" "\<not> kernel_driver_detached (ent d2)" "\<not> probe_timeouts (ent d2)"
      using a2(2) id(2) quick by simp_all
    have b2: "acquired d d2 (held_at Err_Css_Cond (ent d2))"
      using a2(1) none1 by (simp del: held_at.simps)
    note a3 = open_device_acquired [OF opened b2 f2(2)]
    show ?thesis
    proof (cases err2)
      case (Some l)
      with run locks none1 opened a3(1) show ?thesis
        by (auto simp: register_device_def simp del: held_at.simps)
    next
      case none2: None
      have f3: "fresh_entry fd (ent d3)" "\<not> probe_timeouts (ent d3)"
        using a3(3) [OF f2(1)] open_device_probe [of h fd d2] f2(3) opened by simp_all
      have b3: "acquired d d3 (held_at Err_Handle (ent d3))"
        using a3(1) none2 by (simp del: held_at.simps)
      note a4 = claim_device_acquired [OF claimed b3 a3(2)]
      show ?thesis
      proof (cases err3)
        case (Some l)
        with run locks none1 opened none2 claimed a4(1) show ?thesis
          by (auto simp: register_device_def simp del: held_at.simps)
      next
        case none3: None
        have f4: "fresh_entry fd (ent d4)" "\<not> probe_timeouts (ent d4)"
          using a4(2) [OF f3(1)] claim_device_probe [of h d3] f3(2) claimed by simp_all
        have b4: "acquired d d4 (held_at Err_Iface (ent d4))"
          using a4(1) none3 by (simp del: held_at.simps)
        have prep: "prepare_drive (laser_bot_send_locked h) h d4 = Some (err, d')"
          using run locks none1 opened none2 claimed none3 by (simp add: register_device_def)
        have "\<not> in_use (ent d4)" using f4(1) by (simp add: fresh_entry_def)
        from prepare_drive_acquired [OF assms(1) this f4(2) threads prep b4] f4(1)
        show ?thesis by (auto simp del: held_at.simps)
      qed
    qed
  qed
  then show "acquired d d' (held_at (case err of None \<Rightarrow> Err_Iface | Some l \<Rightarrow> l) (ent d'))"
    and "err = None \<Longrightarrow> in_use (ent d') \<and> fresh_entry fd ((ent d')\<lparr>in_use := False\<rparr>)" by blast+
qed

text \<open>Failure gives everything back and leaves every registered entry alone.\<close>

lemma laser_register_cases:
  assumes "unpublished h" and threads: "threads_rely h" and run: "laser_register h fd s = Some (ok, s')"
    and eight: "length (g_entries s) = LASER_MAX_DEVICES"
  obtains (refused) "\<not> ok" and "s' = s"
  | (failed) i where "\<not> ok" and "i < LASER_MAX_DEVICES" and "\<not> in_use (g_entries s ! i)"
      and "acquired s s' {#}" and "g_entries s' = (g_entries s)[i := zero_entry]"
      and "laser_lookup fd s = None"
  | (kept) i e where "ok" and "i < LASER_MAX_DEVICES" and "\<not> in_use (g_entries s ! i)"
      and "acquired s s' (held_at Err_Iface e)" and "g_entries s' = (g_entries s)[i := e]"
      and "in_use e" and "token e = fd" and "refs e = 0" and "\<not> cancelled e" and "\<not> device_gone e"
      and "laser_lookup fd s = None"
      and "max_transfer_bytes e = LASER_MAX_BYTES_PER_TRANSFER"
proof -
  obtain slot s1 where slot: "reserve_slot fd s = (slot, s1)" by fastforce
  show thesis
  proof (cases slot)
    case None
    with slot run show thesis
      by (intro refused) (auto simp: laser_register_def reserve_slot_def split: if_splits option.splits)
  next
    case (Some i)
    with slot have s1: "s1 = s\<lparr>g_entries := (g_entries s)[i := zero_entry\<lparr>token := fd\<rparr>]\<rparr>"
      "find_slot (\<lambda>e. \<not> in_use e) (take LASER_MAX_DEVICES (g_entries s)) = Some i"
      "laser_lookup fd s = None"
      by (auto simp: reserve_slot_def laser_lookup_def find_slot_None split: if_splits option.splits)
    from find_slot_Some [OF s1(2)] eight have i: "i < LASER_MAX_DEVICES" "\<not> in_use (g_entries s ! i)"
      by auto
    let ?d = "dev_of i s1"
    have start: "ent ?d = zero_entry\<lparr>token := fd\<rparr>" using s1(1) i eight by simp
    have tr: "trace ?d = trace s" using s1(1) by simp
    obtain err d' where dev: "register_device (laser_bot_send_locked h) h fd ?d = Some (err, d')"
      using run slot Some by (auto simp: laser_register_def split: option.splits)
    note r = register_device_result [OF assms(1) threads start dev]
    have from_s: "acquired s x H" if "acquired ?d y H" "trace x = trace y" for x :: "'a sys" and y :: "'a dev" and H
      using that tr by (simp add: acquired_def)
    show thesis
    proof (cases err)
      case (Some l)
      have "acquired ?d (unwind_from h l d') {#}"
        using r(1) Some by (intro unwind_releases) (simp del: held_at.simps)
      then have "acquired s s' {#}"
        using run slot \<open>slot = Some i\<close> dev Some
        by (intro from_s) (auto simp: laser_register_def release_slot_def)
      moreover have "g_entries s' = (g_entries s)[i := zero_entry]" "\<not> ok"
        using run slot \<open>slot = Some i\<close> dev Some s1(1) by (auto simp: laser_register_def release_slot_def)
      ultimately show thesis using i s1(3) by (intro failed [of i]) auto
    next
      case None
      have s': "s' = put_dev i d' s1" "ok"
        using run slot \<open>slot = Some i\<close> dev None by (auto simp: laser_register_def)
      have "acquired s s' (held_at Err_Iface (ent d'))"
        using r(1) None s' by (intro from_s [of d']) (simp_all del: held_at.simps)
      moreover have "g_entries s' = (g_entries s)[i := ent d']" using s' s1(1) by simp
      ultimately show thesis
        using r(2) [OF None] i s1(3) s'(2) by (intro kept [of i "ent d'"]) (auto simp: fresh_entry_def simp del: held_at.simps)
    qed
  qed
qed

text \<open>Teardown gives back what the entry owns, the detached kernel driver excepted.\<close>

definition base_of :: "laser_entry \<Rightarrow> resource multiset" where
  "base_of e = {#Res_Interface (handle e) (iface_num e), Res_Handle (handle e), Res_Context (ctx e),
     Res_Css_Cv, Res_Css_Mtx, Res_Io_Lock#}"

lemma held_iface: "held_at Err_Iface e = base_of e + driver_of e"
  by (simp add: base_of_def)

lemma teardown_trace:
  assumes "threads_rely h"
  shows "\<exists>evs. trace (teardown_device h d) = trace d @ evs @
      [Ev_Release (Res_Interface (handle (ent d)) (iface_num (ent d))), Ev_Release (Res_Handle (handle (ent d))),
       Ev_Release (Res_Context (ctx (ent d))), Ev_Release Res_Css_Cv, Ev_Release Res_Css_Mtx,
       Ev_Release Res_Io_Lock] \<and>
    (evs = [] \<or> is_reset_recovery (ent (lock_io h d)) evs) \<and>
    (evs = [] \<longleftrightarrow> device_gone (ent (lock_io h d)))"
proof -
  let ?d1 = "lock_io h d"
  let ?d2 = "if \<not> device_gone (ent ?d1) then laser_mass_storage_reset h ?d1 else ?d1"
  have "entry_rely (ent d) (ent ?d1)"
    using assms by (simp add: lock_io_def case_prod_unfold threads_rely_def)
  then have same: "handle (ent ?d2) = handle (ent d)" "iface_num (ent ?d2) = iface_num (ent d)"
    "ctx (ent ?d2) = ctx (ent d)"
    by (simp_all add: entry_rely_def laser_mass_storage_reset_frame)
  obtain evs where evs: "is_reset_recovery (ent ?d1) evs" "trace (laser_mass_storage_reset h ?d1) = trace ?d1 @ evs"
    using laser_mass_storage_reset_trace by blast
  then have "evs \<noteq> []" by (auto simp: is_reset_recovery_iff)
  have "\<exists>evs. trace ?d2 = trace d @ evs \<and> (evs = [] \<or> is_reset_recovery (ent ?d1) evs) \<and>
      (evs = [] \<longleftrightarrow> device_gone (ent ?d1))"
  proof (cases "device_gone (ent ?d1)")
    case True
    then show ?thesis by (intro exI [of _ "[]"]) (simp add: lock_io_frame)
  next
    case False
    with evs \<open>evs \<noteq> []\<close> show ?thesis by (intro exI [of _ evs]) (simp add: lock_io_frame)
  qed
  then obtain pre where "trace ?d2 = trace d @ pre" "pre = [] \<or> is_reset_recovery (ent ?d1) pre"
    "pre = [] \<longleftrightarrow> device_gone (ent ?d1)" by blast
  moreover have "trace (teardown_device h d) = trace ?d2 @
      [Ev_Release (Res_Interface (handle (ent ?d2)) (iface_num (ent ?d2))), Ev_Release (Res_Handle (handle (ent ?d2))),
       Ev_Release (Res_Context (ctx (ent ?d2))), Ev_Release Res_Css_Cv, Ev_Release Res_Css_Mtx,
       Ev_Release Res_Io_Lock]"
    by (simp add: teardown_device_def close_device_def Let_def do_exit_def do_close_def do_release_interface_def)
  ultimately show ?thesis unfolding same by auto
qed

end
