(* ===== verification/Claims.thy ===== *)
theory Claims
  imports Registry_Laws
begin

text \<open>
  The registry as its clients see it: a count of claims per token, behind which registration and
  teardown happen. The contract is a locale; the model's table is its interpretation, with the
  well-formedness of the table and the account of every resource as the invariant.
\<close>

section \<open>The contract\<close>

datatype 'k claim_op = Acquire 'k | Release 'k

text \<open>What a history of operations, with the outcomes of the acquires, does to the counts.\<close>

fun count_claims :: "('k claim_op \<times> bool) list \<Rightarrow> ('k \<Rightarrow> nat) \<Rightarrow> 'k \<Rightarrow> nat" where
  "count_claims [] c = c"
| "count_claims ((Acquire k, b) # rest) c = count_claims rest (if b then c(k := c k + 1) else c)"
| "count_claims ((Release k, b) # rest) c = count_claims rest (c(k := c k - 1))"

text \<open>Running a list of operations; \<open>None\<close> when an acquire does not return.\<close>

fun run_history :: "('k \<Rightarrow> 's \<Rightarrow> (bool \<times> 's) option) \<Rightarrow> ('k \<Rightarrow> 's \<Rightarrow> 's) \<Rightarrow> 'k claim_op list \<Rightarrow> 's \<Rightarrow>
    (('k claim_op \<times> bool) list \<times> 's) option" where
  "run_history acq rel [] s = Some ([], s)"
| "run_history acq rel (Acquire k # ops) s =
     (case acq k s of None \<Rightarrow> None
      | Some (b, s1) \<Rightarrow> map_option (\<lambda>(h, s'). ((Acquire k, b) # h, s')) (run_history acq rel ops s1))"
| "run_history acq rel (Release k # ops) s =
     map_option (\<lambda>(h, s'). ((Release k, True) # h, s')) (run_history acq rel ops (rel k s))"

locale claim_registry =
  fixes ok :: "'s \<Rightarrow> bool" and counts :: "'s \<Rightarrow> 'k \<Rightarrow> nat"
    and acquire :: "'k \<Rightarrow> 's \<Rightarrow> (bool \<times> 's) option" and release :: "'k \<Rightarrow> 's \<Rightarrow> 's"
  assumes acquire_ok: "ok s \<Longrightarrow> acquire k s = Some (b, s') \<Longrightarrow> ok s'"
    and acquire_counts: "ok s \<Longrightarrow> acquire k s = Some (b, s') \<Longrightarrow>
      counts s' = (if b then (counts s)(k := counts s k + 1) else counts s)"
    and release_ok: "ok s \<Longrightarrow> ok (release k s)"
    and release_counts: "ok s \<Longrightarrow> counts (release k s) = (counts s)(k := counts s k - 1)"
begin

lemma history_refines:
  "ok s \<Longrightarrow> run_history acquire release ops s = Some (outcomes, s') \<Longrightarrow>
     ok s' \<and> counts s' = count_claims outcomes (counts s)"
proof (induction ops arbitrary: s outcomes)
  case (Cons op ops)
  show ?case
  proof (cases op)
    case (Acquire k)
    with Cons.prems obtain b s1 h where step: "acquire k s = Some (b, s1)"
      "run_history acquire release ops s1 = Some (h, s')" "outcomes = (Acquire k, b) # h"
      by (auto split: option.splits)
    from Cons.IH [OF acquire_ok [OF Cons.prems(1) step(1)] step(2)]
      acquire_counts [OF Cons.prems(1) step(1)] step(3)
    show ?thesis by (simp add: fun_upd_def)
  next
    case (Release k)
    with Cons.prems obtain h where step: "run_history acquire release ops (release k s) = Some (h, s')"
      "outcomes = (Release k, True) # h" by auto
    from Cons.IH [OF release_ok [OF Cons.prems(1)] step(1)] release_counts [OF Cons.prems(1)] step(2)
    show ?thesis by (simp add: fun_upd_def)
  qed
qed simp

text \<open>In particular a balanced client ends where it began.\<close>

lemma history_keeps: "ok s \<Longrightarrow> run_history acquire release ops s = Some (outcomes, s') \<Longrightarrow> ok s'"
  using history_refines by blast

end

section \<open>The table's invariant\<close>

definition registry_ok :: "'w sys \<Rightarrow> bool" where
  "registry_ok s \<longleftrightarrow> length (g_entries s) = LASER_MAX_DEVICES \<and>
     (\<forall>i < LASER_MAX_DEVICES. in_use (g_entries s ! i) \<longrightarrow> 0 < refs (g_entries s ! i)) \<and>
     (\<forall>i < LASER_MAX_DEVICES. \<forall>j < LASER_MAX_DEVICES. in_use (g_entries s ! i) \<and> in_use (g_entries s ! j) \<and>
        token (g_entries s ! i) = token (g_entries s ! j) \<longrightarrow> i = j)"

definition claims :: "'w sys \<Rightarrow> int \<Rightarrow> nat" where
  "claims s tk = (case laser_lookup tk s of None \<Rightarrow> 0 | Some i \<Rightarrow> nat (refs (g_entries s ! i)))"

lemma lookup_iff:
  assumes "registry_ok s"
  shows "laser_lookup tk s = Some i \<longleftrightarrow>
    i < LASER_MAX_DEVICES \<and> in_use (g_entries s ! i) \<and> token (g_entries s ! i) = tk"
proof
  assume "laser_lookup tk s = Some i"
  then show "i < LASER_MAX_DEVICES \<and> in_use (g_entries s ! i) \<and> token (g_entries s ! i) = tk"
    using laser_lookup_Some by blast
next
  assume r: "i < LASER_MAX_DEVICES \<and> in_use (g_entries s ! i) \<and> token (g_entries s ! i) = tk"
  have "laser_lookup tk s \<noteq> None"
    using r assms laser_lookup_None [of s tk] by (auto simp: registry_ok_def)
  then obtain j where j: "laser_lookup tk s = Some j" by blast
  then have "j < LASER_MAX_DEVICES \<and> in_use (g_entries s ! j) \<and> token (g_entries s ! j) = tk"
    using laser_lookup_Some by blast
  with r assms have "j = i" unfolding registry_ok_def by blast
  with j show "laser_lookup tk s = Some i" by simp
qed

lemma option_eqI: "(\<And>j. a = Some j \<longleftrightarrow> b = Some j) \<Longrightarrow> a = b"
  by (cases a; cases b) auto

text \<open>Writing one slot: the counts follow.\<close>

lemma claims_update:
  assumes s: "registry_ok s" and s': "registry_ok s'" and i: "i < LASER_MAX_DEVICES"
    and es: "g_entries s' = (g_entries s)[i := e]"
  shows "claims s' tk = (if in_use e \<and> token e = tk then nat (refs e)
    else if in_use (g_entries s ! i) \<and> token (g_entries s ! i) = tk then 0 else claims s tk)"
proof -
  have len: "length (g_entries s) = LASER_MAX_DEVICES" using s by (simp add: registry_ok_def)
  have at: "g_entries s' ! j = (if j = i then e else g_entries s ! j)" if "j < LASER_MAX_DEVICES" for j
    using es len that by (simp add: nth_list_update)
  show ?thesis
  proof (cases "in_use e \<and> token e = tk")
    case True
    then have "laser_lookup tk s' = Some i" using lookup_iff [OF s'] i at by simp
    with True at [OF i] show ?thesis by (simp add: claims_def)
  next
    case not_e: False
    show ?thesis
    proof (cases "in_use (g_entries s ! i) \<and> token (g_entries s ! i) = tk")
      case True
      then have here: "laser_lookup tk s = Some i" using lookup_iff [OF s, of tk i] i by simp
      have "laser_lookup tk s' = None"
      proof (rule ccontr)
        assume "laser_lookup tk s' \<noteq> None"
        then obtain j where "laser_lookup tk s' = Some j" by blast
        then have j: "j < LASER_MAX_DEVICES" "in_use (g_entries s' ! j)" "token (g_entries s' ! j) = tk"
          using lookup_iff [OF s', of tk j] by simp_all
        with not_e at [OF j(1)] have "j \<noteq> i" by auto
        with j at [OF j(1)] have "laser_lookup tk s = Some j" using lookup_iff [OF s, of tk j] by simp
        with here \<open>j \<noteq> i\<close> show False by simp
      qed
      with True not_e show ?thesis by (simp only: claims_def option.case if_False if_True simp_thms)
    next
      case False
      have same: "laser_lookup tk s' = laser_lookup tk s"
      proof (rule option_eqI)
        fix j
        show "laser_lookup tk s' = Some j \<longleftrightarrow> laser_lookup tk s = Some j"
          unfolding lookup_iff [OF s'] lookup_iff [OF s]
          using not_e False at [of j] by (cases "j = i") auto
      qed
      show ?thesis
      proof (cases "laser_lookup tk s")
        case None
        with same not_e False show ?thesis by (simp only: claims_def option.case if_False)
      next
        case (Some j)
        then have "j \<noteq> i" "j < LASER_MAX_DEVICES" using lookup_iff [OF s, of tk j] False by auto
        then have "g_entries s' ! j = g_entries s ! j" using at by simp
        with Some same not_e False show ?thesis by (simp only: claims_def option.case if_False)
      qed
    qed
  qed
qed

section \<open>The account of resources\<close>

definition owned_by :: "laser_entry \<Rightarrow> resource multiset" where
  "owned_by e = (if in_use e then base_of e else {#})"

fun owned :: "laser_entry list \<Rightarrow> resource multiset" where
  "owned [] = {#}"
| "owned (e # es) = owned_by e + owned es"

lemma owned_update:
  "i < length es \<Longrightarrow> owned (es[i := e]) + owned_by (es ! i) = owned es + owned_by e"
proof (induction es arbitrary: i)
  case (Cons x es)
  then show ?case by (cases i) (simp_all add: ac_simps)
qed simp

text \<open>
  Everything acquired so far and not released belongs to a registered entry, except kernel
  drivers, which stay detached on purpose; nothing was released that was not held, and nothing was
  transferred on a handle that was not open with its interface claimed.
\<close>

definition accounted :: "'w sys \<Rightarrow> bool" where
  "accounted s \<longleftrightarrow> (\<exists>K. resources (trace s) {#} = Some (owned (g_entries s) + K) \<and>
     (\<forall>r \<in># K. \<exists>hn n. r = Res_Kernel_Driver hn n))"

lemma driver_of_drivers: "r \<in># driver_of e \<Longrightarrow> \<exists>hn n. r = Res_Kernel_Driver hn n"
  by (auto simp: driver_of_def split: if_splits)

lemma reset_recovery_quiet: "is_reset_recovery e evs \<Longrightarrow> quiet (\<lambda>hn. hn = handle e) evs"
  by (auto simp: is_reset_recovery_iff)

end
