(* ===== verification/Claims_Props.thy ===== *)
theory Claims_Props
  imports Claims Probe_Props
begin

text \<open>
  Acquire and release keep the table's invariant and count claims: the interpretation of the
  claim registry on the model, and the properties of the device lifecycle.
\<close>

section \<open>The invariant\<close>

definition registry_inv :: "'w host \<Rightarrow> 'w sys \<Rightarrow> bool" where
  "registry_inv h s \<longleftrightarrow> unpublished h \<and> threads_rely h \<and> registry_ok s \<and> accounted s"

lemma registry_okD:
  assumes "registry_ok s"
  shows "length (g_entries s) = LASER_MAX_DEVICES"
    and "i < LASER_MAX_DEVICES \<Longrightarrow> in_use (g_entries s ! i) \<Longrightarrow> 0 < refs (g_entries s ! i)"
  using assms unfolding registry_ok_def by blast+

text \<open>Writing a slot keeps the table well formed when the new entry is free, or claimed under the
  token the slot had, or under one no other slot has.\<close>

lemma registry_ok_update:
  assumes s: "registry_ok s" and i: "i < LASER_MAX_DEVICES" and es: "g_entries s' = (g_entries s)[i := e]"
    and e: "in_use e \<Longrightarrow> 0 < refs e \<and> (in_use (g_entries s ! i) \<and> token e = token (g_entries s ! i) \<or>
      laser_lookup (token e) s = None)"
  shows "registry_ok s'"
proof -
  have len: "length (g_entries s) = LASER_MAX_DEVICES" using registry_okD(1) [OF s] .
  have at: "g_entries s' ! j = (if j = i then e else g_entries s ! j)" if "j < LASER_MAX_DEVICES" for j
    using es len that by (simp add: nth_list_update)
  have other: "token (g_entries s ! j) \<noteq> token e"
    if "in_use e" "j < LASER_MAX_DEVICES" "j \<noteq> i" "in_use (g_entries s ! j)" for j
  proof
    assume t: "token (g_entries s ! j) = token e"
    then have j: "laser_lookup (token e) s = Some j" using lookup_iff [OF s, of "token e" j] that by simp
    with e [OF that(1)] have "in_use (g_entries s ! i)" "token (g_entries s ! i) = token e" by auto
    then have "laser_lookup (token e) s = Some i" using lookup_iff [OF s, of "token e" i] i by simp
    with j that(3) show False by simp
  qed
  show ?thesis unfolding registry_ok_def
  proof (intro conjI allI impI)
    show "length (g_entries s') = LASER_MAX_DEVICES" using es len by simp
  next
    fix j assume "j < LASER_MAX_DEVICES" "in_use (g_entries s' ! j)"
    with at [of j] e registry_okD(2) [OF s, of j] show "0 < refs (g_entries s' ! j)"
      by (cases "j = i") simp_all
  next
    fix j k assume jk: "j < LASER_MAX_DEVICES" "k < LASER_MAX_DEVICES"
      "in_use (g_entries s' ! j) \<and> in_use (g_entries s' ! k) \<and> token (g_entries s' ! j) = token (g_entries s' ! k)"
    show "j = k"
    proof (cases "j = i \<or> k = i")
      case True
      with jk at [OF jk(1)] at [OF jk(2)] other [of j] other [of k] show ?thesis by (cases "j = k") auto
    next
      case False
      with jk at [OF jk(1)] at [OF jk(2)] lookup_iff [OF s, of "token (g_entries s ! j)" j]
        lookup_iff [OF s, of "token (g_entries s ! j)" k] show ?thesis by simp
    qed
  qed
qed

lemma accounted_update:
  assumes "accounted s" and "i < length (g_entries s)" and es: "g_entries s' = (g_entries s)[i := e]"
    and "trace s' = trace s" and "owned_by e = owned_by (g_entries s ! i)"
  shows "accounted s'"
proof -
  have "owned (g_entries s') = owned (g_entries s)"
    using owned_update [OF assms(2), of e] assms(5) es by simp
  with assms(1,4) show ?thesis unfolding accounted_def by simp
qed

section \<open>Claiming\<close>

lemma fd_still_ours_frame [simp]:
  "ent (snd (fd_still_ours h fd d)) = ent d" "trace (snd (fd_still_ours h fd d)) = trace d"
  by (simp_all add: fd_still_ours_def case_prod_unfold split: option.split)

lemma still_ours_entries:
  "run_on i (fd_still_ours h tk) s = (ours, s1) \<Longrightarrow> g_entries s1 = g_entries s \<and> trace s1 = trace s"
  by (auto simp: run_on_def case_prod_unfold)

lemma add_claim_sel [simp]:
  "trace (add_claim i s) = trace s"
  "g_entries (add_claim i s) = (g_entries s)[i := (g_entries s ! i)\<lparr>refs := refs (g_entries s ! i) + 1\<rparr>]"
  by (simp_all add: add_claim_def)

lemma lookup_fresh:
  assumes "laser_lookup tk s = None" and len: "length (g_entries s) = LASER_MAX_DEVICES"
    and "i < LASER_MAX_DEVICES" and es: "g_entries s' = (g_entries s)[i := e]"
  shows "laser_lookup tk s' = (if in_use e \<and> token e = tk then Some i else None)"
proof -
  have free: "\<not> (in_use (g_entries s ! j) \<and> token (g_entries s ! j) = tk)" if "j < LASER_MAX_DEVICES" for j
    using assms(1,2) that laser_lookup_None [OF len, of tk] by (auto dest: nth_mem)
  have only: "j = i \<and> in_use e \<and> token e = tk" if "laser_lookup tk s' = Some j" for j
    using laser_lookup_Some [OF that] free [of j] es len by (cases "j = i") auto
  have "laser_lookup tk s' \<noteq> None" if "in_use e \<and> token e = tk"
  proof -
    have "e \<in> set (g_entries s')" using es assms(3) len by (simp add: set_update_memI)
    with that laser_lookup_None [of s' tk] es len show ?thesis by auto
  qed
  with only show ?thesis by (cases "laser_lookup tk s'") auto
qed

text \<open>What an acquire does to the table, by its outcome.\<close>

lemma laser_acquire_cases:
  assumes inv: "registry_inv h s" and run: "laser_acquire h tk s = Some (st, s')"
  obtains (recycled) "st = LASER_ERR_NO_SUCH_TOKEN" and "g_entries s' = g_entries s" and "trace s' = trace s"
  | (another) i where "st = LASER_OK" and "laser_lookup tk s = Some i" and "trace s' = trace s"
      and "g_entries s' = (g_entries s)[i := (g_entries s ! i)\<lparr>refs := refs (g_entries s ! i) + 1\<rparr>]"
  | (failed) i where "st = LASER_ERR_NO_SUCH_TOKEN" and "i < LASER_MAX_DEVICES"
      and "\<not> in_use (g_entries s ! i)" and "acquired s s' {#}"
      and "g_entries s' = (g_entries s)[i := zero_entry]" and "laser_lookup tk s = None"
  | (first) i e where "st = LASER_OK" and "i < LASER_MAX_DEVICES" and "\<not> in_use (g_entries s ! i)"
      and "acquired s s' (held_at Err_Iface e)" and "g_entries s' = (g_entries s)[i := e]"
      and "in_use e" and "token e = tk" and "refs e = 1" and "\<not> cancelled e" and "\<not> device_gone e"
      and "laser_lookup tk s = None"
      and "max_transfer_bytes e = LASER_MAX_BYTES_PER_TRANSFER"
proof -
  have len: "length (g_entries s) = LASER_MAX_DEVICES" and "unpublished h" "threads_rely h"
    using inv registry_okD(1) unfolding registry_inv_def by blast+
  show thesis
  proof (cases "laser_lookup tk s")
    case (Some i)
    obtain ours s1 where own: "run_on i (fd_still_ours h tk) s = (ours, s1)" by fastforce
    note same = still_ours_entries [OF own]
    show thesis
    proof (cases ours)
      case True
      with Some own run have "st = LASER_OK" "s' = add_claim i s1" by (auto simp: laser_acquire_def)
      with same Some show thesis by (intro another [of i]) simp_all
    next
      case False
      with Some own run same show thesis by (intro recycled) (auto simp: laser_acquire_def)
    qed
  next
    case None
    then obtain ok s1 where reg: "laser_register h tk s = Some (ok, s1)"
      using run by (auto simp: laser_acquire_def split: option.splits)
    from \<open>unpublished h\<close> \<open>threads_rely h\<close> reg len show thesis
    proof (cases rule: laser_register_cases)
      case refused
      with None reg run show thesis by (intro recycled) (auto simp: laser_acquire_def)
    next
      case (failed i)
      have "laser_lookup tk s1 = None"
        using lookup_fresh [OF None len failed(2,5)] by (simp add: zero_entry_def)
      with None reg run failed show thesis by (intro that(3) [of i]) (auto simp: laser_acquire_def)
    next
      case (kept i e)
      have "laser_lookup tk s1 = Some i" using lookup_fresh [OF None len kept(2,5)] kept(6,7) by simp
      with None reg run have s': "st = LASER_OK" "s' = add_claim i s1" by (auto simp: laser_acquire_def)
      have "held_at Err_Iface (e\<lparr>refs := 1\<rparr>) = held_at Err_Iface e" by (simp add: driver_of_def)
      then have "acquired s s' (held_at Err_Iface (e\<lparr>refs := 1\<rparr>))"
        using acquired_same [OF kept(4), of s'] s'(2) by simp
      moreover have "g_entries s' = (g_entries s)[i := e\<lparr>refs := 1\<rparr>]"
        using kept(2,5,8) s'(2) len by simp
      ultimately show thesis using s' kept None by (intro first [of i "e\<lparr>refs := 1\<rparr>"]) auto
    qed
  qed
qed

section \<open>Releasing\<close>

lemma laser_release_cases:
  assumes inv: "registry_inv h s"
  obtains (unknown) "laser_lookup tk s = None" and "laser_release h tk s = s"
  | (others) i where "laser_lookup tk s = Some i" and "1 < refs (g_entries s ! i)"
      and "trace (laser_release h tk s) = trace s"
      and "g_entries (laser_release h tk s) =
        (g_entries s)[i := (g_entries s ! i)\<lparr>refs := refs (g_entries s ! i) - 1\<rparr>]"
  | (last) i d where "laser_lookup tk s = Some i" and "refs (g_entries s ! i) = 1"
      and "trace d = trace s" and "world d = world s"
      and "ent d = (g_entries s ! i)\<lparr>refs := 0, cancelled := True\<rparr>"
      and "trace (laser_release h tk s) = trace (teardown_device h d)"
      and "g_entries (laser_release h tk s) = (g_entries s)[i := zero_entry]"
proof (cases "laser_lookup tk s")
  case None
  then show thesis by (intro unknown) (simp_all add: laser_release_def)
next
  case (Some i)
  note at = laser_lookup_Some [OF Some]
  have pos: "0 < refs (g_entries s ! i)"
    using inv at registry_okD(2) unfolding registry_inv_def by blast
  let ?s1 = "put_dev i (upd_ent (\<lambda>e. e\<lparr>refs := refs e - 1\<rparr>) (dev_of i s)) s"
  let ?s2 = "put_dev i (upd_ent laser_set_cancelled (dev_of i ?s1)) ?s1"
  have step: "laser_release h tk s =
      (if 0 < refs (g_entries s ! i) - 1 then ?s1 else teardown_entry_locked h i ?s2)"
    using Some pos at(1) by (simp add: laser_release_def Let_def)
  show thesis
  proof (cases "1 < refs (g_entries s ! i)")
    case True
    with step Some show thesis by (intro others [of i]) simp_all
  next
    case False
    with pos step Some at(1) show thesis
      by (intro last [of i "dev_of i ?s2"])
        (simp_all add: laser_set_cancelled_def teardown_entry_locked_def release_slot_def)
  qed
qed

lemma resources_give_back:
  "resources [Ev_Release (Res_Interface (handle e) (iface_num e)), Ev_Release (Res_Handle (handle e)),
      Ev_Release (Res_Context (ctx e)), Ev_Release Res_Css_Cv, Ev_Release Res_Css_Mtx,
      Ev_Release Res_Io_Lock] (base_of e + K) = Some K"
  by (simp add: base_of_def)

lemma teardown_gives_back:
  assumes "threads_rely h" and "resources (trace d) {#} = Some (base_of (ent d) + K)"
  shows "resources (trace (teardown_device h d)) {#} = Some K"
proof -
  obtain evs where tr: "trace (teardown_device h d) = trace d @ evs @
      [Ev_Release (Res_Interface (handle (ent d)) (iface_num (ent d))), Ev_Release (Res_Handle (handle (ent d))),
       Ev_Release (Res_Context (ctx (ent d))), Ev_Release Res_Css_Cv, Ev_Release Res_Css_Mtx,
       Ev_Release Res_Io_Lock]" and rr: "evs = [] \<or> is_reset_recovery (ent (lock_io h d)) evs"
    using teardown_trace [OF assms(1), of d] by blast
  have "handle (ent (lock_io h d)) = handle (ent d)"
    using assms(1) by (simp add: threads_rely_def entry_rely_def lock_io_def case_prod_unfold)
  then have "quiet (\<lambda>hn. hn = handle (ent d)) evs" using rr reset_recovery_quiet by fastforce
  then have "resources evs (base_of (ent d) + K) = Some (base_of (ent d) + K)"
    by (rule resources_quiet) (auto simp: usable_def base_of_def)
  with tr show ?thesis
    using assms(2) resources_give_back [of "ent d" K] by (simp add: resources_append del: resources.simps)
qed

section \<open>Both keep the invariant and count\<close>

lemma acquire_keeps:
  assumes inv: "registry_inv h s" and run: "laser_acquire h tk s = Some (st, s')"
  shows "registry_inv h s'"
    and "claims s' = (if st = LASER_OK then (claims s)(tk := claims s tk + 1) else claims s)"
proof -
  have ok: "registry_ok s" and acc: "accounted s" and env: "unpublished h" "threads_rely h"
    using inv unfolding registry_inv_def by blast+
  note len = registry_okD(1) [OF ok]
  have "registry_ok s' \<and> accounted s' \<and>
    claims s' = (if st = LASER_OK then (claims s)(tk := claims s tk + 1) else claims s)"
    using inv run
  proof (cases rule: laser_acquire_cases)
    case recycled
    then have "laser_lookup k s' = laser_lookup k s" for k by (simp add: laser_lookup_def)
    with recycled(2,3) have "registry_ok s' = registry_ok s" "accounted s' = accounted s"
      "claims s' k = claims s k" for k
      by (simp_all add: registry_ok_def accounted_def claims_def cong: option.case_cong)
    with recycled(1) ok acc show ?thesis by auto
  next
    case (another i)
    note at = laser_lookup_Some [OF another(2)]
    let ?e = "(g_entries s ! i)\<lparr>refs := refs (g_entries s ! i) + 1\<rparr>"
    have pos: "0 < refs (g_entries s ! i)" using registry_okD(2) [OF ok at(2,3)] .
    have ok': "registry_ok s'"
      using registry_ok_update [OF ok at(2) another(4)] at pos by simp
    have "accounted s'"
      by (rule accounted_update [OF acc at(1) another(4) another(3)]) (simp add: owned_by_def base_of_def)
    moreover have "claims s' k = ((claims s)(tk := claims s tk + 1)) k" for k
      using claims_update [OF ok ok' at(2) another(4), of k] another(2) at pos
      by (simp add: claims_def nat_add_distrib)
    ultimately show ?thesis using another(1) ok' by auto
  next
    case (failed i)
    have ok': "registry_ok s'"
      using registry_ok_update [OF ok failed(2,5)] by (simp add: zero_entry_def)
    have "owned (g_entries s') = owned (g_entries s)"
      using owned_update [of i "g_entries s" zero_entry] failed(2,3,5) len
      by (simp add: owned_by_def zero_entry_def)
    with acc acquired_resources [OF failed(4)] have "accounted s'"
      unfolding accounted_def by fastforce
    moreover have "claims s' k = claims s k" for k
      using claims_update [OF ok ok' failed(2,5), of k] failed(3) by (simp add: zero_entry_def)
    ultimately show ?thesis using failed(1) ok' by auto
  next
    case (first i e)
    have ok': "registry_ok s'"
      using registry_ok_update [OF ok first(2,5)] first by simp
    have own: "owned (g_entries s') = owned (g_entries s) + base_of e"
      using owned_update [of i "g_entries s" e] first(2,3,5,6) len by (simp add: owned_by_def)
    obtain K where K: "resources (trace s) {#} = Some (owned (g_entries s) + K)"
      "\<forall>r \<in># K. \<exists>hn n. r = Res_Kernel_Driver hn n"
      using acc unfolding accounted_def by blast
    have "resources (trace s') {#} = Some (owned (g_entries s') + (K + driver_of e))"
      using acquired_resources [OF first(4) K(1)] own by (simp add: held_iface ac_simps del: held_at.simps)
    moreover have "\<forall>r \<in># K + driver_of e. \<exists>hn n. r = Res_Kernel_Driver hn n"
      using K(2) driver_of_drivers by auto
    ultimately have "accounted s'" unfolding accounted_def by blast
    moreover have "claims s' k = ((claims s)(tk := claims s tk + 1)) k" for k
      using claims_update [OF ok ok' first(2,5), of k] first by (simp add: claims_def)
    ultimately show ?thesis using first(1) ok' by auto
  qed
  with env show "registry_inv h s'"
    and "claims s' = (if st = LASER_OK then (claims s)(tk := claims s tk + 1) else claims s)"
    unfolding registry_inv_def by blast+
qed

lemma release_keeps:
  assumes inv: "registry_inv h s"
  shows "registry_inv h (laser_release h tk s)"
    and "claims (laser_release h tk s) = (claims s)(tk := claims s tk - 1)"
proof -
  have ok: "registry_ok s" and acc: "accounted s" and env: "unpublished h" "threads_rely h"
    using inv unfolding registry_inv_def by blast+
  note len = registry_okD(1) [OF ok]
  let ?s = "laser_release h tk s"
  have "registry_ok ?s \<and> accounted ?s \<and> claims ?s = (claims s)(tk := claims s tk - 1)"
    using inv
  proof (cases rule: laser_release_cases [where tk = tk])
    case unknown
    with ok acc show ?thesis by (auto simp: claims_def)
  next
    case (others i)
    note at = laser_lookup_Some [OF others(1)]
    have ok': "registry_ok ?s"
      using registry_ok_update [OF ok at(2) others(4)] at others(2) by simp
    have "accounted ?s"
      by (rule accounted_update [OF acc at(1) others(4) others(3)]) (simp add: owned_by_def base_of_def)
    moreover have "claims ?s k = ((claims s)(tk := claims s tk - 1)) k" for k
      using claims_update [OF ok ok' at(2) others(4), of k] others(1,2) at
      by (simp add: claims_def nat_diff_distrib)
    ultimately show ?thesis using ok' by auto
  next
    case (last i d)
    note at = laser_lookup_Some [OF last(1)]
    have ok': "registry_ok ?s"
      using registry_ok_update [OF ok at(2) last(7)] by (simp add: zero_entry_def)
    obtain K where K: "resources (trace s) {#} = Some (owned (g_entries s) + K)"
      "\<forall>r \<in># K. \<exists>hn n. r = Res_Kernel_Driver hn n"
      using acc unfolding accounted_def by blast
    have own: "owned (g_entries ?s) + base_of (ent d) = owned (g_entries s)"
      using owned_update [OF at(1), of zero_entry] last(5,7) at(3)
      by (simp add: owned_by_def zero_entry_def base_of_def)
    have "resources (trace d) {#} = Some (base_of (ent d) + (owned (g_entries ?s) + K))"
      using K(1) last(3) own by (simp add: ac_simps flip: own)
    from teardown_gives_back [OF env(2) this] last(6) K(2) have "accounted ?s"
      unfolding accounted_def by auto
    moreover have "claims ?s k = ((claims s)(tk := claims s tk - 1)) k" for k
      using claims_update [OF ok ok' at(2) last(7), of k] last(1,2) at
      by (simp add: claims_def zero_entry_def)
    ultimately show ?thesis using ok' by auto
  qed
  with env show "registry_inv h ?s" and "claims ?s = (claims s)(tk := claims s tk - 1)"
    unfolding registry_inv_def by blast+
qed

definition try_acquire :: "'w host \<Rightarrow> int \<Rightarrow> 'w sys \<Rightarrow> (bool \<times> 'w sys) option" where
  "try_acquire h tk s = map_option (\<lambda>(st, s'). (st = LASER_OK, s')) (laser_acquire h tk s)"

interpretation table: claim_registry "registry_inv h" claims "try_acquire h" "laser_release h" for h
proof
  fix s s' k b
  assume "registry_inv h s" "try_acquire h k s = Some (b, s')"
  then obtain st where "laser_acquire h k s = Some (st, s')" "b = (st = LASER_OK)" "registry_inv h s"
    by (auto simp: try_acquire_def)
  with acquire_keeps [of h s k st s'] show "registry_inv h s'"
    and "claims s' = (if b then (claims s)(k := claims s k + 1) else claims s)" by simp_all
qed (rule release_keeps, assumption)+

section \<open>Acquiring returns\<close>

lemma laser_acquire_returns:
  assumes "clock_monotonic h now_ns"
  shows "\<exists>st s'. laser_acquire h tk s = Some (st, s')"
proof -
  obtain w where "laser_wait_until_ready (laser_bot_send_locked h) h = (\<lambda>x. Some (w x))"
    using bot.wait_until_ready_total [OF assms] by blast
  then have prep: "\<exists>err d'. prepare_drive (laser_bot_send_locked h) h d = Some (err, d')" for d
    by (simp add: prepare_drive_def case_prod_unfold Let_def)
  have dev: "\<exists>err d'. register_device (laser_bot_send_locked h) h tk d = Some (err, d')" for d
    using prep by (simp add: register_device_def split: prod.split option.split)
  have "\<exists>ok s1. laser_register h tk s = Some (ok, s1)"
  proof (cases "reserve_slot tk s")
    case (Pair slot s1)
    show ?thesis
    proof (cases slot)
      case None
      with Pair show ?thesis by (auto simp: laser_register_def)
    next
      case (Some i)
      obtain err d' where "register_device (laser_bot_send_locked h) h tk (dev_of i s1) = Some (err, d')"
        using dev by blast
      with Pair Some show ?thesis by (cases err) (auto simp: laser_register_def)
    qed
  qed
  then obtain ok s1 where "laser_register h tk s = Some (ok, s1)" by blast
  then show ?thesis by (simp add: laser_acquire_def case_prod_unfold split: option.split)
qed

lemma run_history_returns:
  assumes "clock_monotonic h now_ns"
  shows "\<exists>outcomes s'. run_history (try_acquire h) (laser_release h) ops s = Some (outcomes, s')"
proof (induction ops arbitrary: s)
  case (Cons op ops)
  show ?case
  proof (cases op)
    case (Acquire k)
    obtain st s1 where "laser_acquire h k s = Some (st, s1)"
      using laser_acquire_returns [OF assms] by blast
    then have "try_acquire h k s = Some (st = LASER_OK, s1)" by (simp add: try_acquire_def)
    moreover obtain outcomes s' where "run_history (try_acquire h) (laser_release h) ops s1 = Some (outcomes, s')"
      using Cons.IH by blast
    ultimately show ?thesis using Acquire by simp
  next
    case (Release k)
    obtain outcomes s' where
      "run_history (try_acquire h) (laser_release h) ops (laser_release h k s) = Some (outcomes, s')"
      using Cons.IH by blast
    with Release show ?thesis by simp
  qed
qed simp

section \<open>The properties\<close>

definition empty_table :: "'w \<Rightarrow> 'w sys" where
  "empty_table w = \<lparr>world = w, trace = [], g_entries = replicate LASER_MAX_DEVICES zero_entry\<rparr>"

lemma owned_free: "(\<And>e. e \<in> set es \<Longrightarrow> \<not> in_use e) \<Longrightarrow> owned es = {#}"
  by (induction es) (simp_all add: owned_by_def)

lemma empty_table_inv:
  assumes "unpublished h" and "threads_rely h"
  shows "registry_inv h (empty_table w)" and "claims (empty_table w) = (\<lambda>_. 0)"
proof -
  have free: "\<not> in_use (g_entries (empty_table w) ! i)" if "i < LASER_MAX_DEVICES" for i
    using that by (simp add: empty_table_def zero_entry_def)
  have len: "length (g_entries (empty_table w)) = LASER_MAX_DEVICES" by (simp add: empty_table_def)
  have "registry_ok (empty_table w)" using free len unfolding registry_ok_def by blast
  moreover have "owned (g_entries (empty_table w)) = {#}"
    by (rule owned_free) (auto simp: empty_table_def zero_entry_def)
  then have "accounted (empty_table w)"
    unfolding accounted_def by (intro exI [of _ "{#}"]) (simp add: empty_table_def)
  ultimately show "registry_inv h (empty_table w)" using assms by (simp add: registry_inv_def)
  have "laser_lookup tk (empty_table w) = None" for tk
    by (rule ccontr) (use free laser_lookup_Some in blast)
  then show "claims (empty_table w) = (\<lambda>_. 0)" by (simp add: claims_def fun_eq_iff)
qed

text \<open>Whatever clients acquire and release, and however often registration fails, the registry
  counts claims: a token is registered while its successful acquires outnumber its releases, and
  its entry's count is the difference.\<close>

lemma registry_counts_claims:
  assumes "unpublished h" and "threads_rely h" and "clock_monotonic h now_ns"
  shows "\<exists>outcomes s'. run_history (try_acquire h) (laser_release h) ops (empty_table w) = Some (outcomes, s') \<and>
    (\<forall>tk. claims s' tk = count_claims outcomes (\<lambda>_. 0) tk)"
proof -
  obtain outcomes s' where
    run: "run_history (try_acquire h) (laser_release h) ops (empty_table w) = Some (outcomes, s')"
    using run_history_returns [OF assms(3)] by blast
  then show ?thesis
    using table.history_refines [OF empty_table_inv(1) [OF assms(1,2)] run]
      empty_table_inv(2) [OF assms(1,2)] by simp
qed

lemma registry_counts_claims_witness:
  "\<exists>outcomes s'. run_history (try_acquire sim_host) (laser_release sim_host)
      [Acquire 42, Acquire 42, Release 42, Acquire 43] (empty_table (sim_world [])) = Some (outcomes, s') \<and>
    (\<forall>tk. claims s' tk = count_claims outcomes (\<lambda>_. 0) tk)"
  by (rule registry_counts_claims [OF sim_unpublished sim_threads_rely sim_clock_monotonic])

text \<open>Every reachable table is well formed (no claimed entry without claims, no token twice), and
  accounts for every lock, context, handle and interface: what was set up and not given back
  belongs to a registered entry, and nothing was given back twice.\<close>

lemma registry_accounts_for_resources:
  assumes "unpublished h" and "threads_rely h"
    and "run_history (try_acquire h) (laser_release h) ops (empty_table w) = Some (outcomes, s')"
  shows "registry_ok s' \<and> accounted s'"
  using table.history_keeps [OF empty_table_inv(1) [OF assms(1,2)] assms(3)]
  by (simp add: registry_inv_def)

lemma registry_accounts_for_resources_witness:
  "\<exists>outcomes s'. run_history (try_acquire sim_host) (laser_release sim_host)
      [Acquire 42, Acquire 43, Release 42] (empty_table (sim_world [Answer (replicate 36 5) 0])) =
      Some (outcomes, s') \<and> registry_ok s' \<and> accounted s'"
proof -
  obtain outcomes s' where "run_history (try_acquire sim_host) (laser_release sim_host)
      [Acquire 42, Acquire 43, Release 42] (empty_table (sim_world [Answer (replicate 36 5) 0])) =
      Some (outcomes, s')"
    using run_history_returns [OF sim_clock_monotonic] by blast
  with registry_accounts_for_resources [OF sim_unpublished sim_threads_rely this] show ?thesis by blast
qed

text \<open>C18: an acquire that fails leaves nothing behind: every resource it set up is given back, and
  every registered entry is as it was.\<close>

theorem failed_acquire_leaves_nothing:
  assumes "unpublished h" and "threads_rely h" and "registry_ok s" and "accounted s"
    and "laser_acquire h tk s = Some (st, s')" and "st \<noteq> LASER_OK"
  shows "st = LASER_ERR_NO_SUCH_TOKEN \<and> resources (trace s') {#} = resources (trace s) {#} \<and>
    (\<forall>i < LASER_MAX_DEVICES. in_use (g_entries s ! i) \<or> in_use (g_entries s' ! i) \<longrightarrow>
       g_entries s' ! i = g_entries s ! i)"
proof -
  have inv: "registry_inv h s" using assms(1-4) by (simp add: registry_inv_def)
  obtain K where K: "resources (trace s) {#} = Some K" using assms(4) by (auto simp: accounted_def)
  from inv assms(5) show ?thesis
  proof (cases rule: laser_acquire_cases)
    case recycled
    then show ?thesis by simp
  next
    case (failed i)
    have "resources (trace s') {#} = Some K" using acquired_resources [OF failed(4) K] by simp
    moreover have "g_entries s' ! j = g_entries s ! j"
      if "in_use (g_entries s ! j) \<or> in_use (g_entries s' ! j)" for j
      using that failed(2,3,5) registry_okD(1) [OF assms(3)]
      by (cases "j = i") (auto simp: zero_entry_def)
    ultimately show ?thesis using failed(1) K by simp
  qed (use assms(6) in simp_all)
qed

text \<open>A table with the sample drive registered, and what registering it left in the trace.\<close>

definition claimed_sys :: "answer list \<Rightarrow> sim sys" where
  "claimed_sys script = (sim_sys sim_entry script)\<lparr>trace :=
     [Ev_Acquire Res_Io_Lock, Ev_Acquire Res_Css_Mtx, Ev_Acquire Res_Css_Cv, Ev_Acquire (Res_Context 1),
      Ev_Acquire (Res_Handle 7), Ev_Acquire (Res_Interface 7 1)]\<rparr>"

lemma claimed_sys_inv: "registry_inv sim_host (claimed_sys script)"
proof -
  have es: "g_entries (claimed_sys script) = sim_entry # replicate 7 zero_entry"
    by (simp add: claimed_sys_def sim_sys_def)
  have free: "\<not> in_use (g_entries (claimed_sys script) ! i)" if "0 < i" "i < LASER_MAX_DEVICES" for i
    using that by (simp add: es nth_Cons' zero_entry_def)
  have "registry_ok (claimed_sys script)"
    unfolding registry_ok_def
  proof (intro conjI allI impI)
    fix i assume "i < LASER_MAX_DEVICES" "in_use (g_entries (claimed_sys script) ! i)"
    with free have "i = 0" by blast
    then show "0 < refs (g_entries (claimed_sys script) ! i)" by (simp add: es sim_entry_def)
  next
    fix i j assume "i < LASER_MAX_DEVICES" "j < LASER_MAX_DEVICES"
      "in_use (g_entries (claimed_sys script) ! i) \<and> in_use (g_entries (claimed_sys script) ! j) \<and>
       token (g_entries (claimed_sys script) ! i) = token (g_entries (claimed_sys script) ! j)"
    with free have "i = 0" "j = 0" by blast+
    then show "i = j" by simp
  qed (simp add: es)
  moreover have "owned (g_entries (claimed_sys script)) = base_of sim_entry"
    using owned_free [of "replicate 7 zero_entry"] by (simp add: es owned_by_def sim_entry_def zero_entry_def)
  then have "accounted (claimed_sys script)"
    unfolding accounted_def
    by (intro exI [of _ "{#}"]) (simp add: claimed_sys_def base_of_def sim_entry_def)
  ultimately show ?thesis using sim_unpublished sim_threads_rely by (simp add: registry_inv_def)
qed

text \<open>A host on which no libusb context can be had.\<close>

definition poor_host :: "sim host" where
  "poor_host = sim_host\<lparr>libusb_init_context := (\<lambda>w. ((LIBUSB_ERROR_NO_MEM, 0), w))\<rparr>"

theorem failed_acquire_leaves_nothing_witness:
  "\<exists>st s'. laser_acquire poor_host 43 (claimed_sys []) = Some (st, s') \<and>
    st = LASER_ERR_NO_SUCH_TOKEN \<and>
    resources (trace s') {#} = resources (trace (claimed_sys [])) {#} \<and>
    (\<forall>i < LASER_MAX_DEVICES. in_use (g_entries (claimed_sys []) ! i) \<or> in_use (g_entries s' ! i) \<longrightarrow>
       g_entries s' ! i = g_entries (claimed_sys []) ! i)"
proof -
  have env: "unpublished poor_host" "threads_rely poor_host"
    using sim_unpublished sim_threads_rely
    by (simp_all add: poor_host_def unpublished_def threads_rely_def)
  have inv: "registry_ok (claimed_sys [])" "accounted (claimed_sys [])"
    using claimed_sys_inv unfolding registry_inv_def by blast+
  have "case laser_acquire poor_host 43 (claimed_sys []) of None \<Rightarrow> False | Some (st, s') \<Rightarrow> st \<noteq> LASER_OK"
    by code_simp
  then obtain st s' where run: "laser_acquire poor_host 43 (claimed_sys []) = Some (st, s')" "st \<noteq> LASER_OK"
    by (auto split: option.splits)
  from run(1) failed_acquire_leaves_nothing [OF env inv run] show ?thesis by blast
qed

text \<open>C22: the release of the last claim resets the drive unless it has left, then gives back
  interface, handle, context and the three locks, each once and in this order, and frees the slot.\<close>

theorem last_release_tears_down:
  assumes "threads_rely h" and "length (g_entries s) = LASER_MAX_DEVICES"
    and "laser_lookup tk s = Some i" and "refs (g_entries s ! i) = 1"
  shows "\<exists>evs. trace (laser_release h tk s) = trace s @ evs @
      [Ev_Release (Res_Interface (handle (g_entries s ! i)) (iface_num (g_entries s ! i))),
       Ev_Release (Res_Handle (handle (g_entries s ! i))), Ev_Release (Res_Context (ctx (g_entries s ! i))),
       Ev_Release Res_Css_Cv, Ev_Release Res_Css_Mtx, Ev_Release Res_Io_Lock] \<and>
    (if device_gone (fst (other_threads h ((g_entries s ! i)\<lparr>refs := 0, cancelled := True\<rparr>) (world s)))
     then evs = [] else is_reset_recovery (g_entries s ! i) evs) \<and>
    g_entries (laser_release h tk s) = (g_entries s)[i := zero_entry]"
proof -
  let ?e = "(g_entries s ! i)\<lparr>refs := 0, cancelled := True\<rparr>"
  let ?d = "\<lparr>world = world s, trace = trace s, ent = ?e\<rparr>"
  let ?e1 = "fst (other_threads h ?e (world s))"
  have i: "i < length (g_entries s)" using laser_lookup_Some(1) [OF assms(3)] .
  have tr: "trace (laser_release h tk s) = trace (teardown_device h ?d)"
    "g_entries (laser_release h tk s) = (g_entries s)[i := zero_entry]"
    using assms(3,4) i
    by (simp_all add: laser_release_def Let_def laser_set_cancelled_def teardown_entry_locked_def
        release_slot_def dev_of_def put_dev_def upd_ent_def)
  have lock: "ent (lock_io h ?d) = ?e1" by (simp add: lock_io_def case_prod_unfold)
  have "entry_rely ?e ?e1" using assms(1) by (simp add: threads_rely_def)
  then have same: "is_reset_recovery ?e1 evs = is_reset_recovery (g_entries s ! i) evs" for evs
    by (simp add: is_reset_recovery_iff entry_rely_def)
  from teardown_trace [OF assms(1), of ?d] obtain evs where evs: "trace (teardown_device h ?d) = trace s @ evs @
      [Ev_Release (Res_Interface (handle ?e) (iface_num ?e)), Ev_Release (Res_Handle (handle ?e)),
       Ev_Release (Res_Context (ctx ?e)), Ev_Release Res_Css_Cv, Ev_Release Res_Css_Mtx, Ev_Release Res_Io_Lock]"
    "evs = [] \<or> is_reset_recovery ?e1 evs" "evs = [] \<longleftrightarrow> device_gone ?e1"
    unfolding lock by auto
  then show ?thesis using tr same by (intro exI [of _ evs]) auto
qed

theorem last_release_tears_down_witness:
  "\<exists>evs. trace (laser_release sim_host 42 (claimed_sys [])) = trace (claimed_sys []) @ evs @
      [Ev_Release (Res_Interface 7 1), Ev_Release (Res_Handle 7), Ev_Release (Res_Context 1),
       Ev_Release Res_Css_Cv, Ev_Release Res_Css_Mtx, Ev_Release Res_Io_Lock] \<and>
    is_reset_recovery sim_entry evs \<and>
    g_entries (laser_release sim_host 42 (claimed_sys [])) = replicate 8 zero_entry"
proof -
  have len: "length (g_entries (claimed_sys [])) = LASER_MAX_DEVICES" by code_simp
  have lookup: "laser_lookup 42 (claimed_sys []) = Some 0" by code_simp
  have "refs (g_entries (claimed_sys []) ! 0) = 1" by code_simp
  from last_release_tears_down [OF sim_threads_rely len lookup this] show ?thesis
    by (simp add: claimed_sys_def sim_sys_def sim_entry_def sim_host_def zero_entry_def eval_nat_numeral)
qed

text \<open>C35: a claim on a registered token is refused exactly when the descriptor no longer names the
  device that was registered under it, and a granted one changes nothing but the count.\<close>

theorem acquire_refuses_recycled_descriptor:
  assumes "laser_lookup tk s = Some i"
  shows "\<exists>st s'. laser_acquire h tk s = Some (st, s') \<and> trace s' = trace s \<and>
    (let e = g_entries s ! i;
         ours = (reg_dev e = 0 \<and> reg_ino e = 0 \<or> fst (fstat h tk (world s)) = Some (reg_dev e, reg_ino e))
     in st = (if ours then LASER_OK else LASER_ERR_NO_SUCH_TOKEN) \<and>
        g_entries s' = (if ours then (g_entries s)[i := e\<lparr>refs := refs e + 1\<rparr>] else g_entries s))"
proof -
  obtain ours s1 where own: "run_on i (fd_still_ours h tk) s = (ours, s1)" by fastforce
  have "ours = (reg_dev (g_entries s ! i) = 0 \<and> reg_ino (g_entries s ! i) = 0 \<or>
      fst (fstat h tk (world s)) = Some (reg_dev (g_entries s ! i), reg_ino (g_entries s ! i)))"
    using own by (auto simp: run_on_def fd_still_ours_def do_call_def case_prod_unfold
        split: if_splits option.splits)
  with own still_ours_entries [OF own] assms show ?thesis
    by (simp add: laser_acquire_def Let_def)
qed

theorem acquire_refuses_recycled_descriptor_witness:
  "\<exists>st s'. laser_acquire sim_host 42 (sim_sys (sim_entry\<lparr>reg_dev := 1, reg_ino := 99\<rparr>) []) = Some (st, s') \<and>
    st = LASER_ERR_NO_SUCH_TOKEN \<and>
    g_entries s' = g_entries (sim_sys (sim_entry\<lparr>reg_dev := 1, reg_ino := 99\<rparr>) [])"
proof -
  have "laser_lookup 42 (sim_sys (sim_entry\<lparr>reg_dev := 1, reg_ino := 99\<rparr>) []) = Some 0" by code_simp
  moreover have "fst (fstat sim_host 42 w) = Some (1, 142)" for w by (simp add: sim_host_def)
  ultimately show ?thesis
    using acquire_refuses_recycled_descriptor [of 42 _ 0 sim_host] by (fastforce simp: sim_sys_def Let_def)
qed

end
