(* ===== verification/Css.thy ===== *)
theory Css
  imports Table
begin

text \<open>
  CSS authentication sessions (registry.c): an open session is a flag and a cookie on the entry,
  guarded by \<open>css_mtx\<close>; begin waits on \<open>css_cv\<close> until the flag is down or a deadline has passed.
  The code between two releases of the mutex is one definition, used twice: in the function as a
  caller runs it, with \<open>pthread_cond_timedwait()\<close> a parameter, and in the step relation over
  any number of threads that shows sessions exclude each other.
\<close>

abbreviation LASER_CSS_SESSION_MAX_WAIT_MS :: int where "LASER_CSS_SESSION_MAX_WAIT_MS \<equiv> 10000"

section \<open>The deadline\<close>

text \<open>\<open>ms\<close> is never negative, so C's division and remainder are those of \<open>div\<close> and \<open>mod\<close>.\<close>

definition css_deadline :: "timespec \<Rightarrow> int \<Rightarrow> timespec" where
  "css_deadline ts ms =
     (let s = tv_sec ts + ms div 1000; n = tv_nsec ts + ms mod 1000 * 1000000
      in if 1000000000 \<le> n then \<lparr>tv_sec = s + 1, tv_nsec = n - 1000000000\<rparr>
         else \<lparr>tv_sec = s, tv_nsec = n\<rparr>)"

definition timespec_ns :: "timespec \<Rightarrow> int" where
  "timespec_ns ts = tv_sec ts * 1000000000 + tv_nsec ts"

lemma css_deadline_ns: "timespec_ns (css_deadline ts ms) = timespec_ns ts + ms * 1000000"
proof -
  have "ms div 1000 * 1000 + ms mod 1000 = ms" by simp
  then have "ms div 1000 * 1000000000 + ms mod 1000 * 1000000 = ms * 1000000" by linarith
  then show ?thesis by (simp add: css_deadline_def timespec_ns_def Let_def algebra_simps)
qed

lemma css_deadline_normal:
  assumes "0 \<le> tv_nsec ts" and "tv_nsec ts < 1000000000"
  shows "0 \<le> tv_nsec (css_deadline ts ms)" and "tv_nsec (css_deadline ts ms) < 1000000000"
proof -
  have "0 \<le> ms mod 1000" "ms mod 1000 \<le> 999" by simp_all
  with assms have "tv_nsec ts + ms mod 1000 * 1000000 < 2000000000"
    "0 \<le> tv_nsec ts + ms mod 1000 * 1000000" by linarith+
  then show "0 \<le> tv_nsec (css_deadline ts ms)" and "tv_nsec (css_deadline ts ms) < 1000000000"
    by (simp_all add: css_deadline_def Let_def)
qed

section \<open>Between two releases of the mutex\<close>

text \<open>One pass of the loop in \<open>laser_css_session_begin()\<close>: the session is taken, or the caller
  already holds it, or it has to wait.\<close>

datatype css_pass = Pass_Taken | Pass_Reentrant | Pass_Wait

definition css_try :: "cookie \<Rightarrow> laser_entry \<Rightarrow> css_pass \<times> laser_entry" where
  "css_try owner e =
     (if css_open e then (if css_owner e = Some owner then Pass_Reentrant else Pass_Wait, e)
      else (Pass_Taken, e\<lparr>css_open := True, css_owner := Some owner\<rparr>))"

text \<open>\<open>laser_css_session_end()\<close> under the mutex; \<open>False\<close> is the unbalanced end that is ignored.\<close>

definition css_close :: "cookie option \<Rightarrow> laser_entry \<Rightarrow> bool \<times> laser_entry" where
  "css_close owner e =
     (if \<not> css_open e \<or> css_owner e \<noteq> owner then (False, e)
      else (True, e\<lparr>css_open := False, css_owner := None\<rparr>))"

section \<open>The calls\<close>

text \<open>
  \<open>pthread_cond_timedwait()\<close>: the deadline, the entry as it was when the mutex was given up, and
  whether it timed out with the entry as it is when the mutex is back.
\<close>

type_synonym 'w timed_wait = "timespec \<Rightarrow> laser_entry \<Rightarrow> 'w \<Rightarrow> (bool \<times> laser_entry) \<times> 'w"

partial_function (option) css_wait_loop ::
  "'w timed_wait \<Rightarrow> timespec \<Rightarrow> cookie \<Rightarrow> 'w dev \<Rightarrow> (laser_status \<times> 'w dev) option" where
  "css_wait_loop wait deadline owner d =
     (case css_try owner (ent d) of (pass, e) \<Rightarrow>
        if pass = Pass_Taken then Some (LASER_OK, d\<lparr>ent := e\<rparr>)
        else if pass = Pass_Reentrant then Some (LASER_ERR_INVALID, d)
        else case wait deadline (ent d) (world d) of ((timed_out, e'), w) \<Rightarrow>
          if timed_out then Some (LASER_ERR_IO, d\<lparr>world := w, ent := e'\<rparr>)
          else css_wait_loop wait deadline owner (d\<lparr>world := w, ent := e'\<rparr>))"

declare css_wait_loop.simps [code]

definition laser_css_session_begin ::
  "'w timed_wait \<Rightarrow> 'w host \<Rightarrow> int \<Rightarrow> cookie option \<Rightarrow> 'w sys \<Rightarrow> (laser_status \<times> 'w sys) option" where
  "laser_css_session_begin wait h tk owner s =
     (case owner of
        None \<Rightarrow> Some (LASER_ERR_INVALID, s)
      | Some cookie \<Rightarrow>
          (case laser_lookup tk s of
             None \<Rightarrow> Some (LASER_ERR_NO_SUCH_TOKEN, s)
           | Some i \<Rightarrow>
               (case do_clock h (dev_of i s) of (now, d) \<Rightarrow>
                  map_option (\<lambda>(st, d'). (st, put_dev i d' s))
                    (css_wait_loop wait (css_deadline now LASER_CSS_SESSION_MAX_WAIT_MS) cookie d))))"

definition laser_css_session_end :: "int \<Rightarrow> cookie option \<Rightarrow> 'w sys \<Rightarrow> 'w sys" where
  "laser_css_session_end tk owner s =
     (case laser_lookup tk s of
        None \<Rightarrow> s
      | Some i \<Rightarrow> put_dev i (upd_ent (\<lambda>e. snd (css_close owner e)) (dev_of i s)) s)"

section \<open>One caller's view\<close>

text \<open>
  The documented behaviour of a timed wait: called at or past the deadline it times out, and a
  wakeup before, spurious or not, has taken time.
\<close>

definition wait_until_deadline :: "'w timed_wait \<Rightarrow> ('w \<Rightarrow> int) \<Rightarrow> bool" where
  "wait_until_deadline wait now_ns \<longleftrightarrow>
     (\<forall>dl e w. \<not> fst (fst (wait dl e w)) \<longrightarrow>
        now_ns w < timespec_ns dl \<and> now_ns w < now_ns (snd (wait dl e w)))"

text \<open>What the other holders of the mutex can do to the entry: only the session changes.\<close>

definition same_but_css :: "laser_entry \<Rightarrow> laser_entry \<Rightarrow> bool" where
  "same_but_css e e' \<longleftrightarrow> e' = e\<lparr>css_open := css_open e', css_owner := css_owner e'\<rparr>"

definition wait_keeps :: "'w timed_wait \<Rightarrow> bool" where
  "wait_keeps wait \<longleftrightarrow> (\<forall>dl e w. same_but_css e (snd (fst (wait dl e w))))"

lemma same_but_css_refl: "same_but_css e e"
  by (simp add: same_but_css_def)

lemma same_but_css_trans: "same_but_css a b \<Longrightarrow> same_but_css b c \<Longrightarrow> same_but_css a c"
  unfolding same_but_css_def by (elim ssubst) simp

lemma css_try_cases:
  obtains (taken) "\<not> css_open e"
      and "css_try owner e = (Pass_Taken, e\<lparr>css_open := True, css_owner := Some owner\<rparr>)"
  | (reentrant) "css_open e" and "css_owner e = Some owner" and "css_try owner e = (Pass_Reentrant, e)"
  | (wait) "css_open e" and "css_owner e \<noteq> Some owner" and "css_try owner e = (Pass_Wait, e)"
  by (cases "css_open e"; cases "css_owner e = Some owner") (auto simp: css_try_def)

text \<open>How the loop ends: returning is part of the statement.\<close>

lemma css_wait_loop_result:
  assumes "wait_until_deadline wait now_ns" and "wait_keeps wait"
  shows "\<exists>st d'. css_wait_loop wait dl owner d = Some (st, d') \<and> trace d' = trace d \<and>
    same_but_css (ent d) (ent d') \<and>
    (st = LASER_OK \<and> css_open (ent d') \<and> css_owner (ent d') = Some owner \<or>
     st = LASER_ERR_INVALID \<and> css_open (ent d') \<and> css_owner (ent d') = Some owner \<or>
     st = LASER_ERR_IO \<and> (\<exists>e w. css_open e \<and> css_owner e \<noteq> Some owner \<and>
       wait dl e w = ((True, ent d'), world d')))"
proof (induction "nat (timespec_ns dl - now_ns (world d))" arbitrary: d rule: less_induct)
  case less
  show ?case
  proof (cases rule: css_try_cases [of "ent d" owner])
    case taken
    have "same_but_css (ent d) ((ent d)\<lparr>css_open := True, css_owner := Some owner\<rparr>)"
      by (simp add: same_but_css_def)
    with taken show ?thesis
      by (subst css_wait_loop.simps) simp
  next
    case reentrant
    then show ?thesis by (subst css_wait_loop.simps) (simp add: same_but_css_refl)
  next
    case wait
    obtain b e' w' where w: "wait dl (ent d) (world d) = ((b, e'), w')" by (rule reply2_exhaust)
    have kept: "same_but_css (ent d) e'"
      using assms(2) w unfolding wait_keeps_def by (metis fst_conv snd_conv)
    let ?d = "d\<lparr>world := w', ent := e'\<rparr>"
    show ?thesis
    proof (cases b)
      case True
      with wait w kept show ?thesis by (subst css_wait_loop.simps) auto
    next
      case False
      then have "now_ns (world d) < timespec_ns dl" "now_ns (world d) < now_ns w'"
        using assms(1) w unfolding wait_until_deadline_def by (metis fst_conv snd_conv)+
      then have "nat (timespec_ns dl - now_ns (world ?d)) < nat (timespec_ns dl - now_ns (world d))"
        by simp
      from less [OF this] obtain st d' where next_pass: "css_wait_loop wait dl owner ?d = Some (st, d')"
        "trace d' = trace ?d" "same_but_css e' (ent d')"
        "st = LASER_OK \<and> css_open (ent d') \<and> css_owner (ent d') = Some owner \<or>
         st = LASER_ERR_INVALID \<and> css_open (ent d') \<and> css_owner (ent d') = Some owner \<or>
         st = LASER_ERR_IO \<and> (\<exists>e w. css_open e \<and> css_owner e \<noteq> Some owner \<and>
           wait dl e w = ((True, ent d'), world d'))"
        by auto
      have "css_wait_loop wait dl owner d = Some (st, d')"
        using wait(3) w False next_pass(1) by (subst css_wait_loop.simps) simp
      with next_pass(2-4) same_but_css_trans [OF kept next_pass(3)] show ?thesis by auto
    qed
  qed
qed

section \<open>Any number of threads\<close>

text \<open>
  The entry and the threads waiting in a begin on it. A step is what one thread does while it has
  the mutex: the first pass of a begin, a pass after a wakeup - signalled or spurious - giving up
  at the deadline, or an end.
\<close>

record css_state =
  session :: laser_entry
  waiting :: "(nat \<times> cookie) list"

datatype css_event =
    Css_Begun cookie
  | Css_Refused cookie laser_status
  | Css_Waits cookie
  | Css_Ended cookie
  | Css_End_Ignored "cookie option"

fun css_outcome :: "cookie \<Rightarrow> css_pass \<Rightarrow> css_event" where
  "css_outcome owner Pass_Taken = Css_Begun owner"
| "css_outcome owner Pass_Reentrant = Css_Refused owner LASER_ERR_INVALID"
| "css_outcome owner Pass_Wait = Css_Waits owner"

inductive css_step :: "css_state \<Rightarrow> css_event \<Rightarrow> css_state \<Rightarrow> bool" where
  Begin: "css_try owner (session s) = (pass, e) \<Longrightarrow> \<forall>o'. (t, o') \<notin> set (waiting s) \<Longrightarrow>
    css_step s (css_outcome owner pass)
      (s\<lparr>session := e, waiting := (if pass = Pass_Wait then (t, owner) # waiting s else waiting s)\<rparr>)"
| Wake: "(t, owner) \<in> set (waiting s) \<Longrightarrow> css_try owner (session s) = (pass, e) \<Longrightarrow>
    css_step s (css_outcome owner pass)
      (s\<lparr>session := e,
         waiting := (if pass = Pass_Wait then waiting s else removeAll (t, owner) (waiting s))\<rparr>)"
| Time_Out: "(t, owner) \<in> set (waiting s) \<Longrightarrow>
    css_step s (Css_Refused owner LASER_ERR_IO) (s\<lparr>waiting := removeAll (t, owner) (waiting s)\<rparr>)"
| End: "css_close (Some owner) (session s) = (True, e) \<Longrightarrow>
    css_step s (Css_Ended owner) (s\<lparr>session := e\<rparr>)"
| End_Ignored: "css_close cookie (session s) = (False, e) \<Longrightarrow>
    css_step s (Css_End_Ignored cookie) (s\<lparr>session := e\<rparr>)"

inductive_cases css_stepE: "css_step s ev s'"

section \<open>The contract\<close>

text \<open>
  A lock with an owner. \<open>None\<close> outside is a violation - a second session beside an open one, or
  the end of one that is not open.
\<close>

fun lock_spec :: "cookie option \<Rightarrow> css_event list \<Rightarrow> cookie option option" where
  "lock_spec held [] = Some held"
| "lock_spec held (Css_Begun c # evs) = (if held = None then lock_spec (Some c) evs else None)"
| "lock_spec held (Css_Ended c # evs) = (if held = Some c then lock_spec None evs else None)"
| "lock_spec held (_ # evs) = lock_spec held evs"

lemma lock_spec_append: "lock_spec held (xs @ ys) = Option.bind (lock_spec held xs) (\<lambda>m. lock_spec m ys)"
  by (induction held xs rule: lock_spec.induct) simp_all

lemma lock_spec_kept: "lock_spec (Some c) evs = Some m \<Longrightarrow> Css_Ended c \<notin> set evs \<Longrightarrow> m = Some c"
  by (induction "Some c" evs rule: lock_spec.induct) (auto split: if_splits)

lemma lock_spec_between:
  assumes "lock_spec held (xs @ Css_Begun c # ys @ Css_Begun c' # zs) \<noteq> None"
  shows "Css_Ended c \<in> set ys"
proof (rule ccontr)
  assume "Css_Ended c \<notin> set ys"
  moreover obtain m where "lock_spec (Some c) ys = Some m" "lock_spec m (Css_Begun c' # zs) \<noteq> None"
    using assms by (auto simp: lock_spec_append bind_eq_Some_conv split: if_splits)
  ultimately show False using lock_spec_kept [of c ys m] by simp
qed

text \<open>What a system keeps whose every step is one of the lock.\<close>

locale owned_lock =
  fixes step :: "'s \<Rightarrow> css_event \<Rightarrow> 's \<Rightarrow> bool" and ok :: "'s \<Rightarrow> bool" and holder :: "'s \<Rightarrow> cookie option"
  assumes step_refines:
    "step s ev s' \<Longrightarrow> ok s \<Longrightarrow> ok s' \<and> lock_spec (holder s) [ev] = Some (holder s')"
begin

lemma run_refines:
  "labelled_run step s evs s' \<Longrightarrow> ok s \<Longrightarrow> ok s' \<and> lock_spec (holder s) evs = Some (holder s')"
proof (induction rule: labelled_run.induct)
  case (Step s evs s' ev s'')
  then show ?case using step_refines [of s' ev s''] by (simp add: lock_spec_append)
qed simp

lemma one_at_a_time:
  assumes "labelled_run step s (xs @ Css_Begun c # ys @ Css_Begun c' # zs) s'" and "ok s"
  shows "Css_Ended c \<in> set ys"
  using run_refines [OF assms] by (intro lock_spec_between) auto

end

section \<open>The code keeps it\<close>

definition css_holder :: "laser_entry \<Rightarrow> cookie option" where
  "css_holder e = (if css_open e then css_owner e else None)"

definition css_ok :: "laser_entry \<Rightarrow> bool" where
  "css_ok e \<longleftrightarrow> css_open e = (css_owner e \<noteq> None)"

lemma css_try_refines:
  assumes "css_try owner e = (pass, e')" and "css_ok e"
  shows "css_ok e' \<and> lock_spec (css_holder e) [css_outcome owner pass] = Some (css_holder e')"
  using assms by (cases rule: css_try_cases [of e owner]) (auto simp: css_ok_def css_holder_def)

lemma css_close_refines:
  assumes "css_close owner e = (ended, e')" and "css_ok e"
  shows "css_ok e' \<and> (if ended then css_holder e = owner \<and> css_holder e' = None else e' = e)"
  using assms by (auto simp: css_close_def css_ok_def css_holder_def split: if_splits)

interpretation css: owned_lock css_step "\<lambda>s. css_ok (session s)" "\<lambda>s. css_holder (session s)"
proof
  fix s ev s'
  assume "css_step s ev s'" "css_ok (session s)"
  then show "css_ok (session s') \<and> lock_spec (css_holder (session s)) [ev] = Some (css_holder (session s'))"
  proof (elim css_stepE)
    fix cookie e
    assume "css_close cookie (session s) = (False, e)" "ev = Css_End_Ignored cookie" "s' = s\<lparr>session := e\<rparr>"
      and "css_ok (session s)"
    then show ?thesis using css_close_refines by fastforce
  next
    fix owner e
    assume "css_close (Some owner) (session s) = (True, e)" "ev = Css_Ended owner" "s' = s\<lparr>session := e\<rparr>"
      and "css_ok (session s)"
    then show ?thesis using css_close_refines by fastforce
  qed (simp_all add: css_try_refines)
qed

end
