(* ===== verification/Css_Props.thy ===== *)
theory Css_Props
  imports Css Sample_Runs
begin

text \<open>The properties of CSS sessions.\<close>

text \<open>C10: CSS sessions exclude each other: whatever threads begin, wait, wake up without cause, give
  up and end, in any order, the sessions of an entry are those of a lock with an owner - ended
  only under the cookie that began them, and one ended before the next begins.\<close>

theorem css_sessions_exclude:
  assumes "labelled_run css_step \<lparr>session = zero_entry, waiting = []\<rparr> evs s"
  shows "lock_spec None evs = Some (css_holder (session s)) \<and> css_ok (session s) \<and>
    (\<forall>xs c ys c' zs. evs = xs @ Css_Begun c # ys @ Css_Begun c' # zs \<longrightarrow> Css_Ended c \<in> set ys)"
proof -
  have start: "css_ok (session \<lparr>session = zero_entry, waiting = []\<rparr>)"
    "css_holder (session \<lparr>session = zero_entry, waiting = []\<rparr>) = None"
    by (simp_all add: css_ok_def css_holder_def zero_entry_def)
  from css.run_refines [OF assms start(1)] css.one_at_a_time [OF _ start(1)] assms start(2)
  show ?thesis by (simp only: simp_thms) blast
qed

text \<open>Two consumers: the second waits, wakes up too early, and gets the session after the end.\<close>

theorem css_sessions_exclude_witness:
  "\<exists>s. labelled_run css_step \<lparr>session = zero_entry, waiting = []\<rparr>
      [Css_Begun 1, Css_Waits 2, Css_Waits 2, Css_End_Ignored (Some 2), Css_Ended 1, Css_Begun 2] s \<and>
    lock_spec None [Css_Begun 1, Css_Waits 2, Css_Waits 2, Css_End_Ignored (Some 2), Css_Ended 1,
      Css_Begun 2] = Some (css_holder (session s)) \<and> css_ok (session s)"
proof -
  let ?one = "zero_entry\<lparr>css_open := True, css_owner := Some 1\<rparr>"
  let ?two = "zero_entry\<lparr>css_open := True, css_owner := Some 2\<rparr>"
  note defs = css_try_def css_close_def zero_entry_def
  have 1: "css_step \<lparr>session = zero_entry, waiting = []\<rparr> (Css_Begun 1) \<lparr>session = ?one, waiting = []\<rparr>"
    using css_step.Begin [of 1 "\<lparr>session = zero_entry, waiting = []\<rparr>" Pass_Taken ?one 10] by (simp add: defs)
  have 2: "css_step \<lparr>session = ?one, waiting = []\<rparr> (Css_Waits 2) \<lparr>session = ?one, waiting = [(20, 2)]\<rparr>"
    using css_step.Begin [of 2 "\<lparr>session = ?one, waiting = []\<rparr>" Pass_Wait ?one 20] by (simp add: defs)
  have 3: "css_step \<lparr>session = ?one, waiting = [(20, 2)]\<rparr> (Css_Waits 2) \<lparr>session = ?one, waiting = [(20, 2)]\<rparr>"
    using css_step.Wake [of 20 2 "\<lparr>session = ?one, waiting = [(20, 2)]\<rparr>" Pass_Wait ?one] by (simp add: defs)
  have 4: "css_step \<lparr>session = ?one, waiting = [(20, 2)]\<rparr> (Css_End_Ignored (Some 2))
      \<lparr>session = ?one, waiting = [(20, 2)]\<rparr>"
    using css_step.End_Ignored [of "Some 2" "\<lparr>session = ?one, waiting = [(20, 2)]\<rparr>" ?one] by (simp add: defs)
  have 5: "css_step \<lparr>session = ?one, waiting = [(20, 2)]\<rparr> (Css_Ended 1) \<lparr>session = zero_entry, waiting = [(20, 2)]\<rparr>"
    using css_step.End [of 1 "\<lparr>session = ?one, waiting = [(20, 2)]\<rparr>" zero_entry] by (simp add: defs)
  have 6: "css_step \<lparr>session = zero_entry, waiting = [(20, 2)]\<rparr> (Css_Begun 2) \<lparr>session = ?two, waiting = []\<rparr>"
    using css_step.Wake [of 20 2 "\<lparr>session = zero_entry, waiting = [(20, 2)]\<rparr>" Pass_Taken ?two] by (simp add: defs)
  note next_step = labelled_run.Step [where step = css_step]
  have run: "labelled_run css_step \<lparr>session = zero_entry, waiting = []\<rparr>
      [Css_Begun 1, Css_Waits 2, Css_Waits 2, Css_End_Ignored (Some 2), Css_Ended 1, Css_Begun 2]
      \<lparr>session = ?two, waiting = []\<rparr>"
    using next_step [OF next_step [OF next_step [OF next_step [OF next_step
      [OF next_step [OF labelled_run.Stop 1] 2] 3] 4] 5] 6] by simp
  with css_sessions_exclude [OF run] show ?thesis by blast
qed

section \<open>What a caller is told\<close>

text \<open>C24: beginning a session returns, by the deadline at the latest; OK leaves the session open under
  the caller's cookie, and each refusal has its documented cause. Nothing else of the table
  changes.\<close>

theorem css_begin_contract:
  assumes "wait_until_deadline wait now_ns" and "wait_keeps wait"
  shows "\<exists>st s'. laser_css_session_begin wait h tk owner s = Some (st, s') \<and> trace s' = trace s \<and>
    (case laser_lookup tk s of
       None \<Rightarrow> st = (if owner = None then LASER_ERR_INVALID else LASER_ERR_NO_SUCH_TOKEN) \<and> s' = s
     | Some i \<Rightarrow>
         (\<exists>e. g_entries s' = (g_entries s)[i := e] \<and> same_but_css (g_entries s ! i) e \<and>
            (st = LASER_OK \<and> css_open e \<and> css_owner e = owner \<and> owner \<noteq> None \<or>
             st = LASER_ERR_INVALID \<and> (owner = None \<or> css_open e \<and> css_owner e = owner) \<or>
             st = LASER_ERR_IO \<and> (\<exists>w e1 w1. css_open e1 \<and> css_owner e1 \<noteq> owner \<and>
               wait (css_deadline (fst (clock_gettime h (world s))) LASER_CSS_SESSION_MAX_WAIT_MS) e1 w1 =
                 ((True, e), w)))))"
proof (cases owner)
  case None
  have "\<exists>e. g_entries s = (g_entries s)[i := e] \<and> same_but_css (g_entries s ! i) e" for i
    by (intro exI [of _ "g_entries s ! i"]) (simp add: same_but_css_refl)
  with None show ?thesis by (simp add: laser_css_session_begin_def split: option.split)
next
  case (Some cookie)
  show ?thesis
  proof (cases "laser_lookup tk s")
    case None
    with Some show ?thesis by (simp add: laser_css_session_begin_def)
  next
    case look: (Some i)
    obtain t0 d where clock: "do_clock h (dev_of i s) = (t0, d)" by fastforce
    then have d: "trace d = trace s" "ent d = g_entries s ! i" "t0 = fst (clock_gettime h (world s))"
      by (auto simp: do_clock_def case_prod_unfold)
    from css_wait_loop_result [OF assms, of "css_deadline t0 LASER_CSS_SESSION_MAX_WAIT_MS" cookie d]
    obtain st d' where r: "css_wait_loop wait (css_deadline t0 LASER_CSS_SESSION_MAX_WAIT_MS) cookie d =
        Some (st, d')" "trace d' = trace d" "same_but_css (ent d) (ent d')"
      "st = LASER_OK \<and> css_open (ent d') \<and> css_owner (ent d') = Some cookie \<or>
       st = LASER_ERR_INVALID \<and> css_open (ent d') \<and> css_owner (ent d') = Some cookie \<or>
       st = LASER_ERR_IO \<and> (\<exists>e w. css_open e \<and> css_owner e \<noteq> Some cookie \<and>
         wait (css_deadline t0 LASER_CSS_SESSION_MAX_WAIT_MS) e w = ((True, ent d'), world d'))"
      by blast
    have "laser_css_session_begin wait h tk owner s = Some (st, put_dev i d' s)"
      using Some look clock r(1) by (simp add: laser_css_session_begin_def)
    with r(2-4) d look Some show ?thesis by (fastforce simp: put_dev_def)
  qed
qed

text \<open>Waits during which another consumer keeps its session, or ends it just as the deadline passes.\<close>

definition held_wait :: "sim timed_wait" where
  "held_wait dl e w = ((True, e), w\<lparr>now := max (now w) (timespec_ns dl)\<rparr>)"

definition ending_wait :: "sim timed_wait" where
  "ending_wait dl e w =
     ((True, snd (css_close (css_owner e) e)), w\<lparr>now := max (now w) (timespec_ns dl)\<rparr>)"

lemma sample_waits:
  "wait_until_deadline held_wait now" "wait_keeps held_wait"
  "wait_until_deadline ending_wait now" "wait_keeps ending_wait"
  by (simp_all add: wait_until_deadline_def wait_keeps_def held_wait_def ending_wait_def
      same_but_css_def css_close_def)

definition busy_sys :: "sim sys" where
  "busy_sys = sim_sys (sim_entry\<lparr>css_open := True, css_owner := Some 1\<rparr>) []"

lemma busy_lookup: "laser_lookup 42 busy_sys = Some 0" "g_entries busy_sys ! 0 = sim_entry\<lparr>css_open := True, css_owner := Some 1\<rparr>"
  by code_simp (simp add: busy_sys_def sim_sys_def)

theorem css_begin_contract_witness:
  "\<exists>st s'. laser_css_session_begin held_wait sim_host 42 (Some 2) busy_sys = Some (st, s') \<and>
    trace s' = trace busy_sys \<and>
    (\<exists>e. g_entries s' = (g_entries busy_sys)[0 := e] \<and> same_but_css (g_entries busy_sys ! 0) e \<and>
       (st = LASER_OK \<and> css_open e \<and> css_owner e = Some 2 \<or>
        st = LASER_ERR_INVALID \<and> css_open e \<and> css_owner e = Some 2 \<or>
        st = LASER_ERR_IO \<and> css_open e \<and> css_owner e \<noteq> Some 2))"
proof -
  from css_begin_contract [OF sample_waits(1,2), of sim_host 42 "Some 2" busy_sys]
  show ?thesis unfolding busy_lookup(1) option.case by (auto simp: held_wait_def)
qed

text \<open>Against its documentation, which says IO means the other session is still open: the wait does
  not look again after a timeout, so a session that ends as the deadline passes is not taken, and
  begin answers IO with no session open.\<close>

theorem css_timeout_leaves_free_session:
  "\<exists>s'. laser_css_session_begin ending_wait sim_host 42 (Some 2) busy_sys = Some (LASER_ERR_IO, s') \<and>
    \<not> css_open (g_entries s' ! 0)"
proof -
  have "css_wait_loop ending_wait dl 2 d = Some (LASER_ERR_IO,
      d\<lparr>world := (world d)\<lparr>now := max (now (world d)) (timespec_ns dl)\<rparr>,
        ent := (ent d)\<lparr>css_open := False, css_owner := None\<rparr>\<rparr>)"
    if "css_open (ent d)" "css_owner (ent d) = Some 1" for dl d
    using that by (subst css_wait_loop.simps) (simp add: css_try_def css_close_def ending_wait_def)
  moreover obtain t0 d where "do_clock sim_host (dev_of 0 busy_sys) = (t0, d)" by fastforce
  moreover from this do_clock_frame(1) [of sim_host "dev_of 0 busy_sys"]
  have "css_open (ent d)" "css_owner (ent d) = Some 1" by (simp_all add: busy_lookup(2))
  ultimately show ?thesis
    using busy_lookup(1) by (simp add: laser_css_session_begin_def busy_sys_def sim_sys_def)
qed

end
