(* ===== verification/Iso.thy ===== *)
theory Iso
  imports Read
begin

text \<open>
  The minimal ISO9660 walk of disc.c: directory records within one sector, a named child of a
  directory, the two Video CD probes and the volume label. Every read of a sector goes through
  the checked \<open>rd\<close>, so a read outside the buffer would be a visible \<open>None\<close>; the block reader is
  a parameter. A local sector buffer is uninitialised in the code and looked at only after a
  complete read; it starts as zeros here.
\<close>

type_synonym 'w block_reader = "u32 \<Rightarrow> int \<Rightarrow> byte list \<Rightarrow> 'w sys \<Rightarrow> (int \<times> byte list \<times> 'w sys) option"

type_synonym extent = "u32 \<times> u32"

abbreviation ISO_SECTOR_SIZE :: nat where "ISO_SECTOR_SIZE \<equiv> 2048"
abbreviation ISO_MAX_DIR_SECTORS :: u32 where "ISO_MAX_DIR_SECTORS \<equiv> 4"
abbreviation ISO_DR_NAME :: nat where "ISO_DR_NAME \<equiv> 33"

definition ascii :: "string \<Rightarrow> byte list" where
  "ascii str = List.map of_char str"

section \<open>Fields\<close>

definition iso_le32 :: "byte list \<Rightarrow> nat \<Rightarrow> u32 option" where
  "iso_le32 bytes p =
     do { a \<leftarrow> rd bytes p; b \<leftarrow> rd bytes (p + 1); c \<leftarrow> rd bytes (p + 2); d \<leftarrow> rd bytes (p + 3);
       Some (ucast a OR push_bit 8 (ucast b) OR push_bit 16 (ucast c) OR push_bit 24 (ucast d)) }"

fun rd_range :: "'a list \<Rightarrow> nat \<Rightarrow> nat \<Rightarrow> 'a list option" where
  "rd_range bytes p 0 = Some []"
| "rd_range bytes p (Suc n) = do { x \<leftarrow> rd bytes p; xs \<leftarrow> rd_range bytes (p + 1) n; Some (x # xs) }"

definition upper :: "byte \<Rightarrow> byte" where
  "upper b = (if 0x61 \<le> b \<and> b \<le> 0x7A then b - 0x20 else b)"

text \<open>The version suffix is cut at the first semicolon.\<close>

definition iso_name_matches :: "byte list \<Rightarrow> byte list \<Rightarrow> bool" where
  "iso_name_matches name want =
     (let stem = takeWhile (\<lambda>b. b \<noteq> 0x3B) name
      in length stem = length want \<and> list_all2 (\<lambda>a b. upper a = upper b) stem want)"

section \<open>One sector\<close>

text \<open>
  The records of one sector from \<open>off\<close> on: the extent of the wanted child, or nothing. \<open>None\<close>
  outside is a read past the sector.
\<close>

function scan_records :: "byte list \<Rightarrow> nat \<Rightarrow> byte list \<Rightarrow> bool \<Rightarrow> extent option option" where
  "scan_records sector off want want_dir =
     (if \<not> off < ISO_SECTOR_SIZE then Some None
      else case rd sector off of
        None \<Rightarrow> None
      | Some len_byte \<Rightarrow>
          (let rec_len = unat len_byte in
           if rec_len = 0 then Some None
           else if rec_len < ISO_DR_NAME \<or> ISO_SECTOR_SIZE < off + rec_len then Some None
           else case rd sector (off + 32) of
             None \<Rightarrow> None
           | Some name_byte \<Rightarrow>
               (let name_len = unat name_byte in
                if name_len = 0 \<or> rec_len < ISO_DR_NAME + name_len then
                  scan_records sector (off + rec_len) want want_dir
                else case (rd sector (off + 25), rd_range sector (off + ISO_DR_NAME) name_len) of
                    (Some flags, Some name) \<Rightarrow>
                      if (flags AND 0x02 \<noteq> 0) = want_dir \<and> iso_name_matches name want then
                        do { lba \<leftarrow> iso_le32 sector (off + 2); len \<leftarrow> iso_le32 sector (off + 10);
                          Some (Some (lba, len)) }
                      else scan_records sector (off + rec_len) want want_dir
                  | _ \<Rightarrow> None)))"
  by pat_completeness auto
termination
  by (relation "measure (\<lambda>(sector, off, want, want_dir). ISO_SECTOR_SIZE - off)") auto

declare scan_records.simps [simp del]

section \<open>A directory\<close>

definition iso_read_sector :: "'w block_reader \<Rightarrow> u32 \<Rightarrow> 'w sys \<Rightarrow> (byte list option \<times> 'w sys) option" where
  "iso_read_sector reader lba s =
     map_option (\<lambda>(r, bytes, s'). (if r = 1 then Some bytes else None, s'))
       (reader lba 1 (replicate ISO_SECTOR_SIZE 0) s)"

fun find_in_sectors ::
  "'w block_reader \<Rightarrow> u32 \<Rightarrow> nat \<Rightarrow> byte list \<Rightarrow> bool \<Rightarrow> 'w sys \<Rightarrow> (extent option \<times> 'w sys) option" where
  "find_in_sectors reader lba 0 want want_dir s = Some (None, s)"
| "find_in_sectors reader lba (Suc n) want want_dir s =
     (case iso_read_sector reader lba s of
        None \<Rightarrow> None
      | Some (None, s1) \<Rightarrow> Some (None, s1)
      | Some (Some sector, s1) \<Rightarrow>
          (case scan_records sector 0 want want_dir of
             None \<Rightarrow> None
           | Some (Some found) \<Rightarrow> Some (Some found, s1)
           | Some None \<Rightarrow> find_in_sectors reader (lba + 1) n want want_dir s1))"

definition dir_sectors :: "u32 \<Rightarrow> nat" where
  "dir_sectors dir_len =
     (let sectors = (dir_len + 2048 - 1) div 2048
      in unat (if ISO_MAX_DIR_SECTORS < sectors then ISO_MAX_DIR_SECTORS else sectors))"

definition iso_find_child ::
  "'w block_reader \<Rightarrow> extent \<Rightarrow> byte list \<Rightarrow> bool \<Rightarrow> 'w sys \<Rightarrow> (extent option \<times> 'w sys) option" where
  "iso_find_child reader dir want want_dir s =
     (case dir of (dir_lba, dir_len) \<Rightarrow>
        find_in_sectors reader dir_lba (dir_sectors dir_len) want want_dir s)"

definition iso_info_magic_is ::
  "'w block_reader \<Rightarrow> u32 \<Rightarrow> byte list \<Rightarrow> 'w sys \<Rightarrow> (bool \<times> 'w sys) option" where
  "iso_info_magic_is reader lba magic s =
     (case iso_read_sector reader lba s of
        None \<Rightarrow> None
      | Some (None, s1) \<Rightarrow> Some (False, s1)
      | Some (Some sector, s1) \<Rightarrow> map_option (\<lambda>bs. (bs = magic, s1)) (rd_range sector 0 8))"

section \<open>The Video CD probes\<close>

datatype iso_video = ISO_VIDEO_NONE | ISO_VIDEO_VCD | ISO_VIDEO_SVCD

record iso_probe =
  probe_dir :: "byte list"
  probe_info :: "byte list"
  probe_magic :: "byte list"
  probe_kind :: iso_video

definition iso_probes :: "iso_probe list" where
  "iso_probes =
     [\<lparr>probe_dir = ascii ''VCD'', probe_info = ascii ''INFO.VCD'', probe_magic = ascii ''VIDEO_CD'',
       probe_kind = ISO_VIDEO_VCD\<rparr>,
      \<lparr>probe_dir = ascii ''SVCD'', probe_info = ascii ''INFO.SVD'', probe_magic = ascii ''SUPERVCD'',
       probe_kind = ISO_VIDEO_SVCD\<rparr>]"

text \<open>One entry of the table: directory, information file, its size and its signature.\<close>

definition try_probe ::
  "'w block_reader \<Rightarrow> extent \<Rightarrow> iso_probe \<Rightarrow> 'w sys \<Rightarrow> (bool \<times> 'w sys) option" where
  "try_probe reader root p s =
     (case iso_find_child reader root (probe_dir p) True s of
        None \<Rightarrow> None
      | Some (None, s1) \<Rightarrow> Some (False, s1)
      | Some (Some dir, s1) \<Rightarrow>
          (case iso_find_child reader dir (probe_info p) False s1 of
             None \<Rightarrow> None
           | Some (None, s2) \<Rightarrow> Some (False, s2)
           | Some (Some (info_lba, info_len), s2) \<Rightarrow>
               if info_len < 8 then Some (False, s2)
               else iso_info_magic_is reader info_lba (probe_magic p) s2))"

fun run_probes ::
  "'w block_reader \<Rightarrow> extent \<Rightarrow> iso_probe list \<Rightarrow> 'w sys \<Rightarrow> (iso_video \<times> 'w sys) option" where
  "run_probes reader root [] s = Some (ISO_VIDEO_NONE, s)"
| "run_probes reader root (p # ps) s =
     (case try_probe reader root p s of
        None \<Rightarrow> None
      | Some (hit, s1) \<Rightarrow> if hit then Some (probe_kind p, s1) else run_probes reader root ps s1)"

definition iso_volume_id_is_printable_ascii :: "byte list \<Rightarrow> bool" where
  "iso_volume_id_is_printable_ascii bs = list_all (\<lambda>b. \<not> (b < 0x20 \<or> 0x7E < b)) bs"

text \<open>The 32 bytes at offset 40, their padding trimmed; a label that is not printable is lost.\<close>

definition trim_padding :: "byte list \<Rightarrow> byte list" where
  "trim_padding bs = rev (dropWhile (\<lambda>b. b = 0x20 \<or> b = 0) (rev bs))"

definition iso_label :: "byte list \<Rightarrow> byte list" where
  "iso_label field =
     (let label = trim_padding field in if iso_volume_id_is_printable_ascii label then label else [])"

text \<open>The label is written only when something was recognised.\<close>

definition detect_iso_video ::
  "'w block_reader \<Rightarrow> u32 \<Rightarrow> byte list \<Rightarrow> 'w sys \<Rightarrow> ((iso_video \<times> byte list) \<times> 'w sys) option" where
  "detect_iso_video reader base label s =
     (case iso_read_sector reader (base + 16) s of
        None \<Rightarrow> None
      | Some (None, s1) \<Rightarrow> Some ((ISO_VIDEO_NONE, label), s1)
      | Some (Some pvd, s1) \<Rightarrow>
          do { type_and_id \<leftarrow> rd_range pvd 0 6;
            if type_and_id \<noteq> 0x01 # ascii ''CD001'' then Some ((ISO_VIDEO_NONE, label), s1)
            else do {
              root_lba \<leftarrow> iso_le32 pvd (156 + 2);
              root_len \<leftarrow> iso_le32 pvd (156 + 10);
              if root_len = 0 then Some ((ISO_VIDEO_NONE, label), s1)
              else case run_probes reader (root_lba, root_len) iso_probes s1 of
                  None \<Rightarrow> None
                | Some (ISO_VIDEO_NONE, s2) \<Rightarrow> Some ((ISO_VIDEO_NONE, label), s2)
                | Some (kind, s2) \<Rightarrow>
                    map_option (\<lambda>field. ((kind, iso_label field), s2)) (rd_range pvd 40 32) } })"

section \<open>Nothing is read outside a sector\<close>

lemma rd_range_within: "p + n \<le> length bytes \<Longrightarrow> rd_range bytes p n = Some (take n (drop p bytes))"
proof (induction n arbitrary: p)
  case (Suc n)
  then have "rd_range bytes (p + 1) n = Some (take n (drop (p + 1) bytes))" by simp
  moreover have "p < length bytes" using Suc.prems by simp
  ultimately show ?case
    by (simp add: take_Suc_conv_app_nth Cons_nth_drop_Suc [symmetric])
qed simp

lemma iso_le32_within: "p + 4 \<le> length bytes \<Longrightarrow> iso_le32 bytes p \<noteq> None"
  by (simp add: iso_le32_def)

lemma scan_records_safe:
  "length sector = ISO_SECTOR_SIZE \<Longrightarrow> scan_records sector off want want_dir \<noteq> None"
proof (induction sector off want want_dir rule: scan_records.induct)
  case (1 sector off want want_dir)
  let ?len = "unat (sector ! off)" and ?name = "unat (sector ! (off + 32))"
  show ?case
  proof (cases "off < ISO_SECTOR_SIZE \<and> ISO_DR_NAME \<le> ?len \<and> off + ?len \<le> ISO_SECTOR_SIZE")
    case False
    with 1(3) show ?thesis by (subst scan_records.simps) (auto simp: Let_def)
  next
    case inside: True
    note again = 1(1) [OF _ _ refl _ _ _ refl] 1(2) [OF _ _ refl _ _ _ refl]
    obtain lba len where ext: "iso_le32 sector (off + 2) = Some lba" "iso_le32 sector (off + 10) = Some len"
      using iso_le32_within [of "off + 2" sector] iso_le32_within [of "off + 10" sector] inside 1(3)
      by fastforce
    show ?thesis
    proof (cases "?name = 0 \<or> ?len < ISO_DR_NAME + ?name")
      case True
      with inside 1(3) again(1) [of "sector ! off" "sector ! (off + 32)"] show ?thesis
        by (subst scan_records.simps) (auto simp: Let_def)
    next
      case False
      have "rd_range sector (off + ISO_DR_NAME) ?name =
          Some (take ?name (drop (off + ISO_DR_NAME) sector))"
        by (rule rd_range_within) (use inside False 1(3) in simp)
      with False inside ext 1(3) 1(2) [of "sector ! off" _ "sector ! (off + 32)"] show ?thesis
        by (subst scan_records.simps) (auto simp: Let_def)
    qed
  qed
qed

end
