(* ===== verification/Iso_Props.thy ===== *)
theory Iso_Props
  imports Iso
begin

text \<open>
  The ISO9660 walk against a declarative reading of a directory: the records of a sector as a
  list, and the wanted child as the first that matches.
\<close>

section \<open>Records as a list\<close>

text \<open>The records of a sector up to the padding, or up to one too short or running past its end.\<close>

function dir_records :: "byte list \<Rightarrow> byte list list" where
  "dir_records bs =
     (if bs = [] \<or> unat (hd bs) < ISO_DR_NAME \<or> length bs < unat (hd bs) then []
      else take (unat (hd bs)) bs # dir_records (drop (unat (hd bs)) bs))"
  by pat_completeness auto
termination
  by (relation "measure length") auto

declare dir_records.simps [simp del]

definition names_child :: "byte list \<Rightarrow> bool \<Rightarrow> byte list \<Rightarrow> bool" where
  "names_child want want_dir r \<longleftrightarrow>
     (let n = unat (r ! 32) in
      0 < n \<and> ISO_DR_NAME + n \<le> length r \<and> (r ! 25 AND 0x02 \<noteq> 0) = want_dir \<and>
      iso_name_matches (take n (drop ISO_DR_NAME r)) want)"

definition le32_of :: "byte list \<Rightarrow> nat \<Rightarrow> u32" where
  "le32_of bs p = ucast (bs ! p) OR push_bit 8 (ucast (bs ! (p + 1))) OR
     push_bit 16 (ucast (bs ! (p + 2))) OR push_bit 24 (ucast (bs ! (p + 3)))"

definition extent_of :: "byte list \<Rightarrow> extent" where
  "extent_of r = (le32_of r 2, le32_of r 10)"

lemma iso_le32_of: "p + 4 \<le> length bs \<Longrightarrow> iso_le32 bs p = Some (le32_of bs p)"
  by (simp add: iso_le32_def le32_of_def)

lemma le32_of_part:
  assumes "p + 4 \<le> n" and "off + n \<le> length bs"
  shows "le32_of (take n (drop off bs)) p = le32_of bs (off + p)"
proof -
  have "take n (drop off bs) ! i = bs ! (off + i)" if "i < n" for i using that assms by simp
  with assms show ?thesis by (simp add: le32_of_def add.assoc)
qed

lemma scan_records_list:
  "length sector = ISO_SECTOR_SIZE \<Longrightarrow> scan_records sector off want want_dir =
     Some (map_option extent_of (List.find (names_child want want_dir) (dir_records (drop off sector))))"
proof (induction sector off want want_dir rule: scan_records.induct)
  case (1 sector off want want_dir)
  let ?len = "unat (sector ! off)" and ?name = "unat (sector ! (off + 32))"
  show ?case
  proof (cases "off < ISO_SECTOR_SIZE \<and> ISO_DR_NAME \<le> ?len \<and> off + ?len \<le> ISO_SECTOR_SIZE")
    case False
    have "dir_records (drop off sector) = []"
      using False 1(3) by (subst dir_records.simps) (auto simp: hd_drop_conv_nth)
    moreover have "scan_records sector off want want_dir = Some None"
      using False 1(3) by (subst scan_records.simps) (auto simp: Let_def)
    ultimately show ?thesis by simp
  next
    case inside: True
    let ?r = "take ?len (drop off sector)"
    have hd: "hd (drop off sector) = sector ! off" using inside 1(3) by (simp add: hd_drop_conv_nth)
    have "\<not> (drop off sector = [] \<or> unat (hd (drop off sector)) < ISO_DR_NAME \<or>
        length (drop off sector) < unat (hd (drop off sector)))"
      using inside 1(3) hd by auto
    then have split: "dir_records (drop off sector) = ?r # dir_records (drop (off + ?len) sector)"
      by (subst dir_records.simps) (simp add: hd add.commute del: drop_eq_Nil)
    have at: "?r ! i = sector ! (off + i)" if "i < ?len" for i using that inside 1(3) by simp
    have ext: "iso_le32 sector (off + 2) = Some (fst (extent_of ?r))"
      "iso_le32 sector (off + 10) = Some (snd (extent_of ?r))"
      using inside 1(3) by (simp_all add: iso_le32_of extent_of_def le32_of_part)
    have child: "names_child want want_dir ?r \<longleftrightarrow> 0 < ?name \<and> ISO_DR_NAME + ?name \<le> ?len \<and>
        (sector ! (off + 25) AND 0x02 \<noteq> 0) = want_dir \<and>
        iso_name_matches (take ?name (drop (off + ISO_DR_NAME) sector)) want"
      using at [of 25] at [of 32] inside 1(3)
      by (auto simp: names_child_def Let_def take_drop min_def add.commute)
    show ?thesis
    proof (cases "?name = 0 \<or> ?len < ISO_DR_NAME + ?name")
      case True
      then have "scan_records sector off want want_dir = scan_records sector (off + ?len) want want_dir"
        using inside 1(3) by (subst scan_records.simps) (auto simp: Let_def)
      also have "\<dots> = Some (map_option extent_of
          (List.find (names_child want want_dir) (dir_records (drop (off + ?len) sector))))"
        using 1(1) [of "sector ! off" ?len "sector ! (off + 32)" ?name] True inside 1(3) by simp
      finally show ?thesis using child True split by auto
    next
      case False
      have range: "rd_range sector (off + ISO_DR_NAME) ?name =
          Some (take ?name (drop (off + ISO_DR_NAME) sector))"
        by (rule rd_range_within) (use inside False 1(3) in simp)
      show ?thesis
      proof (cases "names_child want want_dir ?r")
        case True
        then have "scan_records sector off want want_dir = Some (Some (extent_of ?r))"
          using inside 1(3) False range ext child by (subst scan_records.simps) (simp add: Let_def)
        with True split show ?thesis by simp
      next
        case other: False
        then have "scan_records sector off want want_dir = scan_records sector (off + ?len) want want_dir"
          using inside 1(3) False range child by (subst scan_records.simps) (auto simp: Let_def)
        also have "\<dots> = Some (map_option extent_of
            (List.find (names_child want want_dir) (dir_records (drop (off + ?len) sector))))"
          using 1(2) [of "sector ! off" ?len "sector ! (off + 32)" ?name] False inside 1(3) range other child
          by auto
        finally show ?thesis using other split by simp
      qed
    qed
  qed
qed

section \<open>The property\<close>

text \<open>C12: on any 2048 bytes, well formed or not, the directory scan stays within the sector and finds
  the extent of the first record of the wanted kind and name.\<close>

theorem directory_scan_finds_first:
  assumes "length sector = ISO_SECTOR_SIZE"
  shows "scan_records sector 0 want want_dir =
    Some (map_option extent_of (List.find (names_child want want_dir) (dir_records sector)))"
  using scan_records_list [OF assms, of 0] by simp

text \<open>A directory record: an extent, a length, the directory flag and a name.\<close>

definition sample_record :: "byte \<Rightarrow> byte \<Rightarrow> byte \<Rightarrow> string \<Rightarrow> byte list" where
  "sample_record lba len flags name =
     [of_nat (33 + length name), 0, lba, 0, 0, 0, 0, 0, 0, 0, len, 0, 0, 0] @ replicate 11 0 @
     [flags] @ replicate 6 0 @ [of_nat (length name)] @ ascii name"

definition sample_sector :: "byte list" where
  "sample_sector = sample_record 20 8 2 ''EXT'' @ sample_record 21 9 0 ''VCD'' @
     sample_record 22 10 2 ''vcd;1'' @ replicate 1938 0"

lemma dir_records_append:
  "unat (hd r) = length r \<Longrightarrow> ISO_DR_NAME \<le> length r \<Longrightarrow> dir_records (r @ rest) = r # dir_records rest"
proof -
  assume r: "unat (hd r) = length r" "ISO_DR_NAME \<le> length r"
  then have "hd (r @ rest) = hd r" by (cases r) simp_all
  with r show ?thesis by (subst dir_records.simps) auto
qed

lemma dir_records_padding: "dir_records (replicate n 0) = []"
  by (subst dir_records.simps) (cases n, simp_all)

lemma sample_records:
  "dir_records sample_sector = [sample_record 20 8 2 ''EXT'', sample_record 21 9 0 ''VCD'',
     sample_record 22 10 2 ''vcd;1'']"
proof -
  have "unat (hd (sample_record lba len flags name)) = length (sample_record lba len flags name) \<and>
      ISO_DR_NAME \<le> length (sample_record lba len flags name)"
    if "name \<in> {''EXT'', ''VCD'', ''vcd;1''}" for lba len flags name
    using that by (auto simp: sample_record_def ascii_def)
  then show ?thesis by (simp add: sample_sector_def dir_records_append dir_records_padding)
qed

theorem directory_scan_finds_first_witness:
  "scan_records sample_sector 0 (ascii ''VCD'') True = Some (Some (22, 10))"
proof -
  have len: "length sample_sector = ISO_SECTOR_SIZE"
    by (simp add: sample_sector_def sample_record_def ascii_def)
  have "map_option extent_of (List.find (names_child (ascii ''VCD'') True)
      [sample_record 20 8 2 ''EXT'', sample_record 21 9 0 ''VCD'', sample_record 22 10 2 ''vcd;1'']) =
      Some (22, 10)"
    by code_simp
  with directory_scan_finds_first [OF len, of "ascii ''VCD''" True] show ?thesis
    unfolding sample_records by simp
qed

end
