(* ===== verification/Disc.thy ===== *)
theory Disc
  imports Iso Spinup
begin

text \<open>
  Disc identification (disc.c): the medium's family and its table of contents, the UDF probes,
  and the order in which they are asked. libudfread is not part of the repository: its calls are
  a parameter, a record of functions over a mounted volume and a state; it reads the medium
  through the callback handed to it at opening.
\<close>

section \<open>What is found\<close>

datatype laser_disc_kind =
    LASER_DISC_UNKNOWN
  | LASER_DISC_CD_AUDIO
  | LASER_DISC_DVD_VIDEO
  | LASER_DISC_DVD_AUDIO
  | LASER_DISC_DVD_UNIVERSAL
  | LASER_DISC_BD_VIDEO
  | LASER_DISC_VCD
  | LASER_DISC_SVCD

text \<open>The label is the characters before its terminator.\<close>

record laser_disc =
  kind :: laser_disc_kind
  volume_id :: "byte list"

abbreviation LASER_DISC_VOLUME_ID_MAX :: nat where "LASER_DISC_VOLUME_ID_MAX \<equiv> 33"

text \<open>\<open>copy_volume_id()\<close>: a cut in the middle of a UTF-8 sequence moves left, off its continuation bytes.\<close>

fun cut_back :: "byte list \<Rightarrow> nat \<Rightarrow> nat" where
  "cut_back src 0 = 0"
| "cut_back src (Suc n) = (if src ! Suc n AND 0xC0 = 0x80 then cut_back src n else Suc n)"

definition copy_volume_id :: "byte list \<Rightarrow> byte list" where
  "copy_volume_id src =
     (if LASER_DISC_VOLUME_ID_MAX - 1 < length src then take (cut_back src (LASER_DISC_VOLUME_ID_MAX - 1)) src
      else src)"

section \<open>The UDF library\<close>

text \<open>
  The block input handed to libudfread: the read callback and the size callback. What libudfread
  works on is \<open>'s\<close>; a mounted volume is \<open>'u\<close>, a file handle a number.
\<close>

record 's udf_input =
  bi_read :: "u32 \<Rightarrow> u32 \<Rightarrow> byte list \<Rightarrow> 's \<Rightarrow> ((int \<times> byte list) \<times> 's) option"
  bi_size :: u32

record ('u, 's) udf_lib =
  udfread_init :: "'s \<Rightarrow> 'u option \<times> 's"
  udfread_open_input :: "'s udf_input \<Rightarrow> 'u \<Rightarrow> 's \<Rightarrow> ((int \<times> 'u) \<times> 's) option"
  udfread_file_open :: "'s udf_input \<Rightarrow> byte list \<Rightarrow> 'u \<Rightarrow> 's \<Rightarrow> ((nat option \<times> 'u) \<times> 's) option"
  udfread_file_read :: "'s udf_input \<Rightarrow> nat \<Rightarrow> nat \<Rightarrow> 'u \<Rightarrow> 's \<Rightarrow> ((int \<times> byte list \<times> 'u) \<times> 's) option"
  udfread_file_close :: "nat \<Rightarrow> 'u \<Rightarrow> 'u"
  udfread_get_volume_id :: "'u \<Rightarrow> byte list option"
  udfread_close :: "'u \<Rightarrow> 's \<Rightarrow> 's"

text \<open>\<open>scsi_block_input\<close>'s own field beside the table: whether medium or drive has gone.\<close>

type_synonym 'w udf_io = "bool \<times> 'w sys"

definition udf_read_cb ::
  "'w block_reader \<Rightarrow> u32 \<Rightarrow> u32 \<Rightarrow> byte list \<Rightarrow> 'w udf_io \<Rightarrow> ((int \<times> byte list) \<times> 'w udf_io) option" where
  "udf_read_cb reader lba nblocks bytes io =
     (case io of (gone, s) \<Rightarrow>
        if gone then Some ((-1, bytes), io)
        else case reader lba (sint nblocks) bytes s of
            None \<Rightarrow> None
          | Some (ret, bytes', s') \<Rightarrow>
              let gone' = (ret = status_code LASER_ERR_MEDIA_GONE \<or> ret = status_code LASER_ERR_NO_DEVICE)
              in Some ((if ret \<noteq> sint nblocks then -1 else ret, bytes'), (gone', s')))"

definition udf_size_cb :: u32 where
  "udf_size_cb = 0"

definition scsi_block_input :: "'w block_reader \<Rightarrow> 'w udf_io udf_input" where
  "scsi_block_input reader = \<lparr>bi_read = udf_read_cb reader, bi_size = udf_size_cb\<rparr>"

section \<open>The UDF probes\<close>

datatype udf_disc = UDF_DISC_NONE | UDF_DISC_DVD_VIDEO | UDF_DISC_DVD_AUDIO | UDF_DISC_DVD_UNIVERSAL
  | UDF_DISC_BD

abbreviation UDF_ZONE_MAGIC_LEN :: nat where "UDF_ZONE_MAGIC_LEN \<equiv> 12"

definition udf_zone_present ::
  "('u, 's) udf_lib \<Rightarrow> 's udf_input \<Rightarrow> string \<Rightarrow> string \<Rightarrow> 'u \<Rightarrow> 's \<Rightarrow> ((bool \<times> 'u) \<times> 's) option" where
  "udf_zone_present lib inp path magic u s =
     (case udfread_file_open lib inp (ascii path) u s of
        None \<Rightarrow> None
      | Some ((None, u1), s1) \<Rightarrow> Some ((False, u1), s1)
      | Some ((Some f, u1), s1) \<Rightarrow>
          (case udfread_file_read lib inp f UDF_ZONE_MAGIC_LEN u1 s1 of
             None \<Rightarrow> None
           | Some ((got, bytes, u2), s2) \<Rightarrow>
               Some ((got = int UDF_ZONE_MAGIC_LEN \<and> bytes = ascii magic, udfread_file_close lib f u2), s2)))"

definition video_zone where
  "video_zone lib inp = udf_zone_present lib inp ''/VIDEO_TS/VIDEO_TS.IFO'' ''DVDVIDEO-VMG''"

definition audio_zone where
  "audio_zone lib inp = udf_zone_present lib inp ''/AUDIO_TS/AUDIO_TS.IFO'' ''DVDAUDIO-AMG''"

text \<open>Which layout an opened volume has, in the order of the code's lookups.\<close>

definition udf_layout ::
  "('u, 's) udf_lib \<Rightarrow> 's udf_input \<Rightarrow> 'u \<Rightarrow> 's \<Rightarrow> ((udf_disc \<times> 'u) \<times> 's) option" where
  "udf_layout lib inp u s =
     (case video_zone lib inp u s of
        None \<Rightarrow> None
      | Some ((True, u1), s1) \<Rightarrow>
          map_option (\<lambda>((audio, u2), s2).
              ((if audio then UDF_DISC_DVD_UNIVERSAL else UDF_DISC_DVD_VIDEO, u2), s2))
            (audio_zone lib inp u1 s1)
      | Some ((False, u1), s1) \<Rightarrow>
          (case udfread_file_open lib inp (ascii ''/BDMV/index.bdmv'') u1 s1 of
             None \<Rightarrow> None
           | Some ((Some f, u2), s2) \<Rightarrow> Some ((UDF_DISC_BD, udfread_file_close lib f u2), s2)
           | Some ((None, u2), s2) \<Rightarrow>
               map_option (\<lambda>((audio, u3), s3).
                   ((if audio then UDF_DISC_DVD_AUDIO else UDF_DISC_NONE, u3), s3))
                 (audio_zone lib inp u2 s2)))"

definition detect_udf_disc ::
  "('u, 'w udf_io) udf_lib \<Rightarrow> 'w block_reader \<Rightarrow> byte list \<Rightarrow> 'w sys \<Rightarrow>
     ((udf_disc \<times> byte list) \<times> 'w sys) option" where
  "detect_udf_disc lib reader label s =
     (let inp = scsi_block_input reader in
      case udfread_init lib (False, s) of
        (None, io) \<Rightarrow> Some ((UDF_DISC_NONE, label), snd io)
      | (Some u, io) \<Rightarrow>
          (case udfread_open_input lib inp u io of
             None \<Rightarrow> None
           | Some ((ret, u1), io1) \<Rightarrow>
               if ret \<noteq> 0 then Some ((UDF_DISC_NONE, label), snd (udfread_close lib u1 io1))
               else (case udf_layout lib inp u1 io1 of
                       None \<Rightarrow> None
                     | Some ((found, u2), io2) \<Rightarrow>
                         Some ((found,
                             if found = UDF_DISC_NONE then label
                             else case udfread_get_volume_id lib u2 of
                                 None \<Rightarrow> []
                               | Some vol_id \<Rightarrow> copy_volume_id vol_id),
                           snd (udfread_close lib u2 io2)))))"

section \<open>Medium and table of contents\<close>

datatype medium = MEDIUM_UNKNOWN | MEDIUM_CD | MEDIUM_DVD | MEDIUM_BD

definition get_configuration_cdb :: "byte list" where
  "get_configuration_cdb = [0x46, 0x00, 0, 0, 0, 0, 0, 0, 32, 0]"

definition medium_of_profile :: "nat \<Rightarrow> medium" where
  "medium_of_profile profile =
     (if 0x0008 \<le> profile \<and> profile \<le> 0x000A then MEDIUM_CD
      else if 0x0010 \<le> profile \<and> profile \<le> 0x002F then MEDIUM_DVD
      else if 0x0040 \<le> profile \<and> profile \<le> 0x004F then MEDIUM_BD
      else MEDIUM_UNKNOWN)"

definition read_medium :: "'w command \<Rightarrow> 'w sys \<Rightarrow> (medium \<times> 'w sys) option" where
  "read_medium cmd s =
     (case cmd get_configuration_cdb 10 (Some (replicate 32 0)) 32 True (Some 0) s of
        None \<Rightarrow> None
      | Some (out, s') \<Rightarrow>
          if status out \<noteq> LASER_OK \<or> the (o_actual out) < 8 then Some (MEDIUM_UNKNOWN, s')
          else let bytes = the (o_data out) in
            Some (medium_of_profile (unat (bytes ! 6) * 256 + unat (bytes ! 7)), s'))"

datatype cd_toc = CD_TOC_NONE | CD_TOC_DATA | CD_TOC_AUDIO

definition read_toc_cdb :: "byte list" where
  "read_toc_cdb = [0x43, 0x00, 0x00, 0, 0, 0, 0x00, 0x00, 0x80, 0]"

text \<open>The start of the first data track among \<open>n\<close> descriptors from number \<open>i\<close> on, lead-out excepted.\<close>

fun first_data_track :: "byte list \<Rightarrow> nat \<Rightarrow> nat \<Rightarrow> u32 option" where
  "first_data_track toc i 0 = Some 0"
| "first_data_track toc i (Suc n) =
     do { control \<leftarrow> rd toc (4 + i * 8 + 1); track \<leftarrow> rd toc (4 + i * 8 + 2);
       if control AND 0x04 = 0 then first_data_track toc (i + 1) n
       else if track = 0xAA then first_data_track toc (i + 1) n
       else do { a \<leftarrow> rd toc (4 + i * 8 + 4); b \<leftarrow> rd toc (4 + i * 8 + 5);
         c \<leftarrow> rd toc (4 + i * 8 + 6); d \<leftarrow> rd toc (4 + i * 8 + 7);
         Some (push_bit 24 (ucast a) OR push_bit 16 (ucast b) OR push_bit 8 (ucast c) OR ucast d) } }"

text \<open>Reading the answer: the announced length, the transfer and the buffer all bound it.\<close>

definition parse_toc :: "byte list \<Rightarrow> int \<Rightarrow> (cd_toc \<times> u32) option" where
  "parse_toc toc got =
     do { hi \<leftarrow> rd toc 0; lo \<leftarrow> rd toc 1;
       let toc_data_len = unat hi * 256 + unat lo;
       if toc_data_len + 2 < 4 + 8 then Some (CD_TOC_NONE, 0)
       else do {
         let avail1 = toc_data_len + 2;
         let avail2 = (if nat got < avail1 then nat got else avail1);
         let avail = (if 128 < avail2 then 128 else avail2);
         lba \<leftarrow> first_data_track toc 0 ((avail - 4) div 8);
         control \<leftarrow> rd toc 5;
         Some (if (control AND 0x0F) AND 0x04 = 0 then CD_TOC_AUDIO else CD_TOC_DATA, lba) } }"

definition read_cd_toc :: "'w command \<Rightarrow> 'w sys \<Rightarrow> ((cd_toc \<times> u32) \<times> 'w sys) option" where
  "read_cd_toc cmd s =
     (case cmd read_toc_cdb 10 (Some (replicate 128 0)) 128 True (Some 0) s of
        None \<Rightarrow> None
      | Some (out, s') \<Rightarrow>
          if status out \<noteq> LASER_OK \<or> the (o_actual out) < 4 + 8 then Some ((CD_TOC_NONE, 0), s')
          else map_option (\<lambda>r. (r, s')) (parse_toc (the (o_data out)) (the (o_actual out))))"

section \<open>Identification\<close>

fun udf_kind :: "udf_disc \<Rightarrow> laser_disc_kind option" where
  "udf_kind UDF_DISC_DVD_VIDEO = Some LASER_DISC_DVD_VIDEO"
| "udf_kind UDF_DISC_DVD_AUDIO = Some LASER_DISC_DVD_AUDIO"
| "udf_kind UDF_DISC_DVD_UNIVERSAL = Some LASER_DISC_DVD_UNIVERSAL"
| "udf_kind UDF_DISC_BD = Some LASER_DISC_BD_VIDEO"
| "udf_kind UDF_DISC_NONE = None"

fun iso_kind :: "iso_video \<Rightarrow> laser_disc_kind option" where
  "iso_kind ISO_VIDEO_VCD = Some LASER_DISC_VCD"
| "iso_kind ISO_VIDEO_SVCD = Some LASER_DISC_SVCD"
| "iso_kind ISO_VIDEO_NONE = None"

definition identify_udf ::
  "('u, 'w udf_io) udf_lib \<Rightarrow> 'w block_reader \<Rightarrow> laser_disc \<Rightarrow> 'w sys \<Rightarrow>
     ((bool \<times> laser_disc) \<times> 'w sys) option" where
  "identify_udf lib reader out s =
     map_option (\<lambda>((found, label), s').
         ((case udf_kind found of None \<Rightarrow> (False, out\<lparr>volume_id := label\<rparr>)
           | Some k \<Rightarrow> (True, out\<lparr>kind := k, volume_id := label\<rparr>)), s'))
       (detect_udf_disc lib reader (volume_id out) s)"

definition identify_iso ::
  "'w block_reader \<Rightarrow> u32 \<Rightarrow> laser_disc \<Rightarrow> 'w sys \<Rightarrow> ((bool \<times> laser_disc) \<times> 'w sys) option" where
  "identify_iso reader track_lba out s =
     map_option (\<lambda>((found, label), s').
         ((case iso_kind found of None \<Rightarrow> (False, out\<lparr>volume_id := label\<rparr>)
           | Some k \<Rightarrow> (True, out\<lparr>kind := k, volume_id := label\<rparr>)), s'))
       (detect_iso_video reader track_lba (volume_id out) s)"

definition blank_disc :: laser_disc where
  "blank_disc = \<lparr>kind = LASER_DISC_UNKNOWN, volume_id = []\<rparr>"

text \<open>The probes of a ready drive, in the documented order.\<close>

definition identify_ready ::
  "('u, 'w udf_io) udf_lib \<Rightarrow> 'w command \<Rightarrow> 'w block_reader \<Rightarrow> 'w sys \<Rightarrow> (laser_disc \<times> 'w sys) option" where
  "identify_ready lib cmd reader s =
     (case read_medium cmd s of
        None \<Rightarrow> None
      | Some (medium, s1) \<Rightarrow>
          (case (if medium = MEDIUM_CD \<or> medium = MEDIUM_UNKNOWN then read_cd_toc cmd s1
                 else Some ((CD_TOC_NONE, 0), s1)) of
             None \<Rightarrow> None
           | Some ((toc, track_lba), s2) \<Rightarrow>
               if toc = CD_TOC_AUDIO then Some (blank_disc\<lparr>kind := LASER_DISC_CD_AUDIO\<rparr>, s2)
               else (case (if medium = MEDIUM_CD \<and> toc = CD_TOC_DATA
                           then identify_iso reader track_lba blank_disc s2
                           else Some ((False, blank_disc), s2)) of
                       None \<Rightarrow> None
                     | Some ((True, out), s3) \<Rightarrow> Some (out, s3)
                     | Some ((False, out), s3) \<Rightarrow>
                         (case identify_udf lib reader out s3 of
                            None \<Rightarrow> None
                          | Some ((True, out'), s4) \<Rightarrow> Some (out', s4)
                          | Some ((False, out'), s4) \<Rightarrow>
                              if medium = MEDIUM_UNKNOWN \<and> toc = CD_TOC_DATA then
                                map_option (\<lambda>((_, out''), s5). (out'', s5))
                                  (identify_iso reader track_lba out' s4)
                              else Some (out', s4)))))"

definition laser_disc_identify ::
  "('u, 'w udf_io) udf_lib \<Rightarrow> 'w host \<Rightarrow> int \<Rightarrow> 'w sys \<Rightarrow> (laser_disc \<times> 'w sys) option" where
  "laser_disc_identify lib h tk s =
     (if laser_token_not_ready tk s then Some (blank_disc, s)
      else case laser_token_settle h tk s of
          None \<Rightarrow> None
        | Some s1 \<Rightarrow>
            if laser_token_not_ready tk s1 then Some (blank_disc, s1)
            else identify_ready lib (scsi_command h tk) (laser_read_blocks h tk) s1)"

end
