(* ===== verification/Disc_Laws.thy ===== *)
theory Disc_Laws
  imports Disc Read_Laws
begin

text \<open>
  Lemmas on disc identification: it answers when what it calls answers, it stays within its
  buffers, the labels it writes are well formed, and the ISO9660 walk reads few sectors.
\<close>

section \<open>What the walk relies on\<close>

text \<open>
  A host the library can be used on, by documented behaviour of libusb, the clock and the drive;
  and a reader of one sector, which on such a host returns and keeps the size of the buffer.
\<close>

definition serviceable :: "'w host \<Rightarrow> bool" where
  "serviceable h \<longleftrightarrow> usb_bounded h \<and> (\<exists>now_ns. clock_monotonic h now_ns) \<and>
     (\<exists>changes. finitely_many_changes (laser_bot_send_locked h) h changes)"

locale sector_reader =
  fixes h :: "'w host" and reader :: "'w block_reader"
  assumes reads: "serviceable h \<Longrightarrow> length bytes = ISO_SECTOR_SIZE \<Longrightarrow>
    \<exists>r bytes' s'. reader lba 1 bytes s = Some (r, bytes', s') \<and> length bytes' = ISO_SECTOR_SIZE"
begin

lemma read_sector_returns:
  assumes "serviceable h"
  obtains (failed) s' where "iso_read_sector reader lba s = Some (None, s')"
  | (sector) sector s' where "iso_read_sector reader lba s = Some (Some sector, s')"
      and "length sector = ISO_SECTOR_SIZE"
proof -
  obtain r bytes' s' where r: "reader lba 1 (replicate ISO_SECTOR_SIZE 0) s = Some (r, bytes', s')"
    "length bytes' = ISO_SECTOR_SIZE"
    using reads [OF assms, of "replicate ISO_SECTOR_SIZE 0" lba s] by auto
  then have "iso_read_sector reader lba s = Some (if r = 1 then Some bytes' else None, s')"
    by (simp add: iso_read_sector_def)
  with r(2) show thesis by (cases "r = 1") (auto intro: failed sector)
qed

lemma find_child_returns:
  assumes "serviceable h"
  shows "iso_find_child reader dir want want_dir s \<noteq> None"
proof -
  have "find_in_sectors reader lba n want want_dir s \<noteq> None" for lba n s
  proof (induction n arbitrary: lba s)
    case (Suc n)
    from assms show ?case
    proof (cases rule: read_sector_returns [of lba s])
      case (sector sector s')
      with scan_records_safe [OF sector(2), of 0 want want_dir] Suc.IH [of "lba + 1" s'] show ?thesis
        by (auto split: option.split)
    qed simp
  qed simp
  then show ?thesis by (simp add: iso_find_child_def split: prod.split)
qed

lemma probe_returns:
  assumes "serviceable h"
  shows "try_probe reader root p s \<noteq> None"
proof -
  have magic: "iso_info_magic_is reader lba magic s \<noteq> None" for lba magic s
    using assms
  proof (cases rule: read_sector_returns [of lba s])
    case (sector sector s')
    then show ?thesis using rd_range_within [of 0 8 sector] by (simp add: iso_info_magic_is_def)
  qed (simp add: iso_info_magic_is_def)
  obtain dir s1 where 1: "iso_find_child reader root (probe_dir p) True s = Some (dir, s1)"
    using find_child_returns [OF assms] by fastforce
  show ?thesis
  proof (cases dir)
    case (Some ext)
    obtain info s2 where 2: "iso_find_child reader ext (probe_info p) False s1 = Some (info, s2)"
      using find_child_returns [OF assms] by fastforce
    with 1 Some magic show ?thesis by (auto simp: try_probe_def split: option.split)
  qed (use 1 in \<open>simp add: try_probe_def\<close>)
qed

lemma detect_iso_returns:
  assumes "serviceable h"
  shows "detect_iso_video reader base label s \<noteq> None"
proof -
  have probes: "run_probes reader root ps s \<noteq> None" for root ps s
  proof (induction ps arbitrary: s)
    case (Cons p ps)
    obtain hit s1 where "try_probe reader root p s = Some (hit, s1)"
      using probe_returns [OF assms] by fastforce
    with Cons.IH [of s1] show ?case by simp
  qed simp
  from assms show ?thesis
  proof (cases rule: read_sector_returns [of "base + 16" s])
    case (sector pvd s1)
    obtain lba len where ext: "iso_le32 pvd (156 + 2) = Some lba" "iso_le32 pvd (156 + 10) = Some len"
      using iso_le32_within [of "156 + 2" pvd] iso_le32_within [of "156 + 10" pvd] sector(2) by fastforce
    obtain found s2 where "run_probes reader (lba, len) iso_probes s1 = Some (found, s2)"
      using probes by fastforce
    with sector ext rd_range_within [of 0 6 pvd] rd_range_within [of 40 32 pvd] show ?thesis
      by (auto simp: detect_iso_video_def split: iso_video.split)
  qed (simp add: detect_iso_video_def)
qed

lemma identify_iso_returns: "serviceable h \<Longrightarrow> identify_iso reader track_lba out s \<noteq> None"
  using detect_iso_returns by (simp add: identify_iso_def)

end

section \<open>How the detectors end\<close>

lemma rd_range_length: "rd_range bytes p n = Some xs \<Longrightarrow> length xs = n"
proof (induction n arbitrary: p xs)
  case (Suc n)
  then obtain x ys where "rd_range bytes (p + 1) n = Some ys" "xs = x # ys"
    by (fastforce simp: bind_eq_Some_conv)
  with Suc.IH [OF this(1)] show ?case by simp
qed simp

lemma detect_iso_cases:
  assumes run: "detect_iso_video reader base label s = Some (x, s')"
  obtains (missed) sector where "iso_read_sector reader (base + 16) s = Some (sector, s')"
      and "x = (ISO_VIDEO_NONE, label)"
  | (probed) sector s1 root found where "iso_read_sector reader (base + 16) s = Some (sector, s1)"
      and "run_probes reader root iso_probes s1 = Some (found, s')"
      and "if found = ISO_VIDEO_NONE then x = (ISO_VIDEO_NONE, label)
        else \<exists>field. length field = 32 \<and> x = (found, iso_label field)"
proof -
  obtain sector s1 where r: "iso_read_sector reader (base + 16) s = Some (sector, s1)"
    using run by (auto simp: detect_iso_video_def split: option.splits)
  show thesis
  proof (cases sector)
    case None
    with run r show thesis by (intro missed) (auto simp: detect_iso_video_def)
  next
    case (Some pvd)
    obtain t where t: "rd_range pvd 0 6 = Some t"
      using run r Some by (auto simp: detect_iso_video_def bind_eq_Some_conv simp del: rd_range.simps)
    show thesis
    proof (cases "t = 0x01 # ascii ''CD001''")
      case False
      with run r Some t show thesis
        by (intro missed) (auto simp: detect_iso_video_def simp del: rd_range.simps)
    next
      case True
      obtain lba len where ext: "iso_le32 pvd 158 = Some lba" "iso_le32 pvd 166 = Some len"
        using run r Some t True by (auto simp: detect_iso_video_def bind_eq_Some_conv)
      show thesis
      proof (cases "len = 0")
        case zero: True
        with run r Some t True ext show thesis
          by (intro missed) (auto simp: detect_iso_video_def simp del: rd_range.simps)
      next
        case len: False
        obtain found s2 where p: "run_probes reader (lba, len) iso_probes s1 = Some (found, s2)"
          using run r Some t True ext len
          by (auto simp: detect_iso_video_def simp del: rd_range.simps split: option.splits)
        with run r Some t True ext len have "s2 = s' \<and> (if found = ISO_VIDEO_NONE then x = (ISO_VIDEO_NONE, label)
            else \<exists>field. rd_range pvd 40 32 = Some field \<and> x = (found, iso_label field))"
          by (cases found) (auto simp: detect_iso_video_def simp del: rd_range.simps)
        then have s2: "s2 = s'" and label: "if found = ISO_VIDEO_NONE then x = (ISO_VIDEO_NONE, label)
            else \<exists>field. length field = 32 \<and> x = (found, iso_label field)"
          using rd_range_length [of pvd 40 32] by (auto split: if_splits)
        show thesis by (rule probed [OF r p [unfolded s2] label])
      qed
    qed
  qed
qed

lemma detect_udf_cases:
  assumes run: "detect_udf_disc lib reader label s = Some ((found, label'), s')"
  shows "found = UDF_DISC_NONE \<and> label' = label \<or> found \<noteq> UDF_DISC_NONE \<and>
    (label' = [] \<or> (\<exists>u vol_id. udfread_get_volume_id lib u = Some vol_id \<and> label' = copy_volume_id vol_id))"
proof -
  obtain u io where init: "udfread_init lib (False, s) = (u, io)" by (rule prod.exhaust)
  show ?thesis
  proof (cases u)
    case None
    with run init show ?thesis by (simp add: detect_udf_disc_def Let_def)
  next
    case (Some u')
    with run init obtain ret u1 io1 where
      opened: "udfread_open_input lib (scsi_block_input reader) u' io = Some ((ret, u1), io1)"
      by (auto simp: detect_udf_disc_def Let_def split: option.splits)
    show ?thesis
    proof (cases "ret = 0")
      case False
      with run init Some opened show ?thesis by (simp add: detect_udf_disc_def Let_def)
    next
      case True
      with run init Some opened obtain u2 io2 where
        layout: "udf_layout lib (scsi_block_input reader) u1 io1 = Some ((found, u2), io2)"
        by (auto simp: detect_udf_disc_def Let_def split: option.splits)
      with run init Some opened True have "label' = (if found = UDF_DISC_NONE then label
          else case udfread_get_volume_id lib u2 of None \<Rightarrow> [] | Some vol_id \<Rightarrow> copy_volume_id vol_id)"
        by (auto simp: detect_udf_disc_def Let_def)
      then show ?thesis by (cases "udfread_get_volume_id lib u2") (auto split: if_splits)
    qed
  qed
qed

section \<open>Few sectors\<close>

text \<open>A count that no read of a sector raises by more than one.\<close>

definition counts_reads :: "('w sys \<Rightarrow> nat) \<Rightarrow> 'w block_reader \<Rightarrow> bool" where
  "counts_reads count reader \<longleftrightarrow>
     (\<forall>lba bytes s r bytes' s'. reader lba 1 bytes s = Some (r, bytes', s') \<longrightarrow> count s' \<le> count s + 1)"

lemma read_sector_count:
  "counts_reads count reader \<Longrightarrow> iso_read_sector reader lba s = Some (x, s') \<Longrightarrow> count s' \<le> count s + 1"
  by (auto simp: counts_reads_def iso_read_sector_def)

lemma find_in_sectors_count:
  "counts_reads count reader \<Longrightarrow> find_in_sectors reader lba n want want_dir s = Some (x, s') \<Longrightarrow>
     count s' \<le> count s + n"
proof (induction n arbitrary: lba s)
  case (Suc n)
  obtain sector s1 where r: "iso_read_sector reader lba s = Some (sector, s1)"
    using Suc.prems(2) by (auto split: option.splits)
  note one = read_sector_count [OF Suc.prems(1) r]
  have "s' = s1 \<or> find_in_sectors reader (lba + 1) n want want_dir s1 = Some (x, s')"
    using Suc.prems(2) r by (auto split: option.splits)
  with one Suc.IH [OF Suc.prems(1), of "lba + 1" s1] show ?case by auto
qed simp

lemma dir_sectors_bound: "dir_sectors len \<le> 4"
proof -
  have "unat (if 4 < n then 4 else n) \<le> 4" for n :: u32
    by (cases "4 < n") (simp_all add: not_less word_le_nat_alt)
  then show ?thesis by (simp only: dir_sectors_def Let_def)
qed

lemma find_child_count:
  assumes "counts_reads count reader" and "iso_find_child reader dir want want_dir s = Some (x, s')"
  shows "count s' \<le> count s + 4"
proof -
  obtain lba len where dir: "dir = (lba, len)" by fastforce
  have "count s' \<le> count s + dir_sectors len"
    using find_in_sectors_count [OF assms(1)] assms(2) by (simp add: iso_find_child_def dir)
  with dir_sectors_bound [of len] show ?thesis by linarith
qed

lemma try_probe_count:
  assumes c: "counts_reads count reader" and run: "try_probe reader root p s = Some (hit, s')"
  shows "count s' \<le> count s + 9"
proof -
  obtain dir s1 where 1: "iso_find_child reader root (probe_dir p) True s = Some (dir, s1)"
    using run by (auto simp: try_probe_def split: option.splits)
  note b1 = find_child_count [OF c 1]
  show ?thesis
  proof (cases dir)
    case None
    with run 1 b1 show ?thesis by (simp add: try_probe_def)
  next
    case (Some ext)
    obtain info s2 where 2: "iso_find_child reader ext (probe_info p) False s1 = Some (info, s2)"
      using run 1 Some by (auto simp: try_probe_def split: option.splits)
    note b2 = find_child_count [OF c 2]
    have "s' = s2 \<or> (\<exists>lba. iso_info_magic_is reader lba (probe_magic p) s2 = Some (hit, s'))"
      using run 1 2 Some by (auto simp: try_probe_def split: option.splits if_splits)
    then have "count s' \<le> count s2 + 1"
      using read_sector_count [OF c] by (fastforce simp: iso_info_magic_is_def split: option.splits)
    with b1 b2 show ?thesis by linarith
  qed
qed

lemma run_probes_count:
  "counts_reads count reader \<Longrightarrow> run_probes reader root ps s = Some (found, s') \<Longrightarrow>
     count s' \<le> count s + 9 * length ps"
proof (induction ps arbitrary: s)
  case (Cons p ps)
  obtain hit s1 where 1: "try_probe reader root p s = Some (hit, s1)"
    using Cons.prems(2) by (auto split: option.splits)
  note b = try_probe_count [OF Cons.prems(1) 1]
  show ?case
  proof (cases hit)
    case False
    then have "run_probes reader root ps s1 = Some (found, s')" using Cons.prems(2) 1 by simp
    from Cons.IH [OF Cons.prems(1) this] b show ?thesis by simp
  qed (use Cons.prems(2) 1 b in simp)
qed simp

lemma detect_iso_count:
  assumes c: "counts_reads count reader" and run: "detect_iso_video reader base label s = Some (x, s')"
  shows "count s' \<le> count s + 19"
proof -
  have two: "length iso_probes = 2" by (simp add: iso_probes_def)
  from run show ?thesis
  proof (cases rule: detect_iso_cases)
    case (missed sector)
    with read_sector_count [OF c missed(1)] show ?thesis by simp
  next
    case (probed sector s1 root found)
    with read_sector_count [OF c probed(1)] run_probes_count [OF c probed(2)] two show ?thesis by simp
  qed
qed

section \<open>Labels\<close>

definition good_label :: "byte list \<Rightarrow> bool" where
  "good_label label \<longleftrightarrow> length label < LASER_DISC_VOLUME_ID_MAX \<and> 0 \<notin> set label"

lemma cut_back_le: "cut_back src n \<le> n"
  by (induction src n rule: cut_back.induct) auto

lemma copy_volume_id_good: "0 \<notin> set src \<Longrightarrow> good_label (copy_volume_id src)"
  using cut_back_le [of src 32]
  by (auto simp: good_label_def copy_volume_id_def dest: in_set_takeD)

lemma iso_label_good:
  assumes "length field = 32"
  shows "good_label (iso_label field)" and "iso_volume_id_is_printable_ascii (iso_label field)"
proof -
  have "length (trim_padding field) \<le> 32"
    using assms length_dropWhile_le [of _ "rev field"] by (simp add: trim_padding_def)
  moreover have "0 \<notin> set bs" if "iso_volume_id_is_printable_ascii bs" for bs
    using that by (auto simp: iso_volume_id_is_printable_ascii_def list_all_iff)
  ultimately show "good_label (iso_label field)" and "iso_volume_id_is_printable_ascii (iso_label field)"
    by (auto simp: iso_label_def Let_def good_label_def iso_volume_id_is_printable_ascii_def)
qed

lemma detect_iso_label:
  assumes "detect_iso_video reader base label s = Some ((found, label'), s')"
  shows "if found = ISO_VIDEO_NONE then label' = label
    else good_label label' \<and> iso_volume_id_is_printable_ascii label'"
  using assms
proof (cases rule: detect_iso_cases)
  case (probed sector s1 root found')
  then show ?thesis using iso_label_good by (auto split: if_splits)
qed simp

lemma detect_udf_label:
  assumes "\<And>u v. udfread_get_volume_id lib u = Some v \<Longrightarrow> 0 \<notin> set v"
    and "detect_udf_disc lib reader label s = Some ((found, label'), s')"
  shows "if found = UDF_DISC_NONE then label' = label else good_label label'"
  using detect_udf_cases [OF assms(2)] copy_volume_id_good [OF assms(1)]
  by (auto simp: good_label_def)

text \<open>What is true of \<open>out\<close> after every step.\<close>

definition label_ok :: "laser_disc \<Rightarrow> bool" where
  "label_ok out \<longleftrightarrow> good_label (volume_id out) \<and>
     (kind out = LASER_DISC_UNKNOWN \<or> kind out = LASER_DISC_CD_AUDIO \<longrightarrow> volume_id out = []) \<and>
     (kind out = LASER_DISC_VCD \<or> kind out = LASER_DISC_SVCD \<longrightarrow>
        iso_volume_id_is_printable_ascii (volume_id out))"

lemma blank_label_ok: "label_ok blank_disc" "kind blank_disc = LASER_DISC_UNKNOWN"
  by (simp_all add: label_ok_def blank_disc_def good_label_def)

lemma identify_iso_label:
  assumes "identify_iso reader lba out s = Some ((hit, out'), s')" and "label_ok out"
    and "kind out = LASER_DISC_UNKNOWN"
  shows "label_ok out'" and "\<not> hit \<Longrightarrow> out' = out"
proof -
  obtain found label where d: "detect_iso_video reader lba (volume_id out) s = Some ((found, label), s')"
    and r: "(hit, out') = (case iso_kind found of None \<Rightarrow> (False, out\<lparr>volume_id := label\<rparr>)
      | Some k \<Rightarrow> (True, out\<lparr>kind := k, volume_id := label\<rparr>))"
    using assms(1) by (auto simp: identify_iso_def)
  from detect_iso_label [OF d] r assms(2,3) show "label_ok out'" and "\<not> hit \<Longrightarrow> out' = out"
    by (cases found; simp add: label_ok_def)+
qed

lemma identify_udf_label:
  assumes "\<And>u v. udfread_get_volume_id lib u = Some v \<Longrightarrow> 0 \<notin> set v"
    and "identify_udf lib reader out s = Some ((hit, out'), s')" and "label_ok out"
    and "kind out = LASER_DISC_UNKNOWN"
  shows "label_ok out'" and "\<not> hit \<Longrightarrow> out' = out"
proof -
  obtain found label where d: "detect_udf_disc lib reader (volume_id out) s = Some ((found, label), s')"
    and r: "(hit, out') = (case udf_kind found of None \<Rightarrow> (False, out\<lparr>volume_id := label\<rparr>)
      | Some k \<Rightarrow> (True, out\<lparr>kind := k, volume_id := label\<rparr>))"
    using assms(2) by (auto simp: identify_udf_def)
  from detect_udf_label [OF assms(1) d] r assms(3,4) show "label_ok out'" and "\<not> hit \<Longrightarrow> out' = out"
    by (cases found; simp add: label_ok_def)+
qed

section \<open>One rule for the order of the probes\<close>

text \<open>
  A property of the answer that holds of the blank one and of an audio CD's, and that each detector
  keeps, holds of what identification answers. The ISO9660 walk starts where a table of contents that
  opens with a data track says.
\<close>

lemma identify_ready_rule:
  assumes run: "identify_ready lib cmd reader s = Some (out, s')"
    and blank: "P blank_disc" and audio: "P (blank_disc\<lparr>kind := LASER_DISC_CD_AUDIO\<rparr>)"
    and iso: "\<And>base s0 s1 s hit out s'. read_cd_toc cmd s0 = Some ((CD_TOC_DATA, base), s1) \<Longrightarrow>
      identify_iso reader base blank_disc s = Some ((hit, out), s') \<Longrightarrow> P out \<and> (\<not> hit \<longrightarrow> out = blank_disc)"
    and udf: "\<And>s hit out s'. identify_udf lib reader blank_disc s = Some ((hit, out), s') \<Longrightarrow>
      P out \<and> (\<not> hit \<longrightarrow> out = blank_disc)"
  shows "P out"
proof -
  obtain medium s2 where 1: "read_medium cmd s = Some (medium, s2)"
    using run by (auto simp: identify_ready_def split: option.splits)
  obtain toc lba s3 where 2: "(if medium = MEDIUM_CD \<or> medium = MEDIUM_UNKNOWN then read_cd_toc cmd s2
      else Some ((CD_TOC_NONE, 0), s2)) = Some ((toc, lba), s3)"
    using run 1 by (auto simp: identify_ready_def split: option.splits)
  have parsed: "read_cd_toc cmd s2 = Some ((CD_TOC_DATA, lba), s3)" if "toc = CD_TOC_DATA"
    using 2 that by (auto split: if_splits)
  show ?thesis
  proof (cases "toc = CD_TOC_AUDIO")
    case True
    with run 1 2 audio show ?thesis by (simp add: identify_ready_def)
  next
    case False
    obtain hit o1 s4 where 3: "(if medium = MEDIUM_CD \<and> toc = CD_TOC_DATA
        then identify_iso reader lba blank_disc s3 else Some ((False, blank_disc), s3)) = Some ((hit, o1), s4)"
      using run 1 2 False by (auto simp: identify_ready_def split: option.splits)
    have o1: "P o1 \<and> (\<not> hit \<longrightarrow> o1 = blank_disc)"
      using 3 parsed iso blank by (auto split: if_splits)
    show ?thesis
    proof (cases hit)
      case True
      with run 1 2 3 False have "out = o1" by (simp add: identify_ready_def)
      with o1 show ?thesis by simp
    next
      case miss: False
      then have o1_blank: "o1 = blank_disc" using o1 by blast
      obtain hit2 o2 s5 where 4: "identify_udf lib reader blank_disc s4 = Some ((hit2, o2), s5)"
        using run 1 2 3 False miss o1_blank by (auto simp: identify_ready_def split: option.splits)
      note o2 = udf [OF 4]
      show ?thesis
      proof (cases hit2)
        case True
        with run 1 2 3 4 False miss o1_blank have "out = o2" by (simp add: identify_ready_def)
        with o2 show ?thesis by simp
      next
        case miss2: False
        from run 1 2 3 4 False miss o1_blank miss2 o2
        have "out = blank_disc \<or> toc = CD_TOC_DATA \<and>
            (\<exists>hit3. identify_iso reader lba blank_disc s5 = Some ((hit3, out), s'))"
          by (auto simp: identify_ready_def split: if_splits)
        with blank parsed iso show ?thesis by blast
      qed
    qed
  qed
qed

end
