(* ===== verification/Disc_Props.thy ===== *)
theory Disc_Props
  imports Disc_Laws Iso_Props Spinup_Laws Read_Props
begin

text \<open>The properties of disc identification.\<close>

section \<open>Labels\<close>

text \<open>A UTF-8 sequence, as far as cutting is concerned: one to four bytes, of which exactly the first
  is no continuation byte.\<close>

definition continuation :: "byte \<Rightarrow> bool" where
  "continuation b \<longleftrightarrow> b AND 0xC0 = 0x80"

definition utf8_char :: "byte list \<Rightarrow> bool" where
  "utf8_char c \<longleftrightarrow> c \<noteq> [] \<and> length c \<le> 4 \<and> \<not> continuation (hd c) \<and> (\<forall>b \<in> set (tl c). continuation b)"

lemma cut_back_reaches:
  "m \<le> n \<Longrightarrow> m = 0 \<or> \<not> continuation (src ! m) \<Longrightarrow> (\<And>j. m < j \<Longrightarrow> j \<le> n \<Longrightarrow> continuation (src ! j)) \<Longrightarrow>
     cut_back src n = m"
proof (induction n)
  case (Suc n)
  then show ?case by (cases "m = Suc n") (auto simp: continuation_def)
qed simp

text \<open>The most whole characters that fit.\<close>

lemma whole_characters:
  obtains k where "k \<le> length cs" and "length (concat (take k cs)) \<le> n"
    and "k = length cs \<or> n < length (concat (take (Suc k) cs))"
proof -
  define k where "k = (GREATEST k. k \<le> length cs \<and> length (concat (take k cs)) \<le> n)"
  have k: "k \<le> length cs \<and> length (concat (take k cs)) \<le> n"
    unfolding k_def by (rule GreatestI_nat [of _ 0 "length cs"]) simp_all
  have "k = length cs \<or> n < length (concat (take (Suc k) cs))"
  proof (rule ccontr)
    assume not: "\<not> (k = length cs \<or> n < length (concat (take (Suc k) cs)))"
    with k have "Suc k \<le> length cs \<and> length (concat (take (Suc k) cs)) \<le> n" by linarith
    then have "Suc k \<le> k" unfolding k_def by (rule Greatest_le_nat [of _ _ "length cs"]) simp
    then show False by simp
  qed
  with k that show thesis by blast
qed

text \<open>C31: a label longer than the field is cut to the most whole UTF-8 characters that fit, so what is
  handed out is UTF-8 again; a shorter one is copied as it is.\<close>

theorem volume_id_cut_at_character:
  assumes "\<forall>c \<in> set cs. utf8_char c" and "src = concat cs"
  shows "\<exists>k. copy_volume_id src = concat (take k cs) \<and> length (copy_volume_id src) < LASER_DISC_VOLUME_ID_MAX \<and>
    (length cs \<le> k \<or> LASER_DISC_VOLUME_ID_MAX \<le> length (concat (take (Suc k) cs)))"
proof (cases "32 < length src")
  case False
  then show ?thesis using assms(2) by (intro exI [of _ "length cs"]) (simp add: copy_volume_id_def)
next
  case True
  obtain k where k: "k \<le> length cs" "length (concat (take k cs)) \<le> 32"
    "k = length cs \<or> 32 < length (concat (take (Suc k) cs))"
    by (rule whole_characters [of cs 32])
  let ?m = "length (concat (take k cs))"
  have short: "k < length cs" using k True assms(2) by (cases "k = length cs") auto
  have src: "src = concat (take k cs) @ cs ! k @ concat (drop (Suc k) cs)"
    using assms(2) short by (metis append_take_drop_id concat.simps(2) concat_append Cons_nth_drop_Suc)
  have c: "utf8_char (cs ! k)" using assms(1) short by simp
  have longer: "32 < ?m + length (cs ! k)"
    using k(3) short by (simp add: take_Suc_conv_app_nth)
  have "cut_back src 32 = ?m"
  proof (rule cut_back_reaches [OF k(2)])
    have "src ! ?m = hd (cs ! k)" using c by (subst src) (simp add: nth_append utf8_char_def hd_conv_nth)
    then show "?m = 0 \<or> \<not> continuation (src ! ?m)" using c by (simp add: utf8_char_def)
  next
    fix j assume j: "?m < j" "j \<le> 32"
    with longer have inside: "j - ?m < length (cs ! k)" by linarith
    with j have "src ! j = cs ! k ! (j - ?m)" by (subst src) (simp add: nth_append)
    also have "\<dots> = tl (cs ! k) ! (j - ?m - 1)" using j inside by (simp add: nth_tl Suc_diff_Suc)
    finally show "continuation (src ! j)" using c j inside by (simp add: utf8_char_def)
  qed
  then have "copy_volume_id src = concat (take k cs)"
    using True by (simp add: copy_volume_id_def) (subst src, simp)
  with k short show ?thesis by (intro exI [of _ k]) auto
qed

theorem volume_id_cut_at_character_witness:
  "\<exists>k. copy_volume_id (concat (replicate 17 [0xC3, 0xA9 :: byte] @ [[0x41]])) =
       concat (take k (replicate 17 [0xC3, 0xA9] @ [[0x41]])) \<and>
     length (copy_volume_id (concat (replicate 17 [0xC3, 0xA9] @ [[0x41]]))) < LASER_DISC_VOLUME_ID_MAX \<and>
     (length (replicate 17 [0xC3, 0xA9 :: byte] @ [[0x41]]) \<le> k \<or>
      LASER_DISC_VOLUME_ID_MAX \<le> length (concat (take (Suc k) (replicate 17 [0xC3, 0xA9 :: byte] @ [[0x41]]))))"
proof (rule volume_id_cut_at_character [OF _ refl])
  show "\<forall>c \<in> set (replicate 17 [0xC3, 0xA9 :: byte] @ [[0x41]]). utf8_char c"
    by (auto simp: utf8_char_def continuation_def)
qed

section \<open>A sample UDF volume\<close>

text \<open>A volume that is a table of files, and a library that serves it without reading the medium.\<close>

definition table_udf :: "(byte list \<times> byte list) list \<Rightarrow> byte list \<Rightarrow> (unit, 's) udf_lib" where
  "table_udf files label = \<lparr>udfread_init = (\<lambda>s. (Some (), s)),
     udfread_open_input = (\<lambda>inp u s. Some ((0, u), s)),
     udfread_file_open = (\<lambda>inp path u s. Some ((map_option (\<lambda>_. length (takeWhile (\<lambda>e. fst e \<noteq> path) files))
        (map_of files path), u), s)),
     udfread_file_read = (\<lambda>inp f n u s. Some ((int (length (take n (snd (files ! f)))),
        take n (snd (files ! f)), u), s)),
     udfread_file_close = (\<lambda>f u. u), udfread_get_volume_id = (\<lambda>u. Some label),
     udfread_close = (\<lambda>u s. s)\<rparr>"

definition dvd_files :: "(byte list \<times> byte list) list" where
  "dvd_files = [(ascii ''/VIDEO_TS/VIDEO_TS.IFO'', ascii ''DVDVIDEO-VMG0''),
     (ascii ''/AUDIO_TS/AUDIO_TS.IFO'', ascii ''DVD'')]"

text \<open>C36: whatever is found, the label fits its field, holds no terminator and is empty unless a
  filesystem was recognised; a Video CD's is printable ASCII.\<close>

theorem identify_label_wellformed:
  assumes "\<forall>u v. udfread_get_volume_id lib u = Some v \<longrightarrow> 0 \<notin> set v"
    and "laser_disc_identify lib h tk s = Some (out, s')"
  shows "length (volume_id out) < LASER_DISC_VOLUME_ID_MAX \<and> 0 \<notin> set (volume_id out) \<and>
    (kind out = LASER_DISC_UNKNOWN \<or> kind out = LASER_DISC_CD_AUDIO \<longrightarrow> volume_id out = []) \<and>
    (kind out = LASER_DISC_VCD \<or> kind out = LASER_DISC_SVCD \<longrightarrow>
       iso_volume_id_is_printable_ascii (volume_id out))"
proof -
  let ?cmd = "scsi_command h tk" and ?reader = "laser_read_blocks h tk"
  have no_nul: "udfread_get_volume_id lib u = Some v \<Longrightarrow> 0 \<notin> set v" for u v using assms(1) by blast
  have "label_ok out" if "identify_ready lib ?cmd ?reader s1 = Some (out, s')" for s1
    using that
  proof (rule identify_ready_rule)
    show "label_ok (blank_disc\<lparr>kind := LASER_DISC_CD_AUDIO\<rparr>)"
      by (simp add: label_ok_def blank_disc_def good_label_def)
  next
    fix s hit out' s'
    assume "identify_udf lib ?reader blank_disc s = Some ((hit, out'), s')"
    with identify_udf_label [OF _ this blank_label_ok] no_nul
    show "label_ok out' \<and> (\<not> hit \<longrightarrow> out' = blank_disc)" by blast
  qed (use identify_iso_label [OF _ blank_label_ok] blank_label_ok(1) in blast)+
  note ready = this
  have "label_ok out"
    using assms(2) ready blank_label_ok(1)
    by (auto simp: laser_disc_identify_def split: if_splits option.splits)
  then show ?thesis by (simp add: label_ok_def good_label_def)
qed

section \<open>The UDF probes decide\<close>

text \<open>What libudfread documents of a volume: a file opens if it exists, and reading what was opened
  gives its first bytes - from the states of \<open>I\<close>, which it keeps.\<close>

definition volume_holds ::
  "('s \<Rightarrow> bool) \<Rightarrow> ('u, 's) udf_lib \<Rightarrow> 's udf_input \<Rightarrow> (byte list \<Rightarrow> byte list option) \<Rightarrow> bool" where
  "volume_holds I lib inp files \<longleftrightarrow>
     (\<forall>path u s. I s \<longrightarrow> (case files path of
        None \<Rightarrow> (\<exists>u' s'. udfread_file_open lib inp path u s = Some ((None, u'), s') \<and> I s')
      | Some content \<Rightarrow> (\<exists>f u' s'. udfread_file_open lib inp path u s = Some ((Some f, u'), s') \<and> I s' \<and>
          (\<forall>n. \<exists>u'' s''. udfread_file_read lib inp f n u' s' =
             Some ((int (length (take n content)), take n content, u''), s'') \<and> I s''))))"

definition starts_with :: "(byte list \<Rightarrow> byte list option) \<Rightarrow> string \<Rightarrow> string \<Rightarrow> bool" where
  "starts_with files path magic \<longleftrightarrow>
     (\<exists>content. files (ascii path) = Some content \<and> take (length magic) content = ascii magic)"

lemma volume_holds_missing:
  assumes "volume_holds I lib inp files" and "I s" and "files path = None"
  obtains u' s' where "udfread_file_open lib inp path u s = Some ((None, u'), s')" and "I s'"
  using assms(1) [unfolded volume_holds_def, rule_format, OF assms(2), of path u] assms(3) that by auto

lemma volume_holds_file:
  assumes "volume_holds I lib inp files" and "I s" and "files path = Some content"
  obtains f u' s' u'' s'' where "udfread_file_open lib inp path u s = Some ((Some f, u'), s')" and "I s'"
    and "udfread_file_read lib inp f n u' s' =
      Some ((int (length (take n content)), take n content, u''), s'')" and "I s''"
proof -
  from assms(1) [unfolded volume_holds_def, rule_format, OF assms(2), of path u] assms(3)
  obtain f u' s' where "udfread_file_open lib inp path u s = Some ((Some f, u'), s')" "I s'"
    "\<forall>n. \<exists>u'' s''. udfread_file_read lib inp f n u' s' =
       Some ((int (length (take n content)), take n content, u''), s'') \<and> I s''" by auto
  with that show thesis by blast
qed

lemma zone_decides:
  assumes "volume_holds I lib inp files" and "length magic = 12" and "I s"
  shows "\<exists>u' s'. udf_zone_present lib inp path magic u s = Some ((starts_with files path magic, u'), s') \<and> I s'"
proof (cases "files (ascii path)")
  case None
  obtain u' s' where "udfread_file_open lib inp (ascii path) u s = Some ((None, u'), s')" "I s'"
    using assms(1,3) None by (rule volume_holds_missing)
  with None show ?thesis by (simp add: udf_zone_present_def starts_with_def)
next
  case (Some content)
  obtain f u' s' u'' s'' where o: "udfread_file_open lib inp (ascii path) u s = Some ((Some f, u'), s')"
    "udfread_file_read lib inp f 12 u' s' = Some ((int (length (take 12 content)), take 12 content, u''), s'')"
    "I s''"
    using assms(1,3) Some by (rule volume_holds_file)
  have full: "take 12 content = ascii magic \<Longrightarrow> length (take 12 content) = 12"
    using assms(2) by (simp add: ascii_def)
  have hit: "(int (length (take 12 content)) = 12 \<and> take 12 content = ascii magic) = starts_with files path magic"
    using full Some assms(2) by (auto simp: starts_with_def simp del: length_take)
  have "udf_zone_present lib inp path magic u s =
      Some ((int (length (take 12 content)) = 12 \<and> take 12 content = ascii magic, udfread_file_close lib f u''), s'')"
    using o by (simp add: udf_zone_present_def del: length_take)
  then show ?thesis unfolding hit using o(3) by blast
qed

text \<open>The layout of a volume, read off its files.\<close>

definition volume_layout :: "(byte list \<Rightarrow> byte list option) \<Rightarrow> udf_disc" where
  "volume_layout files =
     (if starts_with files ''/VIDEO_TS/VIDEO_TS.IFO'' ''DVDVIDEO-VMG'' then
        (if starts_with files ''/AUDIO_TS/AUDIO_TS.IFO'' ''DVDAUDIO-AMG'' then UDF_DISC_DVD_UNIVERSAL
         else UDF_DISC_DVD_VIDEO)
      else if files (ascii ''/BDMV/index.bdmv'') \<noteq> None then UDF_DISC_BD
      else if starts_with files ''/AUDIO_TS/AUDIO_TS.IFO'' ''DVDAUDIO-AMG'' then UDF_DISC_DVD_AUDIO
      else UDF_DISC_NONE)"

lemma layout_decides:
  assumes "volume_holds I lib inp files" and "I s"
  shows "\<exists>u' s'. udf_layout lib inp u s = Some ((volume_layout files, u'), s') \<and> I s'"
proof -
  have twelve: "length ''DVDVIDEO-VMG'' = 12" "length ''DVDAUDIO-AMG'' = 12" by simp_all
  note video = zone_decides [OF assms(1) twelve(1), of _ "''/VIDEO_TS/VIDEO_TS.IFO''"]
  note audio = zone_decides [OF assms(1) twelve(2), of _ "''/AUDIO_TS/AUDIO_TS.IFO''"]
  obtain u1 s1 where v: "video_zone lib inp u s =
      Some ((starts_with files ''/VIDEO_TS/VIDEO_TS.IFO'' ''DVDVIDEO-VMG'', u1), s1)" "I s1"
    using video [OF assms(2)] unfolding video_zone_def by blast
  have a: "\<exists>u3 s3. audio_zone lib inp u2 s2 =
      Some ((starts_with files ''/AUDIO_TS/AUDIO_TS.IFO'' ''DVDAUDIO-AMG'', u3), s3) \<and> I s3" if "I s2" for u2 s2
    using audio [OF that] unfolding audio_zone_def by blast
  show ?thesis
  proof (cases "starts_with files ''/VIDEO_TS/VIDEO_TS.IFO'' ''DVDVIDEO-VMG''")
    case True
    obtain u3 s3 where "audio_zone lib inp u1 s1 =
        Some ((starts_with files ''/AUDIO_TS/AUDIO_TS.IFO'' ''DVDAUDIO-AMG'', u3), s3)" "I s3" using a [OF v(2)] by blast
    with True v show ?thesis
      by (intro exI [of _ u3] exI [of _ s3]) (simp add: udf_layout_def volume_layout_def)
  next
    case False
    show ?thesis
    proof (cases "files (ascii ''/BDMV/index.bdmv'')")
      case None
      obtain u2 s2 where b: "udfread_file_open lib inp (ascii ''/BDMV/index.bdmv'') u1 s1 = Some ((None, u2), s2)" "I s2"
        using assms(1) v(2) None by (rule volume_holds_missing)
      obtain u3 s3 where "audio_zone lib inp u2 s2 =
          Some ((starts_with files ''/AUDIO_TS/AUDIO_TS.IFO'' ''DVDAUDIO-AMG'', u3), s3)" "I s3" using a [OF b(2)] by blast
      with False v b None show ?thesis
        by (intro exI [of _ u3] exI [of _ s3]) (simp add: udf_layout_def volume_layout_def)
    next
      case (Some content)
      obtain f u2 s2 where
        "udfread_file_open lib inp (ascii ''/BDMV/index.bdmv'') u1 s1 = Some ((Some f, u2), s2)" "I s2"
        using assms(1) v(2) Some by (rule volume_holds_file)
      with False v Some show ?thesis by (auto simp: udf_layout_def volume_layout_def)
    qed
  qed
qed

text \<open>On a mounted volume the UDF probes decide by its files alone: the Video zone by its
  manager's signature, and beside it the Audio zone; without one, BD-Video by its index, and the
  Audio zone only then. An empty AUDIO_TS makes no universal disc.\<close>

theorem udf_layout_decides:
  assumes "volume_holds I lib inp files" and "I s"
  shows "\<exists>u' s'. udf_layout lib inp u s = Some ((
    if starts_with files ''/VIDEO_TS/VIDEO_TS.IFO'' ''DVDVIDEO-VMG'' then
      (if starts_with files ''/AUDIO_TS/AUDIO_TS.IFO'' ''DVDAUDIO-AMG'' then UDF_DISC_DVD_UNIVERSAL
       else UDF_DISC_DVD_VIDEO)
    else if files (ascii ''/BDMV/index.bdmv'') \<noteq> None then UDF_DISC_BD
    else if starts_with files ''/AUDIO_TS/AUDIO_TS.IFO'' ''DVDAUDIO-AMG'' then UDF_DISC_DVD_AUDIO
    else UDF_DISC_NONE, u'), s') \<and> I s'"
  using layout_decides [OF assms] unfolding volume_layout_def .

theorem udf_layout_decides_witness:
  "\<exists>u' s'. udf_layout (table_udf dvd_files []) \<lparr>bi_read = (\<lambda>lba n bytes s. None), bi_size = 0\<rparr> () (0 :: nat) =
     Some ((UDF_DISC_DVD_VIDEO, u'), s')"
proof -
  let ?inp = "\<lparr>bi_read = (\<lambda>lba n bytes s. None), bi_size = 0\<rparr> :: nat udf_input"
  have "volume_holds (\<lambda>_. True) (table_udf dvd_files []) ?inp (map_of dvd_files)"
    by (auto simp: volume_holds_def table_udf_def dvd_files_def split: option.split)
  from udf_layout_decides [OF this, where s = 0 and u = "()"] show ?thesis
    by (simp add: starts_with_def dvd_files_def ascii_def)
qed

section \<open>It answers\<close>

text \<open>libudfread returns when its callback does.\<close>

definition udf_lib_returns :: "('u, 's) udf_lib \<Rightarrow> bool" where
  "udf_lib_returns lib \<longleftrightarrow>
     (\<forall>inp. (\<forall>lba n bs s. bi_read inp lba n bs s \<noteq> None) \<longrightarrow>
        (\<forall>u s. udfread_open_input lib inp u s \<noteq> None) \<and>
        (\<forall>path u s. udfread_file_open lib inp path u s \<noteq> None) \<and>
        (\<forall>f n u s. udfread_file_read lib inp f n u s \<noteq> None))"

lemma first_data_track_within:
  "length toc = 128 \<Longrightarrow> i + n \<le> 15 \<Longrightarrow> first_data_track toc i n \<noteq> None"
  by (induction toc i n rule: first_data_track.induct) simp_all

lemma parse_toc_within:
  assumes "length toc = 128"
  shows "parse_toc toc got \<noteq> None"
proof -
  have few: "((if 128 < n then 128 else n) - 4) div 8 \<le> 15" for n :: nat
    using div_le_mono [of "n - 4" 124 8] by simp
  have "first_data_track toc 0 (((if 128 < n then 128 else n) - 4) div 8) \<noteq> None" for n
    using first_data_track_within [OF assms, of 0] few [of n] by simp
  then have track: "Option.bind (first_data_track toc 0 (((if 128 < n then 128 else n) - 4) div 8))
      (\<lambda>lba. Some (f lba)) \<noteq> None" for n and f :: "u32 \<Rightarrow> cd_toc \<times> u32"
    by (simp only: bind_eq_None_conv option.distinct simp_thms not_False_eq_True)
  have bytes: "rd toc 0 = Some (toc ! 0)" "rd toc 1 = Some (toc ! 1)" "rd toc 5 = Some (toc ! 5)"
    using assms by simp_all
  show ?thesis
  proof (cases "unat (toc ! 0) * 256 + unat (toc ! 1) + 2 < 4 + 8")
    case True
    then show ?thesis unfolding parse_toc_def bytes by (simp add: Let_def)
  next
    case False
    show ?thesis unfolding parse_toc_def bytes Let_def Option.bind.simps if_not_P [OF False]
      by (rule track)
  qed
qed

lemma zone_returns:
  assumes "\<And>path u s. udfread_file_open lib inp path u s \<noteq> None"
    and "\<And>f n u s. udfread_file_read lib inp f n u s \<noteq> None"
  shows "udf_zone_present lib inp path magic u s \<noteq> None"
proof -
  obtain f u1 s1 where 1: "udfread_file_open lib inp (ascii path) u s = Some ((f, u1), s1)"
    using assms(1) [of "ascii path" u s] by auto
  show ?thesis
  proof (cases f)
    case (Some f')
    obtain got bs u2 s2 where "udfread_file_read lib inp f' 12 u1 s1 = Some ((got, bs, u2), s2)"
      using assms(2) [of f' 12 u1 s1] by auto
    with 1 Some show ?thesis by (simp add: udf_zone_present_def)
  qed (use 1 in \<open>simp add: udf_zone_present_def\<close>)
qed

lemma layout_returns:
  assumes "\<And>path u s. udfread_file_open lib inp path u s \<noteq> None"
    and "\<And>f n u s. udfread_file_read lib inp f n u s \<noteq> None"
  shows "udf_layout lib inp u s \<noteq> None"
proof -
  note zone = zone_returns [OF assms]
  obtain video u1 s1 where v: "video_zone lib inp u s = Some ((video, u1), s1)"
    using zone unfolding video_zone_def by fastforce
  have a: "audio_zone lib inp u' s' \<noteq> None" for u' s' using zone unfolding audio_zone_def by blast
  obtain f u2 s2 where b: "udfread_file_open lib inp (ascii ''/BDMV/index.bdmv'') u1 s1 = Some ((f, u2), s2)"
    using assms(1) [of "ascii ''/BDMV/index.bdmv''" u1 s1] by auto
  show ?thesis using v a [of u1 s1] a [of u2 s2] b by (cases video; cases f) (simp_all add: udf_layout_def)
qed

lemma detect_udf_returns:
  assumes lib: "udf_lib_returns lib" and reader: "\<And>lba n bs s. reader lba n bs s \<noteq> None"
  shows "detect_udf_disc lib reader label s \<noteq> None"
proof -
  let ?inp = "scsi_block_input reader"
  have "udf_read_cb reader lba n bs io \<noteq> None" for lba n bs io
    using reader [of lba "sint n" bs "snd io"] by (auto simp: udf_read_cb_def Let_def split: prod.split option.split)
  then have "\<forall>lba n bs io. bi_read ?inp lba n bs io \<noteq> None"
    by (simp only: scsi_block_input_def udf_input.simps) simp
  with lib have "(\<forall>u x. udfread_open_input lib ?inp u x \<noteq> None) \<and>
      (\<forall>path u x. udfread_file_open lib ?inp path u x \<noteq> None) \<and>
      (\<forall>f n u x. udfread_file_read lib ?inp f n u x \<noteq> None)"
    unfolding udf_lib_returns_def by blast
  then have ops: "udfread_open_input lib ?inp u x \<noteq> None" "udfread_file_open lib ?inp path u x \<noteq> None"
    "udfread_file_read lib ?inp f n u x \<noteq> None" for u x path f n by blast+
  obtain u io where init: "udfread_init lib (False, s) = (u, io)" by (rule prod.exhaust)
  show ?thesis
  proof (cases u)
    case (Some u')
    obtain ret u1 io1 where opened: "udfread_open_input lib ?inp u' io = Some ((ret, u1), io1)"
      using ops(1) [of u' io] by auto
    obtain found u2 io2 where "udf_layout lib ?inp u1 io1 = Some ((found, u2), io2)"
      using layout_returns [OF ops(2,3)] by fastforce
    with init Some opened show ?thesis by (simp add: detect_udf_disc_def Let_def)
  qed (use init in \<open>simp add: detect_udf_disc_def Let_def\<close>)
qed

lemma settle_returns:
  assumes "clock_monotonic h now_ns"
  shows "laser_token_settle h tk s \<noteq> None"
proof -
  obtain w where "laser_wait_until_ready (laser_bot_send_locked h) h = (\<lambda>x. Some (w x))"
    using bot.wait_until_ready_total [OF assms] by blast
  then show ?thesis by (simp add: laser_token_settle_def case_prod_unfold split: option.split)
qed

lemma identify_ready_returns:
  assumes reader: "sector_reader h reader" and host: "serviceable h" and all: "\<And>lba n bs s. reader lba n bs s \<noteq> None"
    and cmd: "\<And>cdb n data len inward act s. cmd cdb n data len inward act s \<noteq> None"
    and toc_length: "\<And>out s s'. cmd read_toc_cdb 10 (Some (replicate 128 0)) 128 True (Some 0) s = Some (out, s') \<Longrightarrow>
      \<exists>bs. o_data out = Some bs \<and> length bs = 128"
    and lib: "udf_lib_returns lib"
  shows "identify_ready lib cmd reader s \<noteq> None"
proof -
  obtain out s1 where "cmd get_configuration_cdb 10 (Some (replicate 32 0)) 32 True (Some 0) s = Some (out, s1)"
    using cmd by fastforce
  then have "\<exists>medium. read_medium cmd s = Some (medium, s1)"
    by (cases "status out = LASER_OK \<and> \<not> the (o_actual out) < 8") (auto simp: read_medium_def Let_def)
  then obtain medium where 1: "read_medium cmd s = Some (medium, s1)" by blast
  obtain out' s2 where t: "cmd read_toc_cdb 10 (Some (replicate 128 0)) 128 True (Some 0) s1 = Some (out', s2)"
    using cmd by fastforce
  then obtain bs where "o_data out' = Some bs" "length bs = 128" using toc_length by blast
  then have "read_cd_toc cmd s1 \<noteq> None" using t parse_toc_within by (simp add: read_cd_toc_def)
  then obtain toc lba s3 where 2: "(if medium = MEDIUM_CD \<or> medium = MEDIUM_UNKNOWN then read_cd_toc cmd s1
      else Some ((CD_TOC_NONE, 0), s1)) = Some ((toc, lba), s3)"
    by (cases "medium = MEDIUM_CD \<or> medium = MEDIUM_UNKNOWN") auto
  have iso: "identify_iso reader lba' o' s' \<noteq> None" for lba' o' s'
    using sector_reader.identify_iso_returns [OF reader host] .
  have udf: "identify_udf lib reader o' s' \<noteq> None" for o' s'
    using detect_udf_returns [OF lib all] by (simp add: identify_udf_def)
  obtain hit o1 s4 where 3: "(if medium = MEDIUM_CD \<and> toc = CD_TOC_DATA
      then identify_iso reader lba blank_disc s3 else Some ((False, blank_disc), s3)) = Some ((hit, o1), s4)"
    using iso [of lba blank_disc s3] by (cases "medium = MEDIUM_CD \<and> toc = CD_TOC_DATA") auto
  obtain hit2 o2 s5 where 4: "identify_udf lib reader o1 s4 = Some ((hit2, o2), s5)"
    using udf [of o1 s4] by auto
  obtain hit3 o3 s6 where "identify_iso reader lba o2 s5 = Some ((hit3, o3), s6)"
    using iso [of lba o2 s5] by auto
  with 1 2 3 4 show ?thesis
    by (cases "toc = CD_TOC_AUDIO"; cases hit; cases hit2) (simp_all add: identify_ready_def)
qed

lemma read_blocks_answers:
  assumes "serviceable h"
  shows "laser_read_blocks h tk lba n bs s \<noteq> None"
proof -
  obtain now_ns changes where docs: "clock_monotonic h now_ns"
    "finitely_many_changes (laser_bot_send_locked h) h changes"
    using assms by (auto simp: serviceable_def)
  from read_loop_answers [where cmd = "scsi_command h tk", OF scsi_command_answers [OF docs]]
  show ?thesis by (simp add: laser_read_blocks_def read_chunked_def)
qed

text \<open>The library's reads are such a reader.\<close>

interpretation blocks: sector_reader h "laser_read_blocks h tk" for h tk
proof
  fix bytes :: "byte list" and lba s
  assume host: "serviceable h" and len: "length bytes = ISO_SECTOR_SIZE"
  obtain r bytes' s' where run: "laser_read_blocks h tk lba 1 bytes s = Some (r, bytes', s')"
    using read_blocks_answers [OF host] by (metis not_None_eq prod_cases3)
  have "usb_bounded h" using host by (simp add: serviceable_def)
  from scsi.read_chunked_contract [OF this _ _ _ run [unfolded laser_read_blocks_def]] len
  have "length bytes' = ISO_SECTOR_SIZE" by simp
  with run show "\<exists>r bytes' s'. laser_read_blocks h tk lba 1 bytes s = Some (r, bytes', s') \<and>
      length bytes' = ISO_SECTOR_SIZE" by simp
qed

lemma identify_returns:
  assumes host: "serviceable h" and lib: "udf_lib_returns lib"
  shows "\<exists>out s'. laser_disc_identify lib h tk s = Some (out, s')"
proof -
  let ?cmd = "scsi_command h tk" and ?reader = "laser_read_blocks h tk"
  obtain now_ns changes where docs: "usb_bounded h" "clock_monotonic h now_ns"
    "finitely_many_changes (laser_bot_send_locked h) h changes"
    using host by (auto simp: serviceable_def)
  have "\<exists>bs. o_data out = Some bs \<and> length bs = 128"
    if "?cmd read_toc_cdb 10 (Some (replicate 128 0)) 128 True (Some 0) s1 = Some (out, s2)" for out s1 s2
    using scsi.cmd_buffer [OF docs(1) that] by auto
  then have ready: "identify_ready lib ?cmd ?reader s1 \<noteq> None" for s1
    by (intro identify_ready_returns [OF blocks.sector_reader_axioms host] lib read_blocks_answers [OF host]
        scsi_command_answers [OF docs(2,3)])
  have "laser_disc_identify lib h tk s \<noteq> None"
    using settle_returns [OF docs(2), of tk s] ready
    by (auto simp: laser_disc_identify_def split: option.split)
  then show ?thesis by auto
qed

lemma sim_serviceable: "serviceable sim_host"
  using sim_usb_bounded sim_clock_monotonic sim_finitely_many_changes unfolding serviceable_def by blast

lemma table_udf_returns: "udf_lib_returns (table_udf files label)"
  by (simp add: udf_lib_returns_def table_udf_def)

text \<open>C23: identification always answers - on any drive whose clock runs and which reports a medium
  change finitely often, whatever bytes the disc holds - and never reads outside the sector, the
  table of contents or the label field it is looking at.\<close>

theorem identify_answers:
  assumes "usb_bounded h" and "clock_monotonic h now_ns"
    and "finitely_many_changes (laser_bot_send_locked h) h changes" and "udf_lib_returns lib"
  shows "\<exists>out s'. laser_disc_identify lib h tk s = Some (out, s')"
  using assms by (intro identify_returns) (auto simp: serviceable_def)

theorem identify_answers_witness:
  "\<exists>out s'. laser_disc_identify (table_udf dvd_files (ascii ''FILM'')) sim_host 42
     (sim_sys sim_entry [Answer [] 0]) = Some (out, s')"
  by (rule identify_answers [OF sim_usb_bounded sim_clock_monotonic sim_finitely_many_changes table_udf_returns])

theorem identify_label_wellformed_witness:
  "\<exists>out s'. laser_disc_identify (table_udf dvd_files (ascii ''FILM'')) sim_host 42
     (sim_sys sim_entry [Answer [] 0]) = Some (out, s') \<and>
    length (volume_id out) < LASER_DISC_VOLUME_ID_MAX \<and> 0 \<notin> set (volume_id out) \<and>
    (kind out = LASER_DISC_UNKNOWN \<or> kind out = LASER_DISC_CD_AUDIO \<longrightarrow> volume_id out = []) \<and>
    (kind out = LASER_DISC_VCD \<or> kind out = LASER_DISC_SVCD \<longrightarrow>
       iso_volume_id_is_printable_ascii (volume_id out))"
proof -
  let ?lib = "table_udf dvd_files (ascii ''FILM'') :: (unit, sim udf_io) udf_lib"
  obtain out s' where run: "laser_disc_identify ?lib sim_host 42 (sim_sys sim_entry [Answer [] 0]) = Some (out, s')"
    using identify_returns [OF sim_serviceable table_udf_returns] by blast
  have "\<forall>u v. udfread_get_volume_id ?lib u = Some v \<longrightarrow> 0 \<notin> set v"
    by (simp add: table_udf_def ascii_def)
  from run identify_label_wellformed [OF this run] show ?thesis by blast
qed

section \<open>It ends soon\<close>

text \<open>The walk for a Video CD reads at most 19 sectors, whatever lengths the disc claims.\<close>

theorem video_cd_walk_bounded:
  assumes "\<forall>lba bytes s r bytes' s'. reader lba 1 bytes s = Some (r, bytes', s') \<longrightarrow> count s' \<le> count s + (1 :: nat)"
    and "detect_iso_video reader base label s = Some (x, s')"
  shows "count s' \<le> count s + 19"
  using detect_iso_count [of count reader, OF _ assms(2)] assms(1) by (simp add: counts_reads_def)

text \<open>A disc every sector of which is a volume descriptor claiming a root directory of 4 GB.\<close>

definition greedy_sector :: "byte list" where
  "greedy_sector = [0x01] @ ascii ''CD001'' @ replicate 152 0 @ [16, 0, 0, 0, 0, 0, 0, 0, 0, 0xF0, 0xFF, 0xFF] @
     replicate 1878 0"

definition greedy_reader :: "sim block_reader" where
  "greedy_reader lba n bytes s = Some (1, greedy_sector, s\<lparr>trace := trace s @ [Ev_Sleep 0]\<rparr>)"

theorem video_cd_walk_bounded_witness:
  "\<exists>x s'. detect_iso_video greedy_reader 0 [] (sim_sys sim_entry []) = Some (x, s') \<and>
    length (trace s') \<le> length (trace (sim_sys sim_entry [])) + 19"
proof -
  have "sector_reader sim_host greedy_reader"
    by unfold_locales (simp add: greedy_reader_def greedy_sector_def ascii_def)
  then obtain x s' where run: "detect_iso_video greedy_reader 0 [] (sim_sys sim_entry []) = Some (x, s')"
    using sector_reader.detect_iso_returns [OF _ sim_serviceable, of greedy_reader 0 "[]" "sim_sys sim_entry []"]
    by auto
  have "\<forall>lba bytes s r bytes' s'. greedy_reader lba 1 bytes s = Some (r, bytes', s') \<longrightarrow>
      length (trace s') \<le> length (trace s) + 1"
    by (auto simp: greedy_reader_def)
  from run video_cd_walk_bounded [OF this run] show ?thesis by blast
qed

end
