(* ===== verification/Iso_Image.thy ===== *)
theory Iso_Image
  imports Iso_Props
begin

text \<open>
  What the Video CD walk finds, read off the disc itself: the specification over an image, without
  sectors being read, limits on them or a state; and the walk's agreement with it for any reader that
  hands over what is on the disc (locale \<open>image_reader\<close>).
\<close>

section \<open>The disc as an image\<close>

type_synonym image = "u32 \<Rightarrow> byte list"

text \<open>The records of a directory, over as many of its sectors as the walk looks at.\<close>

definition directory :: "image \<Rightarrow> u32 \<Rightarrow> nat \<Rightarrow> byte list list" where
  "directory disc lba n = concat (map (\<lambda>i. dir_records (disc (lba + of_nat i))) [0..<n])"

text \<open>All sectors of a small directory, four of a large one - and none of one whose length, rounded up
  to sectors, leaves 32 bits.\<close>

definition listed_sectors :: "u32 \<Rightarrow> nat" where
  "listed_sectors len = min 4 ((unat len + 2047) mod 2 ^ 32 div 2048)"

definition child_in :: "image \<Rightarrow> extent \<Rightarrow> byte list \<Rightarrow> bool \<Rightarrow> extent option" where
  "child_in disc dir want want_dir =
     (case dir of (lba, len) \<Rightarrow>
        map_option extent_of (List.find (names_child want want_dir) (directory disc lba (listed_sectors len))))"

definition volume_root :: "image \<Rightarrow> u32 \<Rightarrow> extent option" where
  "volume_root disc base =
     (let pvd = disc (base + 16) in
      if take 6 pvd = 0x01 # ascii ''CD001'' \<and> le32_of pvd 166 \<noteq> 0
      then Some (le32_of pvd 158, le32_of pvd 166) else None)"

text \<open>The layout of one kind: its directory in the root, its information file in that, at least eight
  bytes long and opening with the signature.\<close>

definition holds_layout :: "image \<Rightarrow> extent \<Rightarrow> iso_probe \<Rightarrow> bool" where
  "holds_layout disc root p \<longleftrightarrow>
     (\<exists>dir lba len. child_in disc root (probe_dir p) True = Some dir \<and>
        child_in disc dir (probe_info p) False = Some (lba, len) \<and> 8 \<le> len \<and>
        take 8 (disc lba) = probe_magic p)"

definition video_layout :: "image \<Rightarrow> u32 \<Rightarrow> iso_probe option" where
  "video_layout disc base =
     (case volume_root disc base of None \<Rightarrow> None | Some root \<Rightarrow> List.find (holds_layout disc root) iso_probes)"

definition volume_label :: "image \<Rightarrow> u32 \<Rightarrow> byte list" where
  "volume_label disc base = iso_label (take 32 (drop 40 (disc (base + 16))))"

lemma directory_Suc:
  "directory disc lba (Suc n) = dir_records (disc lba) @ directory disc (lba + 1) n"
proof -
  have "[0..<Suc n] = 0 # map Suc [0..<n]" by (simp add: upt_conv_Cons map_Suc_upt del: upt_Suc)
  then show ?thesis by (simp add: directory_def o_def ac_simps del: upt_Suc)
qed

lemma find_append:
  "List.find P (xs @ ys) = (case List.find P xs of Some x \<Rightarrow> Some x | None \<Rightarrow> List.find P ys)"
  by (induction xs) auto

text \<open>The code rounds the length up in 32 bits.\<close>

lemma dir_sectors_listed: "dir_sectors len = listed_sectors len"
proof -
  have "unat (len + 2047) = (unat len + 2047) mod 2 ^ 32"
    by (simp add: unat_word_ariths(1))
  moreover have "len + 2048 - 1 = len + 2047" by simp
  ultimately have n: "unat ((len + 2048 - 1) div 2048) = (unat len + 2047) mod 2 ^ 32 div 2048"
    by (simp only: unat_div_distrib) simp
  have "dir_sectors len = (if 4 < unat ((len + 2048 - 1) div 2048) then 4 else unat ((len + 2048 - 1) div 2048))"
    by (simp add: dir_sectors_def Let_def word_less_nat_alt)
  then show ?thesis unfolding n by (simp add: listed_sectors_def min_def)
qed

lemma child_in_sectors:
  "child_in disc (lba, len) want want_dir =
     map_option extent_of (List.find (names_child want want_dir) (directory disc lba (dir_sectors len)))"
  by (simp add: child_in_def dir_sectors_listed)

section \<open>A reader that hands over the disc\<close>

text \<open>\<open>honest\<close> is the condition under which it does: for the library's reads, a drive that serves
  the disc.\<close>

locale image_reader =
  fixes honest :: bool and reader :: "'w block_reader" and disc :: image
  assumes disc_size: "honest \<Longrightarrow> length (disc lba) = ISO_SECTOR_SIZE"
    and hands_over: "honest \<Longrightarrow> length bytes = ISO_SECTOR_SIZE \<Longrightarrow>
      reader lba 1 bytes s = Some (1, bytes', s') \<Longrightarrow> bytes' = disc lba"

text \<open>No read fails, from the states of an invariant on.\<close>

definition reads_work :: "('w sys \<Rightarrow> bool) \<Rightarrow> 'w block_reader \<Rightarrow> 'w sys \<Rightarrow> bool" where
  "reads_work I reader s \<longleftrightarrow> I s \<and>
     (\<forall>lba bytes s r bytes' s'. I s \<longrightarrow> length bytes = ISO_SECTOR_SIZE \<longrightarrow>
        reader lba 1 bytes s = Some (r, bytes', s') \<longrightarrow> r = 1 \<and> I s')"

context image_reader
begin

lemma read_sector:
  assumes "honest" and "iso_read_sector reader lba s = Some (sector, s')"
  shows "sector = None \<or> sector = Some (disc lba)"
    and "reads_work I reader s \<Longrightarrow> sector \<noteq> None \<and> reads_work I reader s'"
proof -
  obtain r bytes' where r: "reader lba 1 (replicate ISO_SECTOR_SIZE 0) s = Some (r, bytes', s')"
    "sector = (if r = 1 then Some bytes' else None)"
    using assms(2) by (auto simp: iso_read_sector_def)
  show "sector = None \<or> sector = Some (disc lba)"
    using r hands_over [OF assms(1), of "replicate ISO_SECTOR_SIZE 0" lba s bytes' s'] by auto
  show "reads_work I reader s \<Longrightarrow> sector \<noteq> None \<and> reads_work I reader s'"
    using r unfolding reads_work_def by (metis length_replicate option.distinct(1))
qed

text \<open>What is found is there, and what is there is found when every read works.\<close>

lemma sectors_agree:
  assumes "honest"
  shows "find_in_sectors reader lba n want want_dir s = Some (x, s') \<Longrightarrow>
    (x = None \<and> \<not> reads_work I reader s \<or>
     x = map_option extent_of (List.find (names_child want want_dir) (directory disc lba n))) \<and>
    (reads_work I reader s \<longrightarrow> reads_work I reader s')"
proof (induction n arbitrary: lba s)
  case 0
  then show ?case by (simp add: directory_def)
next
  case (Suc n)
  obtain sector s1 where r: "iso_read_sector reader lba s = Some (sector, s1)"
    using Suc.prems by (auto split: option.splits)
  note there = read_sector [OF assms r]
  show ?case
  proof (cases sector)
    case None
    with Suc.prems r there(2) [of I] show ?thesis by auto
  next
    case (Some bs)
    with there(1) have bs: "bs = disc lba" by simp
    have scan: "scan_records bs 0 want want_dir =
        Some (map_option extent_of (List.find (names_child want want_dir) (dir_records bs)))"
      using scan_records_list [of bs 0] disc_size [OF assms] bs by simp
    show ?thesis
    proof (cases "List.find (names_child want want_dir) (dir_records bs)")
      case None
      with Suc.prems r Some scan have "find_in_sectors reader (lba + 1) n want want_dir s1 = Some (x, s')"
        by simp
      from Suc.IH [OF this] None bs there(2) [of I] show ?thesis by (auto simp: directory_Suc find_append)
    next
      case (Some rec)
      with Suc.prems r \<open>sector = Some bs\<close> scan have "x = Some (extent_of rec)" "s' = s1" by simp_all
      with Some bs there(2) [of I] show ?thesis by (auto simp: directory_Suc find_append)
    qed
  qed
qed

lemma child_agrees:
  assumes "honest" and "iso_find_child reader dir want want_dir s = Some (x, s')"
  shows "x = None \<and> \<not> reads_work I reader s \<or> x = child_in disc dir want want_dir"
    and "reads_work I reader s \<Longrightarrow> reads_work I reader s'"
  using sectors_agree [OF assms(1), where I = I] assms(2)
  by (cases dir; fastforce simp: iso_find_child_def child_in_sectors)+

lemma magic_agrees:
  assumes "honest" and "iso_info_magic_is reader lba magic s = Some (hit, s')"
  shows "(\<not> hit \<and> \<not> reads_work I reader s \<or> hit = (take 8 (disc lba) = magic)) \<and>
    (reads_work I reader s \<longrightarrow> reads_work I reader s')"
proof -
  obtain sector s1 where r: "iso_read_sector reader lba s = Some (sector, s1)"
    using assms(2) by (auto simp: iso_info_magic_is_def split: option.splits)
  note there = read_sector [OF assms(1) r]
  show ?thesis
  proof (cases sector)
    case None
    with assms(2) r there(2) [of I] show ?thesis by (auto simp: iso_info_magic_is_def)
  next
    case (Some bs)
    with there(1) have "bs = disc lba" by simp
    with assms(2) r Some rd_range_within [of 0 8 "disc lba"] disc_size [OF assms(1), of lba]
    have "hit = (take 8 (disc lba) = magic)" "s' = s1" by (simp_all add: iso_info_magic_is_def)
    with there(2) [of I] show ?thesis by blast
  qed
qed

lemma probe_agrees:
  assumes "honest" and run: "try_probe reader root p s = Some (hit, s')"
  shows "(\<not> hit \<and> \<not> reads_work I reader s \<or> hit = holds_layout disc root p) \<and>
    (reads_work I reader s \<longrightarrow> reads_work I reader s')"
proof -
  obtain dir s1 where 1: "iso_find_child reader root (probe_dir p) True s = Some (dir, s1)"
    using run by (auto simp: try_probe_def split: option.splits)
  note dir = child_agrees [OF assms(1) 1, where I = I]
  show ?thesis
  proof (cases dir)
    case None
    with run 1 dir show ?thesis by (auto simp: try_probe_def holds_layout_def)
  next
    case (Some ext)
    obtain info s2 where 2: "iso_find_child reader ext (probe_info p) False s1 = Some (info, s2)"
      using run 1 Some by (auto simp: try_probe_def split: option.splits)
    note info = child_agrees [OF assms(1) 2, where I = I]
    show ?thesis
    proof (cases info)
      case None
      with run 1 2 Some dir info show ?thesis by (auto simp: try_probe_def holds_layout_def)
    next
      case info_at: (Some i)
      obtain lba len where i: "i = (lba, len)" by fastforce
      have there: "child_in disc root (probe_dir p) True = Some ext"
        "child_in disc ext (probe_info p) False = Some (lba, len)"
        using dir info Some info_at i by auto
      show ?thesis
      proof (cases "len < 8")
        case True
        with run 1 2 Some info_at i there dir(2) info(2) show ?thesis
          by (auto simp: try_probe_def holds_layout_def)
      next
        case False
        with run 1 2 Some info_at i have "iso_info_magic_is reader lba (probe_magic p) s2 = Some (hit, s')"
          by (simp add: try_probe_def)
        from magic_agrees [OF assms(1) this, where I = I] False there dir(2) info(2) show ?thesis
          by (auto simp: holds_layout_def not_less)
      qed
    qed
  qed
qed

lemma probes_agree:
  assumes "honest"
  shows "run_probes reader root ps s = Some (found, s') \<Longrightarrow>
    (found = ISO_VIDEO_NONE \<or> (\<exists>p \<in> set ps. found = probe_kind p \<and> holds_layout disc root p)) \<and>
    (reads_work I reader s \<longrightarrow> reads_work I reader s' \<and>
       found = (case List.find (holds_layout disc root) ps of None \<Rightarrow> ISO_VIDEO_NONE | Some p \<Rightarrow> probe_kind p))"
proof (induction ps arbitrary: s)
  case (Cons p ps)
  obtain hit s1 where 1: "try_probe reader root p s = Some (hit, s1)"
    using Cons.prems by (auto split: option.splits)
  note agrees = probe_agrees [OF assms 1, where I = I]
  show ?case
  proof (cases hit)
    case True
    with Cons.prems 1 agrees show ?thesis by auto
  next
    case False
    with Cons.prems 1 have "run_probes reader root ps s1 = Some (found, s')" by simp
    from Cons.IH [OF this] False agrees show ?thesis by auto
  qed
qed simp

lemma detect_agrees:
  assumes "honest" and run: "detect_iso_video reader base label s = Some ((found, label'), s')"
  shows "found \<noteq> ISO_VIDEO_NONE \<Longrightarrow> (\<exists>root p. volume_root disc base = Some root \<and> p \<in> set iso_probes \<and>
      found = probe_kind p \<and> holds_layout disc root p) \<and> label' = volume_label disc base"
    and "reads_work I reader s \<Longrightarrow>
      found = (case video_layout disc base of None \<Rightarrow> ISO_VIDEO_NONE | Some p \<Rightarrow> probe_kind p)"
    and "reads_work I reader s \<Longrightarrow> reads_work I reader s'"
proof -
  have "(found \<noteq> ISO_VIDEO_NONE \<longrightarrow> (\<exists>root p. volume_root disc base = Some root \<and> p \<in> set iso_probes \<and>
      found = probe_kind p \<and> holds_layout disc root p) \<and> label' = volume_label disc base) \<and>
    (reads_work I reader s \<longrightarrow> reads_work I reader s' \<and>
      found = (case video_layout disc base of None \<Rightarrow> ISO_VIDEO_NONE | Some p \<Rightarrow> probe_kind p))"
  proof -
    obtain sector s1 where r: "iso_read_sector reader (base + 16) s = Some (sector, s1)"
      using run by (auto simp: detect_iso_video_def split: option.splits)
    note there = read_sector [OF assms(1) r]
    show ?thesis
    proof (cases sector)
      case None
      with run r there(2) [of I] show ?thesis by (auto simp: detect_iso_video_def)
    next
      case (Some pvd)
      with there(1) have pvd: "pvd = disc (base + 16)" by simp
      have len: "length pvd = ISO_SECTOR_SIZE" using disc_size [OF assms(1)] pvd by simp
      have parts: "rd_range pvd 0 6 = Some (take 6 pvd)" "rd_range pvd 40 32 = Some (take 32 (drop 40 pvd))"
        "iso_le32 pvd 158 = Some (le32_of pvd 158)" "iso_le32 pvd 166 = Some (le32_of pvd 166)"
        using len rd_range_within [of 0 6 pvd] rd_range_within [of 40 32 pvd] by (simp_all add: iso_le32_of)
      note code = run [unfolded detect_iso_video_def r Some option.case prod.case, simplified parts, simplified]
      show ?thesis
      proof (cases "volume_root disc base")
        case None
        with code pvd parts there(2) [of I] show ?thesis
          by (auto simp: volume_root_def video_layout_def Let_def split: if_splits)
      next
        case (Some root)
        then have root: "root = (le32_of pvd 158, le32_of pvd 166)" "le32_of pvd 166 \<noteq> 0"
          "take 6 pvd = 0x01 # ascii ''CD001''"
          using pvd by (auto simp: volume_root_def Let_def split: if_splits)
        obtain kind s2 where p: "run_probes reader root iso_probes s1 = Some (kind, s2)"
          using code root parts by (auto split: option.splits)
        have "s' = s2 \<and> found = kind \<and> (kind \<noteq> ISO_VIDEO_NONE \<longrightarrow> label' = volume_label disc base)"
          using code root parts p pvd by (cases kind) (auto simp: volume_label_def)
        with probes_agree [OF assms(1) p, where I = I] there(2) [of I] Some show ?thesis
          by (auto simp: video_layout_def split: option.splits)
      qed
    qed
  qed
  then show "found \<noteq> ISO_VIDEO_NONE \<Longrightarrow> (\<exists>root p. volume_root disc base = Some root \<and> p \<in> set iso_probes \<and>
      found = probe_kind p \<and> holds_layout disc root p) \<and> label' = volume_label disc base"
    and "reads_work I reader s \<Longrightarrow>
      found = (case video_layout disc base of None \<Rightarrow> ISO_VIDEO_NONE | Some p \<Rightarrow> probe_kind p)"
    and "reads_work I reader s \<Longrightarrow> reads_work I reader s'" by blast+
qed

end

end
