(* ===== verification/Video_CD.thy ===== *)
theory Video_CD
  imports Disc_Props Iso_Image
begin

text \<open>
  Identification of Video CDs from end to end: what is reported is on the disc, whatever reads fail on
  the way, and what is on the disc is reported when they do not. The contract between the reads and the
  walk is the locale \<open>image_reader\<close>, interpreted here on \<open>laser_read_blocks()\<close>.
\<close>

section \<open>The library's reads hand over the disc\<close>

lemma read_one_block:
  assumes "usb_bounded h" and "drive_serves h build_read10_cdb 10 2048 disc" and "length bytes = ISO_SECTOR_SIZE"
    and "laser_read_blocks h tk lba 1 bytes s = Some (1, bytes', s')"
  shows "bytes' = disc lba"
proof -
  have room: "nat (1 * 2048) \<le> length bytes" "(1 :: int) * 2048 < 2 ^ 31" using assms(3) by simp_all
  have "take (nat 1 * nat 2048) bytes' = disc_bytes disc lba (nat 1)"
    by (rule scsi.read_chunked_content [OF assms(1) _ room scsi_command_serves [OF assms(2)]
        assms(4) [unfolded laser_read_blocks_def]]) simp_all
  moreover have "length bytes' = 2048"
    using scsi.read_chunked_contract [OF assms(1) _ room assms(4) [unfolded laser_read_blocks_def]] assms(3) by simp
  ultimately show ?thesis by (simp add: disc_bytes_def)
qed

interpretation image: image_reader "usb_bounded h \<and> drive_serves h build_read10_cdb 10 2048 disc"
  "laser_read_blocks h tk" disc for h tk disc
proof
  fix lba assume "usb_bounded h \<and> drive_serves h build_read10_cdb 10 2048 disc"
  then show "length (disc lba) = ISO_SECTOR_SIZE" by (simp add: drive_serves_def)
qed (use read_one_block in blast)

section \<open>What is reported is there\<close>

text \<open>The data track is where the table of contents the drive answered with puts it.\<close>

definition reported :: "'w command \<Rightarrow> image \<Rightarrow> laser_disc \<Rightarrow> bool" where
  "reported cmd disc out \<longleftrightarrow> (\<exists>s0 base s1 root p. read_cd_toc cmd s0 = Some ((CD_TOC_DATA, base), s1) \<and>
     volume_root disc base = Some root \<and> p \<in> set iso_probes \<and> iso_kind (probe_kind p) = Some (kind out) \<and>
     holds_layout disc root p \<and> volume_id out = volume_label disc base)"

lemma blank_volume_id: "volume_id blank_disc = []"
  by (simp add: blank_disc_def)

lemma identify_iso_reported:
  assumes drive: "usb_bounded h" "drive_serves h build_read10_cdb 10 2048 disc"
    and toc: "read_cd_toc cmd s0 = Some ((CD_TOC_DATA, base), s1)"
    and run: "identify_iso (laser_read_blocks h tk) base blank_disc s = Some ((hit, out), s')"
  shows "if hit then reported cmd disc out else out = blank_disc"
proof -
  obtain found label where d: "detect_iso_video (laser_read_blocks h tk) base [] s = Some ((found, label), s')"
    and r: "(hit, out) = (case iso_kind found of None \<Rightarrow> (False, blank_disc\<lparr>volume_id := label\<rparr>)
      | Some k \<Rightarrow> (True, blank_disc\<lparr>kind := k, volume_id := label\<rparr>))"
    using run by (auto simp: identify_iso_def blank_volume_id)
  show ?thesis
  proof (cases "found = ISO_VIDEO_NONE")
    case True
    with detect_iso_label [OF d] r show ?thesis by (simp add: blank_disc_def)
  next
    case False
    have drive': "usb_bounded h \<and> drive_serves h build_read10_cdb 10 2048 disc" using drive by blast
    from image.detect_agrees(1) [OF drive' d False] obtain root p where
      "volume_root disc base = Some root" "p \<in> set iso_probes" "found = probe_kind p"
      "holds_layout disc root p" "label = volume_label disc base" by blast
    moreover have "hit \<and> iso_kind found = Some (kind out) \<and> volume_id out = label"
      using r False by (cases found) simp_all
    ultimately have "hit" "reported cmd disc out"
      using toc unfolding reported_def
      by (simp, intro exI [of _ s0] exI [of _ base] exI [of _ s1] exI [of _ root] exI [of _ p]) simp
    then show ?thesis by simp
  qed
qed

lemma identify_udf_other:
  assumes "identify_udf lib reader blank_disc s = Some ((hit, out), s')"
  shows "kind out \<noteq> LASER_DISC_VCD \<and> kind out \<noteq> LASER_DISC_SVCD \<and> (\<not> hit \<longrightarrow> out = blank_disc)"
proof -
  obtain found label where d: "detect_udf_disc lib reader [] s = Some ((found, label), s')"
    and r: "(hit, out) = (case udf_kind found of None \<Rightarrow> (False, blank_disc\<lparr>volume_id := label\<rparr>)
      | Some k \<Rightarrow> (True, blank_disc\<lparr>kind := k, volume_id := label\<rparr>))"
    using assms by (auto simp: identify_udf_def blank_volume_id)
  with detect_udf_cases [OF d] show ?thesis by (cases found) (auto simp: blank_disc_def)
qed

lemma identify_reported:
  assumes "usb_bounded h" and "drive_serves h build_read10_cdb 10 2048 disc"
    and "laser_disc_identify lib h tk s = Some (out, s')"
    and "kind out = LASER_DISC_VCD \<or> kind out = LASER_DISC_SVCD"
  shows "reported (scsi_command h tk) disc out"
proof -
  let ?P = "\<lambda>out. kind out = LASER_DISC_VCD \<or> kind out = LASER_DISC_SVCD \<longrightarrow>
    reported (scsi_command h tk) disc out"
  have blank: "?P blank_disc" by (simp add: blank_disc_def)
  have "?P out" if run: "identify_ready lib (scsi_command h tk) (laser_read_blocks h tk) s1 = Some (out, s')" for s1
    using run
  proof (rule identify_ready_rule [where P = ?P])
    fix base s0 s1 s hit out s'
    assume "read_cd_toc (scsi_command h tk) s0 = Some ((CD_TOC_DATA, base), s1)"
      "identify_iso (laser_read_blocks h tk) base blank_disc s = Some ((hit, out), s')"
    from identify_iso_reported [OF assms(1,2) this] blank
    show "?P out \<and> (\<not> hit \<longrightarrow> out = blank_disc)" by (cases hit) simp_all
  next
    fix s hit out s'
    assume "identify_udf lib (laser_read_blocks h tk) blank_disc s = Some ((hit, out), s')"
    from identify_udf_other [OF this] show "?P out \<and> (\<not> hit \<longrightarrow> out = blank_disc)" by blast
  qed (use blank in \<open>simp_all add: blank_disc_def\<close>)
  with assms(3,4) blank show ?thesis
    by (auto simp: laser_disc_identify_def split: if_splits option.splits)
qed

section \<open>A Video CD\<close>

definition in_sector :: "byte list \<Rightarrow> byte list" where
  "in_sector bs = bs @ replicate (ISO_SECTOR_SIZE - length bs) 0"

text \<open>A volume descriptor whose root holds \<open>EXT\<close> and \<open>VCD\<close>, and in that the information file.\<close>

definition karaoke_disc :: image where
  "karaoke_disc lba = in_sector
     (if lba = 16 then [0x01] @ ascii ''CD001'' @ replicate 34 0 @ ascii ''KARAOKE'' @ replicate 25 0x20 @
        replicate 84 0 @ [34, 0, 18, 0, 0, 0, 0, 0, 0, 18, 0, 8, 0, 0]
      else if lba = 18 then sample_record 19 8 2 ''EXT'' @ sample_record 20 8 2 ''VCD''
      else if lba = 20 then sample_record 21 8 0 ''INFO.VCD;1''
      else if lba = 21 then ascii ''VIDEO_CD''
      else [])"

lemma karaoke_sectors: "length (karaoke_disc lba) = 2048"
  by (simp add: karaoke_disc_def in_sector_def sample_record_def ascii_def)

lemma karaoke_layout:
  "video_layout karaoke_disc 0 = Some (hd iso_probes)" "volume_label karaoke_disc 0 = ascii ''KARAOKE''"
proof -
  have root: "volume_root karaoke_disc 0 = Some (18, 2048)" by code_simp
  have "child_in karaoke_disc (18, 2048) (ascii ''VCD'') True = Some (20, 8)"
    unfolding child_in_sectors by code_simp
  moreover have "child_in karaoke_disc (20, 8) (ascii ''INFO.VCD'') False = Some (21, 8)"
    unfolding child_in_sectors by code_simp
  moreover have "take 8 (karaoke_disc 21) = ascii ''VIDEO_CD''" by code_simp
  ultimately have "holds_layout karaoke_disc (18, 2048) (hd iso_probes)"
    by (simp add: holds_layout_def iso_probes_def)
  then show "video_layout karaoke_disc 0 = Some (hd iso_probes)"
    by (simp add: video_layout_def root iso_probes_def)
  show "volume_label karaoke_disc 0 = ascii ''KARAOKE''" by code_simp
qed

section \<open>What is there is reported\<close>

text \<open>On the playing drive every read works, so identification gives the disc's own answer.\<close>

lemma play_cd_parse:
  "parse_toc (write_prefix [0, 10, 1, 1, 0, 0x14, 1, 0, a, b, c, d] (replicate 128 0)) 12 =
     Some (CD_TOC_DATA, push_bit 24 (ucast a) OR push_bit 16 (ucast b) OR push_bit 8 (ucast c) OR ucast d)"
  by code_simp

lemma be32_bytes_word:
  fixes w :: u32
  shows "push_bit 24 (ucast (ucast (drop_bit 24 w) :: byte)) OR push_bit 16 (ucast (ucast (drop_bit 16 w) :: byte)) OR
    push_bit 8 (ucast (ucast (drop_bit 8 w) :: byte)) OR ucast (ucast w :: byte) = w"
  using be32_word_bytes [of w] by (simp add: be32_word_def le32_word_def ac_simps)

lemma play_cd_answers:
  assumes "idle s"
  shows "\<exists>s'. read_medium (scsi_command (player_host (play_cd disc base)) 42) s = Some (MEDIUM_CD, s') \<and> idle s'"
    and "\<exists>s'. read_cd_toc (scsi_command (player_host (play_cd disc base)) 42) s = Some ((CD_TOC_DATA, base), s') \<and>
      idle s'"
proof -
  let ?play = "play_cd disc base" and ?cmd = "scsi_command (player_host (play_cd disc base)) 42"
  have "pad16 (take (nat 10) get_configuration_cdb) = [0x46, 0, 0, 0, 0, 0, 0, 0, 32, 0, 0, 0, 0, 0, 0, 0]"
    by code_simp
  then have p: "?play (pad16 (take (nat 10) get_configuration_cdb)) = Some [0, 0, 0, 4, 0, 0, 0, 8]"
    by (simp add: play_cd_def)
  obtain s1 where 1: "?cmd get_configuration_cdb 10 (Some (replicate 32 0)) 32 True (Some 0) s =
      Some (\<lparr>status = LASER_OK, o_data = Some (write_prefix [0, 0, 0, 4, 0, 0, 0, 8] (replicate 32 0)),
        o_actual = Some (int (length [0, 0, 0, 4, 0, 0, 0, 8 :: byte]))\<rparr>, s1) \<and> idle s1"
    using player_command [where n = 10 and play = ?play and cdb = get_configuration_cdb and len = 32, OF assms p]
    by (auto simp: laser_cdb_changes_css_state_def)
  have bytes: "(write_prefix [0, 0, 0, 4, 0, 0, 0, 8] (replicate 32 0) :: byte list) ! 6 = 0"
    "(write_prefix [0, 0, 0, 4, 0, 0, 0, 8] (replicate 32 0) :: byte list) ! 7 = 8" by code_simp+
  have "medium_of_profile (unat (0 :: byte) * 256 + unat (8 :: byte)) = MEDIUM_CD" by code_simp
  then have "read_medium ?cmd s = Some (MEDIUM_CD, s1)"
    unfolding read_medium_def conjunct1 [OF 1] by (simp add: bytes)
  with 1 show "\<exists>s'. read_medium ?cmd s = Some (MEDIUM_CD, s') \<and> idle s'" by blast
  let ?toc = "[0, 10, 1, 1, 0, 0x14, 1, 0, ucast (drop_bit 24 base), ucast (drop_bit 16 base),
    ucast (drop_bit 8 base), ucast base] :: byte list"
  have "pad16 (take (nat 10) read_toc_cdb) = [0x43, 0, 0, 0, 0, 0, 0, 0, 0x80, 0, 0, 0, 0, 0, 0, 0]" by code_simp
  then have p: "?play (pad16 (take (nat 10) read_toc_cdb)) = Some ?toc" by (simp add: play_cd_def)
  obtain s2 where 2: "?cmd read_toc_cdb 10 (Some (replicate 128 0)) 128 True (Some 0) s =
      Some (\<lparr>status = LASER_OK, o_data = Some (write_prefix ?toc (replicate 128 0)),
        o_actual = Some (int (length ?toc))\<rparr>, s2) \<and> idle s2"
    using player_command [where n = 10 and play = ?play and cdb = read_toc_cdb and len = 128, OF assms p]
    by (auto simp: laser_cdb_changes_css_state_def)
  have "int (length ?toc) = 12" by simp
  then have "read_cd_toc ?cmd s = Some ((CD_TOC_DATA, base), s2)"
    unfolding read_cd_toc_def conjunct1 [OF 2] by (simp add: play_cd_parse be32_bytes_word)
  with 2 show "\<exists>s'. read_cd_toc ?cmd s = Some ((CD_TOC_DATA, base), s') \<and> idle s'" by blast
qed

lemma play_cd_reads_work:
  assumes "\<And>b. length (disc b) = 2048" and "idle s"
  shows "reads_work idle (laser_read_blocks (player_host (play_cd disc base)) 42) s"
  unfolding reads_work_def
proof (intro conjI allI impI)
  fix lba bytes s r bytes' s'
  assume "idle s" "length bytes = ISO_SECTOR_SIZE"
    and run: "laser_read_blocks (player_host (play_cd disc base)) 42 lba 1 bytes s = Some (r, bytes', s')"
  with play_cd_reads [of s disc bytes 1 base lba] assms(1) show "r = 1" and "idle s'" by auto
qed (rule assms(2))

lemma play_cd_identified:
  assumes size: "\<And>b. length (disc b) = 2048" and video: "video_layout disc base = Some p"
  shows "\<exists>s'. laser_disc_identify lib (player_host (play_cd disc base)) 42 (sim_sys sim_entry []) =
    Some (\<lparr>kind = the (iso_kind (probe_kind p)), volume_id = volume_label disc base\<rparr>, s')"
proof -
  let ?h = "player_host (play_cd disc base)"
  let ?reader = "laser_read_blocks ?h 42"
  have ready: "\<not> laser_token_not_ready 42 s" if "idle s" for s :: "sim sys"
    using idle_facts(1,5) [OF that] by (simp add: laser_token_not_ready_def)
  obtain s1 where 1: "laser_token_settle ?h 42 (sim_sys sim_entry []) = Some s1" "idle s1"
    using player_settle [OF idle_sample, of "play_cd disc base"] by (auto simp: play_cd_def)
  obtain s2 where 2: "read_medium (scsi_command ?h 42) s1 = Some (MEDIUM_CD, s2)" "idle s2"
    using play_cd_answers(1) [OF 1(2)] by blast
  obtain s3 where 3: "read_cd_toc (scsi_command ?h 42) s2 = Some ((CD_TOC_DATA, base), s3)" "idle s3"
    using play_cd_answers(2) [OF 2(2)] by blast
  have host: "serviceable ?h"
    using player_usb_bounded player_clock_monotonic play_cd_no_changes unfolding serviceable_def by blast
  obtain found label s4 where 4: "detect_iso_video ?reader base [] s3 = Some ((found, label), s4)"
    using sector_reader.detect_iso_returns [OF blocks.sector_reader_axioms host, of 42 base "[]" s3] by auto
  have drive: "usb_bounded ?h \<and> drive_serves ?h build_read10_cdb 10 2048 disc"
    by (intro conjI player_usb_bounded play_cd_serves size)
  note agrees = image.detect_agrees [OF drive 4]
  have found: "found = probe_kind p"
    using agrees(2) [OF play_cd_reads_work [where disc = disc, OF size 3(2)]] video by simp
  have "p \<in> set iso_probes"
    using video by (auto simp: video_layout_def find_Some_iff split: option.splits)
  then have kind: "found \<noteq> ISO_VIDEO_NONE" using found by (auto simp: iso_probes_def)
  have "label = volume_label disc base" using agrees(1) [OF kind] by blast
  then have "identify_iso ?reader base blank_disc s3 =
      Some ((True, \<lparr>kind = the (iso_kind (probe_kind p)), volume_id = volume_label disc base\<rparr>), s4)"
    using 4 kind found by (cases found) (simp_all add: identify_iso_def blank_disc_def)
  then have "identify_ready lib (scsi_command ?h 42) ?reader s1 =
      Some (\<lparr>kind = the (iso_kind (probe_kind p)), volume_id = volume_label disc base\<rparr>, s4)"
    using 2 3 by (simp add: identify_ready_def)
  then show ?thesis using ready 1 idle_sample by (simp add: laser_disc_identify_def)
qed

section \<open>The properties\<close>

text \<open>C11: a disc identified as a Video CD or Super Video CD is one: behind the data track the table of
  contents names there is a primary volume descriptor with a root directory, in it the kind's
  directory, in that its information file, at least eight bytes long and opening with the kind's
  signature - whatever reads failed or were retried on the way - and the label is that volume's.\<close>

theorem video_cd_is_on_the_disc:
  assumes "usb_bounded h" and "drive_serves h build_read10_cdb 10 2048 disc"
    and "laser_disc_identify lib h tk s = Some (out, s')"
    and "kind out = LASER_DISC_VCD \<or> kind out = LASER_DISC_SVCD"
  shows "\<exists>s0 base s1 root p dir lba len.
    read_cd_toc (scsi_command h tk) s0 = Some ((CD_TOC_DATA, base), s1) \<and>
    volume_root disc base = Some root \<and> p \<in> set iso_probes \<and> iso_kind (probe_kind p) = Some (kind out) \<and>
    child_in disc root (probe_dir p) True = Some dir \<and> child_in disc dir (probe_info p) False = Some (lba, len) \<and>
    8 \<le> len \<and> take 8 (disc lba) = probe_magic p \<and>
    volume_id out = iso_label (take 32 (drop 40 (disc (base + 16))))"
  using identify_reported [OF assms]
  unfolding reported_def holds_layout_def volume_label_def by blast

theorem video_cd_is_on_the_disc_witness:
  "\<exists>out s'. laser_disc_identify (table_udf [] []) (player_host (play_cd karaoke_disc 0)) 42
      (sim_sys sim_entry []) = Some (out, s') \<and> kind out = LASER_DISC_VCD \<and>
    volume_id out = ascii ''KARAOKE'' \<and>
    (\<exists>s0 base s1 root p dir lba len.
      read_cd_toc (scsi_command (player_host (play_cd karaoke_disc 0)) 42) s0 = Some ((CD_TOC_DATA, base), s1) \<and>
      volume_root karaoke_disc base = Some root \<and> p \<in> set iso_probes \<and>
      iso_kind (probe_kind p) = Some (kind out) \<and>
      child_in karaoke_disc root (probe_dir p) True = Some dir \<and>
      child_in karaoke_disc dir (probe_info p) False = Some (lba, len) \<and>
      8 \<le> len \<and> take 8 (karaoke_disc lba) = probe_magic p \<and>
      volume_id out = iso_label (take 32 (drop 40 (karaoke_disc (base + 16)))))"
proof -
  let ?h = "player_host (play_cd karaoke_disc 0)"
  let ?lib = "table_udf [] [] :: (unit, sim udf_io) udf_lib"
  obtain s' where run: "laser_disc_identify ?lib ?h 42 (sim_sys sim_entry []) =
      Some (\<lparr>kind = LASER_DISC_VCD, volume_id = ascii ''KARAOKE''\<rparr>, s')"
    using play_cd_identified [where disc = karaoke_disc and lib = ?lib, OF karaoke_sectors karaoke_layout(1)]
    by (auto simp: karaoke_layout(2) iso_probes_def)
  let ?out = "\<lparr>kind = LASER_DISC_VCD, volume_id = ascii ''KARAOKE''\<rparr>"
  have "kind ?out = LASER_DISC_VCD \<or> kind ?out = LASER_DISC_SVCD" by simp
  note there = video_cd_is_on_the_disc [OF player_usb_bounded play_cd_serves [where disc = karaoke_disc, OF karaoke_sectors] run this]
  show ?thesis
    by (rule exI [of _ ?out], rule exI [of _ s'], intro conjI, rule run, simp, simp, rule there)
qed

text \<open>C37: on a disc whose sectors all read, the walk is the specification: it recognises the first of
  the two layouts that is on the disc, and nothing else, and a disc without one keeps its label.\<close>

theorem video_cd_walk_exact:
  assumes "\<forall>lba. length (disc lba) = ISO_SECTOR_SIZE"
    and "\<forall>lba bytes s bytes' s'. length bytes = ISO_SECTOR_SIZE \<longrightarrow>
      reader lba 1 bytes s = Some (1, bytes', s') \<longrightarrow> bytes' = disc lba"
    and "\<forall>lba bytes s r bytes' s'. I s \<longrightarrow> length bytes = ISO_SECTOR_SIZE \<longrightarrow>
      reader lba 1 bytes s = Some (r, bytes', s') \<longrightarrow> r = 1 \<and> I s'"
    and "I s" and "detect_iso_video reader base label s = Some (x, s')"
  shows "x = (case video_layout disc base of
      None \<Rightarrow> (ISO_VIDEO_NONE, label)
    | Some p \<Rightarrow> (probe_kind p, iso_label (take 32 (drop 40 (disc (base + 16))))))"
proof -
  obtain found label' where x: "x = (found, label')" by fastforce
  have "image_reader True reader disc"
    using assms(1,2) by unfold_locales blast+
  note agrees = image_reader.detect_agrees [OF this TrueI assms(5) [unfolded x]]
  have "reads_work I reader s" using assms(3,4) unfolding reads_work_def by blast
  note found = agrees(2) [OF this]
  show ?thesis
  proof (cases "video_layout disc base")
    case None
    with found detect_iso_label [OF assms(5) [unfolded x]] x show ?thesis by simp
  next
    case (Some p)
    then have "p \<in> set iso_probes"
      by (auto simp: video_layout_def find_Some_iff split: option.splits)
    with found Some have "found \<noteq> ISO_VIDEO_NONE" by (auto simp: iso_probes_def)
    with agrees(1) found Some x show ?thesis by (simp add: volume_label_def)
  qed
qed

text \<open>The library's own reads on the playing drive are such a reader.\<close>

theorem video_cd_walk_exact_witness:
  "\<exists>s'. detect_iso_video (laser_read_blocks (player_host (play_cd karaoke_disc 0)) 42) 0 []
      (sim_sys sim_entry []) = Some ((ISO_VIDEO_VCD, ascii ''KARAOKE''), s')"
proof -
  let ?h = "player_host (play_cd karaoke_disc 0)"
  let ?reader = "laser_read_blocks ?h 42"
  have host: "serviceable ?h"
    using player_usb_bounded player_clock_monotonic play_cd_no_changes unfolding serviceable_def by blast
  obtain x s' where run: "detect_iso_video ?reader 0 [] (sim_sys sim_entry []) = Some (x, s')"
    using sector_reader.detect_iso_returns [OF blocks.sector_reader_axioms host, of 42 0 "[]"] by fastforce
  have "bytes' = karaoke_disc lba"
    if "length bytes = ISO_SECTOR_SIZE" "?reader lba 1 bytes s = Some (1, bytes', s')" for lba bytes s bytes' s'
    by (rule read_one_block [OF player_usb_bounded play_cd_serves that]) (rule karaoke_sectors)
  then have honest: "\<forall>lba bytes s bytes' s'. length bytes = ISO_SECTOR_SIZE \<longrightarrow>
      ?reader lba 1 bytes s = Some (1, bytes', s') \<longrightarrow> bytes' = karaoke_disc lba" by blast
  have works: "\<forall>lba bytes s r bytes' s'. idle s \<longrightarrow> length bytes = ISO_SECTOR_SIZE \<longrightarrow>
      ?reader lba 1 bytes s = Some (r, bytes', s') \<longrightarrow> r = 1 \<and> idle s'"
    using play_cd_reads_work [where disc = karaoke_disc, OF karaoke_sectors idle_sample]
    unfolding reads_work_def by blast
  have "\<forall>lba. length (karaoke_disc lba) = ISO_SECTOR_SIZE" by (simp add: karaoke_sectors)
  from video_cd_walk_exact [OF this honest works idle_sample run]
  have "x = (ISO_VIDEO_VCD, ascii ''KARAOKE'')"
    using karaoke_layout by (simp add: volume_label_def iso_probes_def)
  with run show ?thesis by blast
qed

end
