(* ===== verification/Logging.thy ===== *)
theory Logging
  imports Disc
begin

text \<open>
  What the library says, and where it goes (registry.c, disc.c): the sink behind the logging macros with
  its platform default, and the names a log line uses for link speeds, media events and disc kinds. The
  expansion of a format string is \<open>vsnprintf()\<close>'s and arrives here done; where the default writes is a
  parameter. Outside Android the default is stderr.
\<close>

section \<open>The sink\<close>

datatype laser_log_level = LASER_LOG_ERROR | LASER_LOG_WARN | LASER_LOG_INFO | LOG_LEVEL_OTHER int

abbreviation LOG_LINE_MAX :: nat where "LOG_LINE_MAX \<equiv> 512"

text \<open>A callback gets the opaque pointer it was installed with, the level and the line.\<close>

type_synonym ('o, 'w) laser_log_cb = "'o option \<Rightarrow> laser_log_level \<Rightarrow> string \<Rightarrow> 'w \<Rightarrow> 'w"

record ('o, 'w) log_sink =
  g_log_cb :: "('o, 'w) laser_log_cb option"
  g_log_opaque :: "'o option"

definition log_prio :: "laser_log_level \<Rightarrow> string" where
  "log_prio level =
     (case level of LASER_LOG_ERROR \<Rightarrow> ''E'' | LASER_LOG_WARN \<Rightarrow> ''W'' | LASER_LOG_INFO \<Rightarrow> ''I''
      | LOG_LEVEL_OTHER _ \<Rightarrow> ''I'')"

definition default_log_cb :: "(string \<Rightarrow> 'w \<Rightarrow> 'w) \<Rightarrow> ('o, 'w) laser_log_cb" where
  "default_log_cb stderr opaque level msg w =
     stderr (log_prio level @ ''/Laser: '' @ msg @ [CHR 0x0A]) w"

definition laser_set_log_cb ::
  "('o, 'w) laser_log_cb option \<Rightarrow> 'o option \<Rightarrow> ('o, 'w) log_sink \<Rightarrow> ('o, 'w) log_sink" where
  "laser_set_log_cb cb opaque g = g\<lparr>g_log_cb := cb, g_log_opaque := opaque\<rparr>"

text \<open>\<open>vsnprintf()\<close> cuts the text where the line and its terminator fill the buffer.\<close>

definition log_line :: "string \<Rightarrow> string" where
  "log_line formatted = take (LOG_LINE_MAX - 1) formatted"

definition laser_log ::
  "(string \<Rightarrow> 'w \<Rightarrow> 'w) \<Rightarrow> ('o, 'w) log_sink \<Rightarrow> laser_log_level \<Rightarrow> string \<Rightarrow> 'w \<Rightarrow> 'w" where
  "laser_log stderr g level formatted w =
     (case g_log_cb g of
        Some cb \<Rightarrow> cb (g_log_opaque g) level (log_line formatted) w
      | None \<Rightarrow> default_log_cb stderr (None :: 'o option) level (log_line formatted) w)"

text \<open>The sink installed last gets every line, cut to size; without one the line goes to stderr.\<close>

lemma log_line_fits: "length (log_line text) < LOG_LINE_MAX"
  by (simp add: log_line_def)

lemma log_reaches_last_sink:
  "laser_log stderr (laser_set_log_cb (Some cb) opaque g) level text w = cb opaque level (log_line text) w"
  by (simp add: laser_log_def laser_set_log_cb_def)

lemma log_back_to_default:
  "laser_log stderr (laser_set_log_cb None opaque g) level text w =
     stderr (log_prio level @ ''/Laser: '' @ log_line text @ [CHR 0x0A]) w"
  by (simp add: laser_log_def laser_set_log_cb_def default_log_cb_def)

section \<open>Names\<close>

text \<open>\<open>enum libusb_speed\<close>, whose values are not the USB generations.\<close>

definition speed_name :: "int \<Rightarrow> string" where
  "speed_name speed =
     (if speed = 0 then ''unknown to the OS''
      else if speed = 1 then ''low, 1.5Mbps''
      else if speed = 2 then ''full, 12Mbps''
      else if speed = 3 then ''high, 480Mbps''
      else if speed = 4 then ''super, 5Gbps''
      else if speed = 5 then ''super+, 10Gbps''
      else ''unrecognised'')"

text \<open>The link speed read off the smaller of the two endpoints' packet sizes.\<close>

definition link_speed :: "u16 \<Rightarrow> string" where
  "link_speed mps =
     (if mps \<le> 64 then ''FULL speed (USB 1.1) - too slow for Blu-ray, marginal for DVD''
      else if mps \<le> 512 then ''high speed (USB 2.0)''
      else ''SuperSpeed (USB 3)'')"

text \<open>The event is the low nibble of its byte.\<close>

definition media_event_names :: "string list" where
  "media_event_names = [''no change'', ''eject request'', ''new media'', ''media removal'', ''media changed'']"

definition media_event_name :: "byte \<Rightarrow> string" where
  "media_event_name event =
     (if unat event < length media_event_names then media_event_names ! unat event else ''unknown'')"

fun laser_disc_kind_name :: "laser_disc_kind \<Rightarrow> string" where
  "laser_disc_kind_name LASER_DISC_CD_AUDIO = ''audio CD''"
| "laser_disc_kind_name LASER_DISC_DVD_VIDEO = ''DVD-Video''"
| "laser_disc_kind_name LASER_DISC_DVD_AUDIO = ''DVD-Audio''"
| "laser_disc_kind_name LASER_DISC_DVD_UNIVERSAL = ''universal DVD''"
| "laser_disc_kind_name LASER_DISC_BD_VIDEO = ''BD-Video''"
| "laser_disc_kind_name LASER_DISC_VCD = ''Video CD''"
| "laser_disc_kind_name LASER_DISC_SVCD = ''Super Video CD''"
| "laser_disc_kind_name LASER_DISC_UNKNOWN = ''unknown''"

text \<open>A log line tells the kinds apart, and the five events the table names.\<close>

lemma laser_disc_kind_name_inj: "laser_disc_kind_name a = laser_disc_kind_name b \<longleftrightarrow> a = b"
  by (cases a; cases b) simp_all

lemma distinct_media_event_names: "distinct media_event_names"
  by (simp add: media_event_names_def)

end
