(* ===== verification/Keeps.thy ===== *)
theory Keeps
  imports Quiet Read_Laws Region
begin

text \<open>
  What the commands and reads leave of the registry's business: they set up and give back nothing, the
  claims on every entry stay as they are, and the shared fields only move as promised. First along one
  entry (context \<open>quiet_transport\<close>), then on the table, for everything that reaches the device through
  commands and reads alone (locale \<open>through_commands\<close>).
\<close>

section \<open>Along one entry\<close>

definition undisturbed :: "'w dev \<Rightarrow> 'w dev \<Rightarrow> bool" where
  "undisturbed a d \<longleftrightarrow> quiet_step a d \<and> refs (ent d) = refs (ent a)"

text \<open>Other threads may cancel, lower the cap and note that the device left; claims are made and
  dropped by calls, between the calls of a history.\<close>

definition threads_keep_claims :: "'w host \<Rightarrow> bool" where
  "threads_keep_claims h \<longleftrightarrow> threads_rely h \<and> (\<forall>e w. refs (fst (other_threads h e w)) = refs e)"

lemma threads_keep_rely: "threads_keep_claims h \<Longrightarrow> threads_rely h"
  by (simp add: threads_keep_claims_def)

lemma undisturbed_refl [simp, intro]: "undisturbed d d"
  by (simp add: undisturbed_def)

named_theorems undisturbed_intros \<open>chains of calls that leave the claims alone, last call first\<close>

lemma undisturbed_calls [undisturbed_intros]:
  "undisturbed a d \<Longrightarrow> undisturbed a (do_usleep h us d)"
  "undisturbed a d \<Longrightarrow> undisturbed a (snd (do_clock h d))"
  "undisturbed a d \<Longrightarrow> undisturbed a (snd (ms_since h s d))"
  "undisturbed a d \<Longrightarrow> undisturbed a (snd (laser_is_cancelled h d))"
  "undisturbed a d \<Longrightarrow> undisturbed a (upd_ent (\<lambda>e. e\<lparr>not_ready := b\<rparr>) d)"
  "undisturbed a d \<Longrightarrow> undisturbed a (upd_ent (\<lambda>e. e\<lparr>device_gone := b\<rparr>) d)"
  by (simp_all add: undisturbed_def quiet_intros frame_simps)
    (simp add: laser_is_cancelled_def laser_set_cancelled_def case_prod_unfold Let_def)

lemma undisturbed_lock:
  "threads_keep_claims h \<Longrightarrow> undisturbed a d \<Longrightarrow> undisturbed a (lock_io h d)"
  using quiet_calls(8) [of h a d]
  by (simp add: undisturbed_def threads_keep_claims_def lock_io_def case_prod_unfold)

lemma undisturbed_sample [undisturbed_intros]:
  "undisturbed a d \<Longrightarrow> undisturbed a (snd (sample_throughput_locked h len t d))"
  using sample_throughput_rely [of d h len t]
  by (simp add: undisturbed_def entry_rely_def quiet_same [OF sample_throughput_frame])
    (simp add: sample_throughput_locked_def sample_update_def case_prod_unfold Let_def frame_simps)

lemma undisturbed_delay [undisturbed_intros]:
  "undisturbed a d \<Longrightarrow> undisturbed a (cdb_delay h sn L d)"
  by (simp add: cdb_delay_def undisturbed_intros)

lemma undisturbed_wait_ready [undisturbed_intros]:
  "undisturbed a d \<Longrightarrow> undisturbed a (snd (cdb_wait_ready h sn L d))"
  by (simp add: cdb_wait_ready_def case_prod_unfold undisturbed_intros)

lemma undisturbed_failed:
  assumes "cdb_failed h idempotent r sn L d = (res, L', d')" and "undisturbed a d"
  shows "undisturbed a d'"
  using assms(1)
proof (cases rule: cdb_failed_cases)
  case wait
  then show ?thesis using undisturbed_wait_ready [OF assms(2), of h sn L] by simp
qed (simp_all add: assms(2) undisturbed_intros)

lemma undisturbed_finish [undisturbed_intros]:
  "undisturbed a d \<Longrightarrow> undisturbed a (snd (cdb_finish result L d))"
  by (simp add: cdb_finish_def undisturbed_intros)

context quiet_transport
begin

lemma undisturbed_send:
  "undisturbed a d \<Longrightarrow> undisturbed a (snd (send cdb n data len inward act csw d))"
  by (simp add: undisturbed_def quiet_after_send entry_frameD(3) [OF send_frame])

lemma undisturbed_commands:
  "undisturbed a d \<Longrightarrow> undisturbed a (snd (request_sense_locked send sn d))"
  "undisturbed a d \<Longrightarrow> undisturbed a (snd (test_unit_ready_locked send d))"
  "undisturbed a d \<Longrightarrow> undisturbed a (snd (cdb_sense send out d))"
  by (simp_all add: request_sense_locked_def test_unit_ready_locked_def cdb_sense_def
      case_prod_unfold Let_def undisturbed_send)

lemma undisturbed_transact:
  assumes run: "cdb_transact send h cdb n len inward idempotent L d = (res, L', d')"
    and start: "undisturbed a d"
  shows "undisturbed a d'"
proof -
  obtain t d2 where t: "do_clock h d = (t, d2)" by fastforce
  obtain out d3 where out: "send cdb n (c_data L) len inward (c_actual L) (Some (-1)) d2 = (out, d3)"
    by fastforce
  obtain sn d4 where sn: "cdb_sense send out d3 = (sn, d4)" by fastforce
  have d2: "undisturbed a d2" using undisturbed_calls(2) [OF start, of h] t by simp
  have d3: "undisturbed a d3"
    using undisturbed_send [OF d2, of cdb n "c_data L" len inward "c_actual L" "Some (-1)"] out by simp
  have "undisturbed a d4" using undisturbed_commands(3) [OF d3, of out] sn by simp
  with run t out sn d3 show ?thesis
    by (auto simp: cdb_transact_def Let_def undisturbed_intros split: if_splits intro: undisturbed_failed)
qed

lemma undisturbed_attempt:
  assumes "cdb_attempt send h cdb n len inward idempotent L d = (res, L', d')" and "undisturbed a d"
  shows "undisturbed a d'"
  using assms undisturbed_calls(4) [OF assms(2), of h]
  by (auto simp: cdb_attempt_def Let_def split: prod.splits if_splits intro: undisturbed_transact)

lemma undisturbed_loop:
  assumes "cdb_loop send h cdb n len inward idempotent L d = Some (st, L', d')" and "undisturbed a d"
  shows "undisturbed a d'"
  using assms(1)
proof (rule cdb_loop_invariant [where I = "\<lambda>_ x. undisturbed a x" and Q = "\<lambda>_ _ x. undisturbed a x"])
qed (use assms(2) undisturbed_attempt in blast)+

lemma undisturbed_entry_call:
  assumes "threads_keep_claims h"
    and run: "scsi_cdb_entry send h cdb n data len inward act d = Some (o', d')"
  shows "undisturbed d d'"
proof -
  note cancel = undisturbed_calls(4) [OF undisturbed_refl, of d h]
  from run show ?thesis
  proof (cases rule: entry_call_cases)
    case (ran d1 result L d2)
    have "undisturbed d (lock_io h d1)" using undisturbed_lock [OF assms(1)] cancel ran(2) by simp
    from undisturbed_loop [OF ran(4) this] ran(6) show ?thesis by (simp add: undisturbed_intros)
  qed (use cancel in simp_all)
qed

lemma undisturbed_spin_up: "undisturbed a d \<Longrightarrow> undisturbed a (spin_up_locked send d)"
  by (simp add: undisturbed_def quiet_spin_up entry_frameD(3) [OF spin_up_frame])

lemma undisturbed_wait:
  assumes "threads_keep_claims h" and run: "laser_wait_until_ready send h d = Some (r, L', d')"
    and start: "undisturbed a d"
  shows "undisturbed a d'"
proof -
  obtain started d1 where t1: "do_clock h d = (started, d1)" by fastforce
  obtain nm d2 where t2: "do_clock h (spin_up_locked send (lock_io h d1)) = (nm, d2)" by fastforce
  let ?d = "upd_ent (\<lambda>e. e\<lparr>not_ready := True\<rparr>) d2"
  have loop: "wait_loop send h started nm wait_start ?d = Some (r, L', d')"
    using run t1 t2 by (simp add: laser_wait_until_ready_def)
  have d1: "undisturbed a d1" using undisturbed_calls(2) [OF start, of h] t1 by simp
  have "undisturbed a (snd (do_clock h (spin_up_locked send (lock_io h d1))))"
    by (intro undisturbed_calls undisturbed_spin_up undisturbed_lock assms(1) d1)
  then have "refs (ent ?d) = refs (ent a)" using t2 by (simp add: undisturbed_def)
  moreover have "refs (ent d') = refs (ent ?d)"
    using wait_loop_frame [OF loop] by (auto split: if_splits dest: entry_frameD(3))
  moreover have "quiet_step a d'"
    by (rule quiet_wait [OF run]) (use start threads_keep_rely [OF assms(1)] in \<open>simp_all add: undisturbed_def\<close>)
  ultimately show ?thesis by (simp add: undisturbed_def)
qed

end

section \<open>On the table\<close>

text \<open>Transfers go to the handles of registered entries.\<close>

definition registered :: "'w sys \<Rightarrow> handle \<Rightarrow> bool" where
  "registered s hn \<longleftrightarrow> (\<exists>i < length (g_entries s). in_use (g_entries s ! i) \<and> handle (g_entries s ! i) = hn)"

definition keeps_claims :: "'w sys \<Rightarrow> 'w sys \<Rightarrow> bool" where
  "keeps_claims s s' \<longleftrightarrow> (\<exists>evs. trace s' = trace s @ evs \<and> quiet (registered s) evs) \<and> length (g_entries s') = length (g_entries s) \<and>
     (\<forall>i. entry_rely (g_entries s ! i) (g_entries s' ! i) \<and>
          refs (g_entries s' ! i) = refs (g_entries s ! i))"

lemma keeps_claims_refl [simp, intro]: "keeps_claims s s"
  by (simp add: keeps_claims_def)

lemma keeps_claims_trans [trans]:
  assumes ab: "keeps_claims a b" and bc: "keeps_claims b c"
  shows "keeps_claims a c"
proof -
  obtain xs where xs: "trace b = trace a @ xs" "quiet (registered a) xs"
    using ab by (auto simp: keeps_claims_def)
  obtain ys where ys: "trace c = trace b @ ys" "quiet (registered b) ys"
    using bc by (auto simp: keeps_claims_def)
  have "registered a hn" if "registered b hn" for hn
    using that ab unfolding keeps_claims_def registered_def entry_rely_def by fastforce
  with ys(2) have "quiet (registered a) ys" by (rule quiet_mono)
  with xs ys have "\<exists>evs. trace c = trace a @ evs \<and> quiet (registered a) evs" by simp
  with ab bc show ?thesis unfolding keeps_claims_def by (auto intro: entry_rely_trans)
qed

lemma keeps_claims_put:
  assumes at: "laser_lookup tk s = Some i" and "undisturbed (dev_of i s) d"
    and "entry_rely (g_entries s ! i) (ent d)"
  shows "keeps_claims s (put_dev i d s)"
proof -
  note i = laser_lookup_Some(1,3) [OF at]
  obtain evs where evs: "trace d = trace s @ evs" "quiet (\<lambda>hn. hn = handle (g_entries s ! i)) evs"
    using assms(2) by (auto simp: undisturbed_def quiet_step_def)
  have "quiet (registered s) evs"
    using evs(2) by (rule quiet_mono) (use i in \<open>auto simp: registered_def\<close>)
  with evs(1) assms(2,3) i(1) show ?thesis
    by (auto simp: keeps_claims_def undisturbed_def nth_list_update)
qed

lemma command_keeps_claims:
  assumes "threads_keep_claims h" and run: "scsi_command h tk cdb n data len inward act s = Some (o', s')"
  shows "keeps_claims s s'"
  using scsi_command_runs [OF run]
proof
  assume "\<exists>i d'. laser_lookup tk s = Some i \<and> s' = put_dev i d' s \<and>
     scsi_cdb_entry (laser_bot_send_locked h) h cdb n data len inward act (dev_of i s) = Some (o', d')"
  then obtain i d' where at: "laser_lookup tk s = Some i" "s' = put_dev i d' s"
    and call: "scsi_cdb_entry (laser_bot_send_locked h) h cdb n data len inward act (dev_of i s) = Some (o', d')"
    by blast
  from keeps_claims_put [OF at(1)
      quiet_bot.undisturbed_entry_call [OF assms(1) call]]
    bot.entry_call_rely [OF threads_keep_rely [OF assms(1)] call] at(2)
  show ?thesis by simp
qed simp

text \<open>Lowering the cap touches nothing else of an entry but what other threads may.\<close>

definition same_claims :: "'w sys \<Rightarrow> 'w sys \<Rightarrow> bool" where
  "same_claims s s' \<longleftrightarrow> length (g_entries s') = length (g_entries s) \<and>
     (\<forall>i. in_use (g_entries s' ! i) = in_use (g_entries s ! i) \<and>
          handle (g_entries s' ! i) = handle (g_entries s ! i) \<and> refs (g_entries s' ! i) = refs (g_entries s ! i))"

lemma same_claims_trans: "same_claims a b \<Longrightarrow> same_claims b c \<Longrightarrow> same_claims a c"
  by (simp add: same_claims_def)

lemma same_claims_registered: "same_claims s s' \<Longrightarrow> registered s' = registered s"
  by (auto simp: same_claims_def registered_def fun_eq_iff)

lemma keeps_claims_same: "keeps_claims s s' \<Longrightarrow> same_claims s s'"
  by (simp add: keeps_claims_def same_claims_def entry_rely_def)

lemma lower_transfer_cap_same:
  assumes "threads_keep_claims h"
  shows "trace (lower_transfer_cap h i bytes s) = trace s" and "same_claims s (lower_transfer_cap h i bytes s)"
proof -
  show "trace (lower_transfer_cap h i bytes s) = trace s"
    by (simp add: lower_transfer_cap_def frame_simps)
  let ?e = "ent (lock_io h (dev_of i s))"
  have "in_use ?e = in_use (g_entries s ! i) \<and> handle ?e = handle (g_entries s ! i) \<and> refs ?e = refs (g_entries s ! i)"
    using assms by (simp add: threads_keep_claims_def threads_rely_def entry_rely_def lock_io_def case_prod_unfold)
  then show "same_claims s (lower_transfer_cap h i bytes s)"
    by (cases "i < length (g_entries s)")
      (auto simp: same_claims_def lower_transfer_cap_def lower_cap_def nth_list_update list_update_beyond)
qed

lemma read_keeps_claims:
  assumes keep: "threads_keep_claims h"
    and run: "read_chunked (scsi_command h tk) h tk lba k block_size n build bytes s = Some (r, b, s')"
  shows "keeps_claims s s'"
proof -
  let ?cmd = "scsi_command h tk" and ?slot = "laser_lookup tk s"
  define I where "I = (\<lambda>x. same_claims s x \<and> (\<exists>evs. trace x = trace s @ evs \<and> quiet (registered s) evs))"
  have start: "I s" by (simp add: I_def same_claims_def)
  have cmd: "I x'" if run: "?cmd cdb n' data len inward act x = Some (out, x')" and x: "I x"
    for cdb n' data len inward act x out x'
  proof -
    note kept = command_keeps_claims [OF keep run]
    obtain xs where xs: "trace x = trace s @ xs" "quiet (registered s) xs" using x by (auto simp: I_def)
    obtain ys where ys: "trace x' = trace x @ ys" "quiet (registered x) ys"
      using kept by (auto simp: keeps_claims_def)
    have same: "same_claims s x" using x by (simp add: I_def)
    with xs ys have "trace x' = trace s @ (xs @ ys)" "quiet (registered s) (xs @ ys)"
      by (simp_all add: same_claims_registered)
    with same_claims_trans [OF same keeps_claims_same [OF kept]] show ?thesis unfolding I_def by blast
  qed
  have low: "I (lower_transfer_cap h i c x)" if "I x" for i c x
    using that lower_transfer_cap_same [OF keep, where i = i and bytes = c and s = x] same_claims_trans by (auto simp: I_def)
  have round: "I x'" if "I x" "read_round ?cmd h ?slot lba k block_size n build L x = Some (res, b, x')"
    for x L res b x'
    using that(2)
  proof (cases rule: read_round_cases)
    case (1 chunk out s1)
    with cmd [OF 1(2) that(1)] show ?thesis by simp
  next
    case (2 chunk out s1)
    have "x' = s1 \<or> (\<exists>i c. x' = lower_transfer_cap h i c s1)"
      using 2(5) by (auto simp: read_done_def Let_def split: if_splits)
    with cmd [OF 2(2) that(1)] low show ?thesis by blast
  qed
  have "I s'"
  proof (cases "k \<le> 0")
    case True
    with run start show ?thesis by (simp add: read_chunked_def)
  next
    case False
    with run have "read_loop ?cmd h ?slot lba k block_size n build (read_start bytes) s = Some (r, b, s')"
      by (simp add: read_chunked_def)
    then show ?thesis
    proof (rule read_loop_invariant [where I = "\<lambda>_. I" and Q = "\<lambda>_ _. I"])
      show "I s" by (rule start)
    qed (use round in blast)+
  qed
  with scsi.read_chunked_shared [OF threads_keep_rely [OF keep] run] show ?thesis
    by (simp add: keeps_claims_def same_claims_def I_def)
qed

lemma settle_keeps_claims:
  assumes keep: "threads_keep_claims h" and run: "laser_token_settle h tk s = Some s'"
  shows "keeps_claims s s'"
proof (cases "laser_lookup tk s")
  case None
  with run show ?thesis by (simp add: laser_token_settle_def)
next
  case (Some i)
  let ?send = "laser_bot_send_locked h" and ?d = "dev_of i s"
  obtain gone d1 where 1: "laser_is_cancelled h ?d = (gone, d1)" by fastforce
  obtain r d2 where 2: "test_unit_ready_locked ?send (lock_io h d1) = (r, d2)" by fastforce
  have d1: "undisturbed ?d d1" "entry_rely (ent ?d) (ent d1)"
    using undisturbed_calls(4) [OF undisturbed_refl, of ?d h] is_cancelled_rely [of ?d h] 1 by simp_all
  have lock: "undisturbed ?d (lock_io h d1)" "entry_rely (ent ?d) (ent (lock_io h d1))"
    using undisturbed_lock [OF keep d1(1)] entry_rely_trans [OF d1(2)] threads_keep_rely [OF keep]
    by (simp_all add: threads_rely_def lock_io_def case_prod_unfold)
  have d2: "undisturbed ?d d2" "entry_rely (ent ?d) (ent d2)"
    using quiet_bot.undisturbed_commands(2) [OF lock(1)] 2
      entry_rely_trans [OF lock(2) entry_frame_rely [OF bot.test_unit_ready_frame]]
    by (metis snd_conv)+
  have put: "keeps_claims s (put_dev i d s)" if "undisturbed ?d d" "entry_rely (ent ?d) (ent d)" for d
    using keeps_claims_put [OF Some that(1)] that(2) by simp
  have "s' = s \<or> (\<exists>d. s' = put_dev i d s \<and> (d = d1 \<or> d = d2 \<or>
      (\<exists>e L. laser_wait_until_ready ?send h d2 = Some (e, L, d))))"
    using run Some 1 2 by (auto simp: laser_token_settle_def split: if_splits option.splits)
  then show ?thesis
  proof (elim disjE exE conjE)
    fix d e L assume w: "laser_wait_until_ready ?send h d2 = Some (e, L, d)" "s' = put_dev i d s"
    show ?thesis unfolding w(2)
      by (rule put [OF quiet_bot.undisturbed_wait [OF keep w(1) d2(1)]
            entry_rely_trans [OF d2(2) bot.wait_until_ready_rely [OF threads_keep_rely [OF keep] w(1)]]])
  qed (use put d1 d2 in simp_all)
qed

section \<open>What works through commands and reads alone\<close>

text \<open>\<open>K\<close> is any relation that commands and reads keep and that chains.\<close>

locale through_commands =
  fixes K :: "'w sys \<Rightarrow> 'w sys \<Rightarrow> bool" and cmd :: "'w command"
  assumes K_refl: "K s s" and K_trans: "K a b \<Longrightarrow> K b c \<Longrightarrow> K a c"
    and cmd_keeps: "cmd cdb n data len inward act s = Some (o', s') \<Longrightarrow> K s s'"
begin

lemma eight_bytes_keeps: "eight_bytes cmd cdb s = Some (answer, s') \<Longrightarrow> K s s'"
  by (auto simp: eight_bytes_def split: option.splits dest: cmd_keeps)

lemma rpc_state_keeps: "report_rpc_state cmd s = Some (answer, s') \<Longrightarrow> K s s'"
  by (auto simp: report_rpc_state_def dest: eight_bytes_keeps)

lemma region_mask_keeps: "read_disc_region_mask cmd s = Some (answer, s') \<Longrightarrow> K s s'"
  by (auto simp: read_disc_region_mask_def dest: eight_bytes_keeps)

lemma region_check_keeps:
  assumes "region_check cmd dm xm s = Some (r, s')"
  shows "K s s'"
proof -
  obtain rpc s1 where 1: "report_rpc_state cmd s = Some (rpc, s1)"
    using assms by (auto simp: region_check_def Let_def split: option.splits)
  have "s' = s1 \<or> (\<exists>m. read_disc_region_mask cmd s1 = Some (m, s'))"
    using assms 1 by (auto simp: region_check_def Let_def split: option.splits if_splits)
  with rpc_state_keeps [OF 1] region_mask_keeps K_trans show ?thesis by blast
qed

end

interpretation keeping: through_commands "\<lambda>s s'. threads_keep_claims h \<longrightarrow> keeps_claims s s'" "scsi_command h tk"
  for h tk
  by unfold_locales (auto intro: keeps_claims_trans command_keeps_claims)

end
