(* ===== verification/Disc_Keeps.thy ===== *)
theory Disc_Keeps
  imports Keeps Disc_Props
begin

text \<open>
  Identification leaves the registry alone: everything it does to the device goes through commands and
  one-sector reads, libudfread's reads included, as long as libudfread touches nothing but through the
  callback it was given.
\<close>

section \<open>libudfread reads through its callback\<close>

text \<open>Whatever relation each callback keeps, and that chains, every call of the library keeps.\<close>

definition udf_lib_confined :: "('u, 's) udf_lib \<Rightarrow> bool" where
  "udf_lib_confined lib \<longleftrightarrow>
     (\<forall>inp R. reflp R \<longrightarrow> transp R \<longrightarrow>
        (\<forall>lba n bs s r s'. bi_read inp lba n bs s = Some (r, s') \<longrightarrow> R s s') \<longrightarrow>
        (\<forall>s. R s (snd (udfread_init lib s))) \<and> (\<forall>u s. R s (udfread_close lib u s)) \<and>
        (\<forall>u s r s'. udfread_open_input lib inp u s = Some (r, s') \<longrightarrow> R s s') \<and>
        (\<forall>path u s r s'. udfread_file_open lib inp path u s = Some (r, s') \<longrightarrow> R s s') \<and>
        (\<forall>f n u s r s'. udfread_file_read lib inp f n u s = Some (r, s') \<longrightarrow> R s s'))"

lemma table_udf_confined: "udf_lib_confined (table_udf files label)"
  by (auto simp: udf_lib_confined_def table_udf_def reflp_def)

section \<open>Through reads\<close>

locale through_reads = through_commands K cmd
  for K :: "'w sys \<Rightarrow> 'w sys \<Rightarrow> bool" and cmd :: "'w command" +
  fixes reader :: "'w block_reader"
  assumes reader_keeps: "reader lba n bytes s = Some (r, bytes', s') \<Longrightarrow> K s s'"
begin

lemma read_sector_keeps: "iso_read_sector reader lba s = Some (sector, s') \<Longrightarrow> K s s'"
  by (auto simp: iso_read_sector_def dest: reader_keeps)

lemma find_in_sectors_keeps: "find_in_sectors reader lba n want want_dir s = Some (x, s') \<Longrightarrow> K s s'"
proof (induction n arbitrary: lba s)
  case 0
  then show ?case by (simp add: K_refl)
next
  case (Suc n)
  obtain sector s1 where 1: "iso_read_sector reader lba s = Some (sector, s1)"
    using Suc.prems by (auto split: option.splits)
  have "s' = s1 \<or> (\<exists>lba'. find_in_sectors reader lba' n want want_dir s1 = Some (x, s'))"
    using Suc.prems 1 by (auto split: option.splits)
  with Suc.IH read_sector_keeps [OF 1] K_trans show ?case by blast
qed

lemma find_child_keeps: "iso_find_child reader dir want want_dir s = Some (x, s') \<Longrightarrow> K s s'"
  by (cases dir) (auto simp: iso_find_child_def dest: find_in_sectors_keeps)

lemma magic_keeps: "iso_info_magic_is reader lba magic s = Some (hit, s') \<Longrightarrow> K s s'"
  by (auto simp: iso_info_magic_is_def split: option.splits dest: read_sector_keeps)

lemma probe_keeps:
  assumes run: "try_probe reader root p s = Some (hit, s')"
  shows "K s s'"
proof -
  obtain dir s1 where 1: "iso_find_child reader root (probe_dir p) True s = Some (dir, s1)"
    using run by (auto simp: try_probe_def split: option.splits)
  have "s' = s1 \<or> (\<exists>ext info s2. iso_find_child reader ext (probe_info p) False s1 = Some (info, s2) \<and>
      (s' = s2 \<or> (\<exists>lba. iso_info_magic_is reader lba (probe_magic p) s2 = Some (hit, s'))))"
    using run 1 by (auto simp: try_probe_def split: option.splits if_splits) blast+
  with find_child_keeps find_child_keeps [OF 1] magic_keeps K_trans show ?thesis by metis
qed

lemma probes_keep: "run_probes reader root ps s = Some (found, s') \<Longrightarrow> K s s'"
proof (induction ps arbitrary: s)
  case (Cons p ps)
  obtain hit s1 where 1: "try_probe reader root p s = Some (hit, s1)"
    using Cons.prems by (auto split: option.splits)
  have "s' = s1 \<or> run_probes reader root ps s1 = Some (found, s')"
    using Cons.prems 1 by (cases hit) auto
  with Cons.IH probe_keeps [OF 1] K_trans show ?case by blast
qed (simp add: K_refl)

lemma detect_iso_keeps:
  assumes run: "detect_iso_video reader base label s = Some (x, s')"
  shows "K s s'"
proof -
  obtain sector s1 where 1: "iso_read_sector reader (base + 16) s = Some (sector, s1)"
    using run by (auto simp: detect_iso_video_def split: option.splits)
  have "s' = s1 \<or> (\<exists>root kind. run_probes reader root iso_probes s1 = Some (kind, s'))"
    using run 1
    by (auto simp: detect_iso_video_def split: option.splits if_splits iso_video.splits bind_splits)
  with read_sector_keeps [OF 1] probes_keep K_trans show ?thesis by blast
qed

lemma identify_iso_keeps: "identify_iso reader lba out s = Some (x, s') \<Longrightarrow> K s s'"
  by (auto simp: identify_iso_def dest: detect_iso_keeps)

section \<open>The UDF probes\<close>

definition K_io :: "'w udf_io \<Rightarrow> 'w udf_io \<Rightarrow> bool" where
  "K_io a b \<longleftrightarrow> K (snd a) (snd b)"

lemma read_cb_keeps:
  "bi_read (scsi_block_input reader) lba n bytes io = Some (r, io') \<Longrightarrow> K_io io io'"
  by (cases io) (auto simp: scsi_block_input_def udf_read_cb_def K_io_def Let_def K_refl split: if_splits option.splits
      dest: reader_keeps)

lemma confined_keeps:
  assumes "udf_lib_confined lib"
  shows "K_io io (snd (udfread_init lib io))" and "K_io io (udfread_close lib u io)"
    and "udfread_open_input lib (scsi_block_input reader) u io = Some (r, io') \<Longrightarrow> K_io io io'"
    and "udfread_file_open lib (scsi_block_input reader) path u io = Some (r', io') \<Longrightarrow> K_io io io'"
    and "udfread_file_read lib (scsi_block_input reader) f n u io = Some (r'', io') \<Longrightarrow> K_io io io'"
proof -
  have "reflp K_io" by (simp add: reflp_def K_io_def K_refl)
  moreover have "transp K_io" unfolding transp_def K_io_def using K_trans by blast
  moreover have "\<forall>lba n bs s r s'. bi_read (scsi_block_input reader) lba n bs s = Some (r, s') \<longrightarrow> K_io s s'"
    using read_cb_keeps by blast
  ultimately have all: "(\<forall>s. K_io s (snd (udfread_init lib s))) \<and> (\<forall>u s. K_io s (udfread_close lib u s)) \<and>
      (\<forall>u s r s'. udfread_open_input lib (scsi_block_input reader) u s = Some (r, s') \<longrightarrow> K_io s s') \<and>
      (\<forall>path u s r s'. udfread_file_open lib (scsi_block_input reader) path u s = Some (r, s') \<longrightarrow> K_io s s') \<and>
      (\<forall>f n u s r s'. udfread_file_read lib (scsi_block_input reader) f n u s = Some (r, s') \<longrightarrow> K_io s s')"
    using assms [unfolded udf_lib_confined_def, rule_format, of K_io "scsi_block_input reader"] by blast
  then show "K_io io (snd (udfread_init lib io))" and "K_io io (udfread_close lib u io)"
    and "udfread_open_input lib (scsi_block_input reader) u io = Some (r, io') \<Longrightarrow> K_io io io'"
    and "udfread_file_open lib (scsi_block_input reader) path u io = Some (r', io') \<Longrightarrow> K_io io io'"
    and "udfread_file_read lib (scsi_block_input reader) f n u io = Some (r'', io') \<Longrightarrow> K_io io io'"
    by blast+
qed

lemma K_io_trans: "K_io a b \<Longrightarrow> K_io b c \<Longrightarrow> K_io a c"
  unfolding K_io_def by (rule K_trans)

lemma zone_keeps:
  assumes lib: "udf_lib_confined lib"
    and run: "udf_zone_present lib (scsi_block_input reader) path magic u io = Some (r, io')"
  shows "K_io io io'"
proof -
  obtain f u1 io1 where 1: "udfread_file_open lib (scsi_block_input reader) (ascii path) u io = Some ((f, u1), io1)"
    using run by (auto simp: udf_zone_present_def split: option.splits)
  have "io' = io1 \<or> (\<exists>f n r. udfread_file_read lib (scsi_block_input reader) f n u1 io1 = Some (r, io'))"
    using run 1 by (auto simp: udf_zone_present_def split: option.splits)
  with confined_keeps(4) [OF lib 1] confined_keeps(5) [OF lib] K_io_trans show ?thesis by blast
qed

lemma layout_keeps:
  assumes lib: "udf_lib_confined lib" and run: "udf_layout lib (scsi_block_input reader) u io = Some (r, io')"
  shows "K_io io io'"
proof -
  let ?inp = "scsi_block_input reader"
  obtain video u1 io1 where 1: "video_zone lib ?inp u io = Some ((video, u1), io1)"
    using run by (auto simp: udf_layout_def split: option.splits)
  have audio: "K_io io2 io3" if "audio_zone lib ?inp u2 io2 = Some (x, io3)" for u2 io2 x io3
    by (rule zone_keeps [OF lib that [unfolded audio_zone_def]])
  have "(\<exists>u2 x. audio_zone lib ?inp u2 io1 = Some (x, io')) \<or>
      (\<exists>path x io2. udfread_file_open lib ?inp path u1 io1 = Some (x, io2) \<and>
         (io' = io2 \<or> (\<exists>u3 y. audio_zone lib ?inp u3 io2 = Some (y, io'))))"
    using run 1 by (auto simp: udf_layout_def split: option.splits bool.splits) blast+
  then have "K_io io1 io'"
    using audio confined_keeps(4) [OF lib] K_io_trans by metis
  with zone_keeps [OF lib 1 [unfolded video_zone_def]] show ?thesis by (rule K_io_trans)
qed

lemma detect_udf_keeps:
  assumes lib: "udf_lib_confined lib" and run: "detect_udf_disc lib reader label s = Some (x, s')"
  shows "K s s'"
proof -
  let ?inp = "scsi_block_input reader"
  obtain mounted io where 0: "udfread_init lib (False, s) = (mounted, io)"
    by (rule prod.exhaust)
  have start: "K_io (False, s) io" using confined_keeps(1) [OF lib, of "(False, s)"] 0 by simp
  have "K_io (False, s) (True, s')"
  proof (cases mounted)
    case None
    with run 0 start show ?thesis by (auto simp: detect_udf_disc_def Let_def K_io_def)
  next
    case (Some u)
    obtain ret u1 io1 where 1: "udfread_open_input lib ?inp u io = Some ((ret, u1), io1)"
      using run 0 Some by (auto simp: detect_udf_disc_def Let_def split: option.splits)
    have io1: "K_io (False, s) io1" by (rule K_io_trans [OF start confined_keeps(3) [OF lib 1]])
    have "s' = snd (udfread_close lib u1 io1) \<or> (\<exists>r io2 u2. udf_layout lib ?inp u1 io1 = Some (r, io2) \<and>
        s' = snd (udfread_close lib u2 io2))"
      using run 0 Some 1 by (auto simp: detect_udf_disc_def Let_def split: option.splits if_splits)
    then show ?thesis
    proof (elim disjE exE conjE)
      assume "s' = snd (udfread_close lib u1 io1)"
      with K_io_trans [OF io1 confined_keeps(2) [OF lib]] show ?thesis by (simp add: K_io_def)
    next
      fix r io2 u2 assume 2: "udf_layout lib ?inp u1 io1 = Some (r, io2)" "s' = snd (udfread_close lib u2 io2)"
      with K_io_trans [OF K_io_trans [OF io1 layout_keeps [OF lib 2(1)]] confined_keeps(2) [OF lib]]
      show ?thesis by (simp add: K_io_def)
    qed
  qed
  then show ?thesis by (simp add: K_io_def)
qed

lemma identify_udf_keeps: "udf_lib_confined lib \<Longrightarrow> identify_udf lib reader out s = Some (x, s') \<Longrightarrow> K s s'"
  by (auto simp: identify_udf_def dest: detect_udf_keeps)

section \<open>Identification\<close>

lemma medium_keeps: "read_medium cmd s = Some (m, s') \<Longrightarrow> K s s'"
  by (auto simp: read_medium_def Let_def split: option.splits if_splits dest: cmd_keeps)

lemma toc_keeps: "read_cd_toc cmd s = Some (r, s') \<Longrightarrow> K s s'"
  by (auto simp: read_cd_toc_def split: option.splits if_splits dest: cmd_keeps)

lemma identify_ready_keeps:
  assumes lib: "udf_lib_confined lib" and run: "identify_ready lib cmd reader s = Some (out, s')"
  shows "K s s'"
proof -
  obtain medium s1 where 1: "read_medium cmd s = Some (medium, s1)"
    using run by (auto simp: identify_ready_def split: option.splits)
  obtain toc lba s2 where 2: "(if medium = MEDIUM_CD \<or> medium = MEDIUM_UNKNOWN then read_cd_toc cmd s1
      else Some ((CD_TOC_NONE, 0), s1)) = Some ((toc, lba), s2)"
    using run 1 by (auto simp: identify_ready_def split: option.splits)
  have s2: "K s s2" using 2 medium_keeps [OF 1] toc_keeps K_trans by (auto split: if_splits)
  have iso: "K a b" if "identify_iso reader l o1 a = Some (x, b)" for l o1 a x b
    using that by (rule identify_iso_keeps)
  have udf: "K a b" if "identify_udf lib reader o1 a = Some (x, b)" for o1 a x b
    by (rule identify_udf_keeps [OF lib that])
  show ?thesis
  proof (cases "toc = CD_TOC_AUDIO")
    case True
    with run 1 2 s2 show ?thesis by (simp add: identify_ready_def)
  next
    case False
    obtain hit o1 s3 where 3: "(if medium = MEDIUM_CD \<and> toc = CD_TOC_DATA then identify_iso reader lba blank_disc s2
        else Some ((False, blank_disc), s2)) = Some ((hit, o1), s3)"
      using run 1 2 False by (auto simp: identify_ready_def split: option.splits)
    have s3: "K s s3" using 3 s2 iso K_trans by (auto split: if_splits)
    have "s' = s3 \<or> (\<exists>x s4. identify_udf lib reader o1 s3 = Some (x, s4) \<and>
        (s' = s4 \<or> (\<exists>o2 y. identify_iso reader lba o2 s4 = Some (y, s'))))"
      using run 1 2 3 False by (auto simp: identify_ready_def split: option.splits bool.splits if_splits)
    with s3 iso udf K_trans show ?thesis by metis
  qed
qed

end

interpretation reading: through_reads "\<lambda>s s'. threads_keep_claims h \<longrightarrow> keeps_claims s s'" "scsi_command h tk"
  "laser_read_blocks h tk" for h tk
  by unfold_locales (auto simp: laser_read_blocks_def intro: read_keeps_claims)

lemma identify_keeps_claims:
  assumes keep: "threads_keep_claims h" and lib: "udf_lib_confined lib"
    and run: "laser_disc_identify lib h tk s = Some (out, s')"
  shows "keeps_claims s s'"
proof -
  have "s' = s \<or> (\<exists>s1. laser_token_settle h tk s = Some s1 \<and>
      (s' = s1 \<or> identify_ready lib (scsi_command h tk) (laser_read_blocks h tk) s1 = Some (out, s')))"
    using run by (auto simp: laser_disc_identify_def split: if_splits option.splits)
  with settle_keeps_claims [OF keep] reading.identify_ready_keeps [OF lib, of h tk] keep keeps_claims_trans
  show ?thesis by blast
qed

end
