(* ===== verification/Client.thy ===== *)
theory Client
  imports Claims_Props Disc_Keeps Css
begin

text \<open>
  The library as a client drives it: any sequence of the calls of laser.h and laser_disc.h. The contract
  is the locale \<open>service_registry\<close>, the claim registry extended by calls that use a claimed device and
  leave the claims alone; the whole library is its interpretation.
\<close>

section \<open>The contract\<close>

datatype ('k, 'c) client_op = Take 'k | Give 'k | Use 'c

datatype ('k, 'c, 'r) client_step = Took 'k bool | Gave 'k | Used 'c 'r

fun run_client :: "('k \<Rightarrow> 's \<Rightarrow> (bool \<times> 's) option) \<Rightarrow> ('k \<Rightarrow> 's \<Rightarrow> 's) \<Rightarrow> ('c \<Rightarrow> 's \<Rightarrow> ('r \<times> 's) option) \<Rightarrow>
    ('k, 'c) client_op list \<Rightarrow> 's \<Rightarrow> (('k, 'c, 'r) client_step list \<times> 's) option" where
  "run_client acq rel srv [] s = Some ([], s)"
| "run_client acq rel srv (Take k # ops) s =
     (case acq k s of None \<Rightarrow> None
      | Some (b, s1) \<Rightarrow> map_option (\<lambda>(steps, s'). (Took k b # steps, s')) (run_client acq rel srv ops s1))"
| "run_client acq rel srv (Give k # ops) s =
     map_option (\<lambda>(steps, s'). (Gave k # steps, s')) (run_client acq rel srv ops (rel k s))"
| "run_client acq rel srv (Use c # ops) s =
     (case srv c s of None \<Rightarrow> None
      | Some (r, s1) \<Rightarrow> map_option (\<lambda>(steps, s'). (Used c r # steps, s')) (run_client acq rel srv ops s1))"

text \<open>The claims a history leaves, token by token: acquires that succeeded, less releases.\<close>

fun claims_after :: "('k, 'c, 'r) client_step list \<Rightarrow> ('k \<Rightarrow> nat) \<Rightarrow> 'k \<Rightarrow> nat" where
  "claims_after [] c = c"
| "claims_after (Took k b # steps) c = claims_after steps (if b then c(k := c k + 1) else c)"
| "claims_after (Gave k # steps) c = claims_after steps (c(k := c k - 1))"
| "claims_after (Used _ _ # steps) c = claims_after steps c"

locale service_registry = claim_registry ok counts acquire release
  for ok :: "'s \<Rightarrow> bool" and counts :: "'s \<Rightarrow> 'k \<Rightarrow> nat"
    and acquire :: "'k \<Rightarrow> 's \<Rightarrow> (bool \<times> 's) option" and release :: "'k \<Rightarrow> 's \<Rightarrow> 's" +
  fixes serve :: "'c \<Rightarrow> 's \<Rightarrow> ('r \<times> 's) option"
  assumes serve_keeps: "ok s \<Longrightarrow> serve c s = Some (r, s') \<Longrightarrow> ok s' \<and> counts s' = counts s"
begin

lemma client_refines:
  "ok s \<Longrightarrow> run_client acquire release serve ops s = Some (steps, s') \<Longrightarrow>
     ok s' \<and> counts s' = claims_after steps (counts s)"
proof (induction ops arbitrary: s steps)
  case (Cons op ops)
  show ?case
  proof (cases op)
    case (Take k)
    with Cons.prems obtain b s1 rest where step: "acquire k s = Some (b, s1)"
      "run_client acquire release serve ops s1 = Some (rest, s')" "steps = Took k b # rest"
      by (auto split: option.splits)
    from Cons.IH [OF acquire_ok [OF Cons.prems(1) step(1)] step(2)]
      acquire_counts [OF Cons.prems(1) step(1)] step(3)
    show ?thesis by (simp add: fun_upd_def)
  next
    case (Give k)
    with Cons.prems obtain rest where step: "run_client acquire release serve ops (release k s) = Some (rest, s')"
      "steps = Gave k # rest" by auto
    from Cons.IH [OF release_ok [OF Cons.prems(1)] step(1)] release_counts [OF Cons.prems(1)] step(2)
    show ?thesis by (simp add: fun_upd_def)
  next
    case (Use c)
    with Cons.prems obtain r s1 rest where step: "serve c s = Some (r, s1)"
      "run_client acquire release serve ops s1 = Some (rest, s')" "steps = Used c r # rest"
      by (auto split: option.splits)
    from Cons.IH [OF _ step(2)] serve_keeps [OF Cons.prems(1) step(1)] step(3) show ?thesis by simp
  qed
qed simp

end

lemma run_client_returns:
  assumes "\<And>k s. acq k s \<noteq> None" and "\<And>c s. srv c s \<noteq> None"
  shows "\<exists>steps s'. run_client acq rel srv ops s = Some (steps, s')"
proof (induction ops arbitrary: s)
  case (Cons op ops)
  show ?case
  proof (cases op)
    case (Take k)
    obtain b s1 where 1: "acq k s = Some (b, s1)" using assms(1) by fastforce
    obtain steps s' where "run_client acq rel srv ops s1 = Some (steps, s')" using Cons.IH by blast
    with Take 1 show ?thesis by simp
  next
    case (Give k)
    obtain steps s' where "run_client acq rel srv ops (rel k s) = Some (steps, s')" using Cons.IH by blast
    with Give show ?thesis by simp
  next
    case (Use c)
    obtain r s1 where 1: "srv c s = Some (r, s1)" using assms(2) by fastforce
    obtain steps s' where "run_client acq rel srv ops s1 = Some (steps, s')" using Cons.IH by blast
    with Use 1 show ?thesis by simp
  qed
qed simp

section \<open>The calls\<close>

text \<open>The calls that take a token besides acquire and release, with their arguments and results.\<close>

datatype api_call =
    Scsi_Cdb "byte list option" int "byte list option" int bool "int option"
  | Read_Blocks u32 int "byte list"
  | Read_Cd_Blocks u32 int laser_cd_sector "byte list"
  | Css_Session_Begin "cookie option"
  | Css_Session_End "cookie option"
  | Region_Mismatch "byte option" "byte option"
  | Disc_Identify

datatype api_result =
    Res_Command cdb_out
  | Res_Read int "byte list"
  | Res_Status laser_status
  | Res_Void
  | Res_Region "bool \<times> byte option \<times> byte option"
  | Res_Disc laser_disc

fun api_serve :: "('u, 'w udf_io) udf_lib \<Rightarrow> 'w timed_wait \<Rightarrow> 'w host \<Rightarrow> int \<times> api_call \<Rightarrow> 'w sys \<Rightarrow>
    (api_result \<times> 'w sys) option" where
  "api_serve lib wait h (tk, Scsi_Cdb cdb n data len inward act) s =
     map_option (\<lambda>(o', s'). (Res_Command o', s')) (laser_scsi_cdb h tk cdb n data len inward act s)"
| "api_serve lib wait h (tk, Read_Blocks lba n bytes) s =
     map_option (\<lambda>(r, b, s'). (Res_Read r b, s')) (laser_read_blocks h tk lba n bytes s)"
| "api_serve lib wait h (tk, Read_Cd_Blocks lba n sector bytes) s =
     map_option (\<lambda>(r, b, s'). (Res_Read r b, s')) (laser_read_cd_blocks h tk lba n sector bytes s)"
| "api_serve lib wait h (tk, Css_Session_Begin owner) s =
     map_option (\<lambda>(st, s'). (Res_Status st, s')) (laser_css_session_begin wait h tk owner s)"
| "api_serve lib wait h (tk, Css_Session_End owner) s = Some (Res_Void, laser_css_session_end tk owner s)"
| "api_serve lib wait h (tk, Region_Mismatch dm xm) s =
     map_option (\<lambda>(r, s'). (Res_Region r, s')) (laser_region_mismatch h tk dm xm s)"
| "api_serve lib wait h (tk, Disc_Identify) s =
     map_option (\<lambda>(out, s'). (Res_Disc out, s')) (laser_disc_identify lib h tk s)"

section \<open>Every call keeps the claims\<close>

lemma scsi_cdb_keeps_claims:
  assumes "threads_keep_claims h" and run: "laser_scsi_cdb h tk cdb n data len inward act s = Some (o', s')"
  shows "keeps_claims s s'"
proof (cases cdb)
  case None
  with run show ?thesis by (simp add: laser_scsi_cdb_def)
next
  case (Some bytes)
  with run command_keeps_claims [OF assms(1), of tk bytes] show ?thesis by (simp add: scsi_command_def)
qed

lemma same_but_css_kept: "same_but_css e e' \<Longrightarrow> entry_rely e e' \<and> refs e' = refs e"
  unfolding same_but_css_def by (erule ssubst) (simp add: entry_rely_def)

lemma css_put_keeps:
  assumes "laser_lookup tk s = Some i" and "trace d = trace s" and "same_but_css (g_entries s ! i) (ent d)"
  shows "keeps_claims s (put_dev i d s)"
  using keeps_claims_put [OF assms(1), of d] same_but_css_kept [OF assms(3)] assms(2)
  by (simp add: undisturbed_def quiet_step_def entry_rely_def)

lemma css_end_keeps_claims: "keeps_claims s (laser_css_session_end tk owner s)"
proof (cases "laser_lookup tk s")
  case (Some i)
  have "same_but_css e (snd (css_close owner e))" for e
    by (simp add: css_close_def same_but_css_def)
  with Some show ?thesis by (simp add: laser_css_session_end_def css_put_keeps [OF Some])
qed (simp add: laser_css_session_end_def)

lemma css_begin_keeps_claims:
  assumes "wait_until_deadline wait now_ns" and "wait_keeps wait"
    and run: "laser_css_session_begin wait h tk owner s = Some (st, s')"
  shows "keeps_claims s s'"
proof (cases "owner = None \<or> laser_lookup tk s = None")
  case True
  with run show ?thesis by (auto simp: laser_css_session_begin_def split: option.splits)
next
  case False
  then obtain c i where at: "owner = Some c" "laser_lookup tk s = Some i" by auto
  obtain t d where 1: "do_clock h (dev_of i s) = (t, d)" by fastforce
  then have d: "ent d = g_entries s ! i" "trace d = trace s"
    using do_clock_frame [of h "dev_of i s"] by simp_all
  obtain st' d' where 2: "css_wait_loop wait (css_deadline t LASER_CSS_SESSION_MAX_WAIT_MS) c d = Some (st', d')"
    "trace d' = trace d" "same_but_css (ent d) (ent d')"
    using css_wait_loop_result [OF assms(1,2)] by blast
  with run at 1 have "s' = put_dev i d' s" by (simp add: laser_css_session_begin_def)
  with css_put_keeps [OF at(2), of d'] 2 d show ?thesis by simp
qed

lemma call_keeps_claims:
  assumes keep: "threads_keep_claims h" and wait: "wait_until_deadline wait now_ns" "wait_keeps wait"
    and lib: "udf_lib_confined lib" and run: "api_serve lib wait h (tk, c) s = Some (r, s')"
  shows "keeps_claims s s'"
proof (cases c)
  case (Scsi_Cdb cdb n data len inward act)
  with run scsi_cdb_keeps_claims [OF keep] show ?thesis by auto
next
  case (Read_Blocks lba n bytes)
  with run read_keeps_claims [OF keep] show ?thesis by (auto simp: laser_read_blocks_def)
next
  case (Read_Cd_Blocks lba n sector bytes)
  with run read_keeps_claims [OF keep] show ?thesis
    by (auto simp: laser_read_cd_blocks_def split: option.splits)
next
  case (Css_Session_Begin owner)
  with run css_begin_keeps_claims [OF wait] show ?thesis by auto
next
  case (Css_Session_End owner)
  with run css_end_keeps_claims show ?thesis by auto
next
  case (Region_Mismatch dm xm)
  with run keeping.region_check_keeps [of h tk] keep show ?thesis by (auto simp: laser_region_mismatch_def)
next
  case Disc_Identify
  with run identify_keeps_claims [OF keep lib] show ?thesis by auto
qed

section \<open>What keeps the claims keeps the registry\<close>

text \<open>The transfer cap of a registered entry stays between its floor and its start.\<close>

definition caps_ok :: "'w sys \<Rightarrow> bool" where
  "caps_ok s \<longleftrightarrow> (\<forall>i < LASER_MAX_DEVICES. in_use (g_entries s ! i) \<longrightarrow>
     LASER_MIN_BYTES_PER_TRANSFER \<le> max_transfer_bytes (g_entries s ! i) \<and>
     max_transfer_bytes (g_entries s ! i) \<le> LASER_MAX_BYTES_PER_TRANSFER)"

lemma owned_sum: "owned es = sum_list (map owned_by es)"
  by (induction es) simp_all

text \<open>A registered entry's handle is open and its interface claimed.\<close>

lemma registered_usable:
  assumes "registered s hn"
  shows "usable (owned (g_entries s) + K) hn"
proof -
  obtain i where i: "i < length (g_entries s)" "in_use (g_entries s ! i)" "handle (g_entries s ! i) = hn"
    using assms by (auto simp: registered_def)
  have "owned (g_entries s) = owned ((g_entries s)[i := zero_entry]) + base_of (g_entries s ! i)"
    using owned_update [OF i(1), of zero_entry] i(2) by (simp add: owned_by_def zero_entry_def)
  moreover have "usable (base_of (g_entries s ! i)) hn" using i(3) by (simp add: usable_def base_of_def)
  note usable_more [OF this, of "K + owned ((g_entries s)[i := zero_entry])"]
  ultimately show ?thesis by (simp add: ac_simps)
qed

lemma owned_by_kept: "entry_rely e e' \<Longrightarrow> owned_by e' = owned_by e"
  by (simp add: owned_by_def base_of_def entry_rely_def)

lemma keeps_claims_registry:
  assumes "registry_inv h s" and "caps_ok s" and keeps: "keeps_claims s s'"
  shows "registry_inv h s'" and "caps_ok s'" and "claims s' = claims s"
proof -
  obtain evs where evs: "trace s' = trace s @ evs" "quiet (registered s) evs"
    using keeps by (auto simp: keeps_claims_def)
  have len: "length (g_entries s') = length (g_entries s)"
    and rely: "\<And>i. entry_rely (g_entries s ! i) (g_entries s' ! i)"
    and same: "\<And>i. refs (g_entries s' ! i) = refs (g_entries s ! i)"
    using keeps by (simp_all add: keeps_claims_def)
  have fields: "in_use (g_entries s' ! i) = in_use (g_entries s ! i)"
    "token (g_entries s' ! i) = token (g_entries s ! i)" for i
    using rely [of i] by (simp_all add: entry_rely_def)
  have inv: "unpublished h" "threads_rely h" "registry_ok s" "accounted s"
    using assms(1) unfolding registry_inv_def by blast+
  have ok: "registry_ok s'" using inv(3) unfolding registry_ok_def by (simp add: len fields same)
  have "map owned_by (g_entries s') = map owned_by (g_entries s)"
    by (rule nth_equalityI) (simp_all add: len owned_by_kept [OF rely])
  then have "owned (g_entries s') = owned (g_entries s)" unfolding owned_sum by simp
  moreover have "resources evs (owned (g_entries s) + K) = Some (owned (g_entries s) + K)" for K
    by (rule resources_quiet [OF evs(2)]) (rule registered_usable)
  ultimately have "accounted s'"
    using inv(4) evs(1) unfolding accounted_def by (auto simp: resources_append)
  with ok inv show "registry_inv h s'" by (simp add: registry_inv_def)
  show "caps_ok s'" unfolding caps_ok_def
  proof (intro allI impI)
    fix i assume i: "i < LASER_MAX_DEVICES" "in_use (g_entries s' ! i)"
    then have "in_use (g_entries s ! i)" by (simp add: fields)
    with assms(2) i(1) rely [of i]
    show "LASER_MIN_BYTES_PER_TRANSFER \<le> max_transfer_bytes (g_entries s' ! i) \<and>
        max_transfer_bytes (g_entries s' ! i) \<le> LASER_MAX_BYTES_PER_TRANSFER"
      unfolding caps_ok_def entry_rely_def by force
  qed
  have "laser_lookup tk s' = laser_lookup tk s" for tk
    by (rule option_eqI) (simp add: lookup_iff [OF ok] lookup_iff [OF inv(3)] fields)
  then show "claims s' = claims s"
    by (simp add: claims_def fun_eq_iff same cong: option.case_cong)
qed

lemma caps_update:
  assumes "caps_ok s" and "length (g_entries s) = LASER_MAX_DEVICES" and es: "g_entries s' = (g_entries s)[i := e]"
    and "in_use e \<Longrightarrow> LASER_MIN_BYTES_PER_TRANSFER \<le> max_transfer_bytes e \<and>
      max_transfer_bytes e \<le> LASER_MAX_BYTES_PER_TRANSFER"
  shows "caps_ok s'"
  unfolding caps_ok_def
proof (intro allI impI)
  fix j assume j: "j < LASER_MAX_DEVICES" "in_use (g_entries s' ! j)"
  then have "g_entries s' ! j = (if j = i then e else g_entries s ! j)"
    using es assms(2) by (simp add: nth_list_update)
  with j assms(1,4) show "LASER_MIN_BYTES_PER_TRANSFER \<le> max_transfer_bytes (g_entries s' ! j) \<and>
      max_transfer_bytes (g_entries s' ! j) \<le> LASER_MAX_BYTES_PER_TRANSFER"
    by (cases "j = i") (simp_all add: caps_ok_def)
qed

lemma claimed_cap:
  assumes "caps_ok s" and "laser_lookup tk s = Some i"
  shows "LASER_MIN_BYTES_PER_TRANSFER \<le> max_transfer_bytes (g_entries s ! i) \<and>
    max_transfer_bytes (g_entries s ! i) \<le> LASER_MAX_BYTES_PER_TRANSFER"
  using assms(1) laser_lookup_Some(2,3) [OF assms(2)] unfolding caps_ok_def by blast

lemma acquire_keeps_caps:
  assumes inv: "registry_inv h s" and caps: "caps_ok s" and run: "laser_acquire h tk s = Some (st, s')"
  shows "caps_ok s'"
proof -
  have len: "length (g_entries s) = LASER_MAX_DEVICES"
    using inv registry_okD(1) unfolding registry_inv_def by blast
  from inv run show ?thesis
  proof (cases rule: laser_acquire_cases)
    case recycled
    with caps show ?thesis by (simp add: caps_ok_def)
  next
    case (another i)
    from caps_update [OF caps len another(4)] claimed_cap [OF caps another(2)] show ?thesis by simp
  next
    case (failed i)
    from caps_update [OF caps len failed(5)] show ?thesis by (simp add: zero_entry_def)
  next
    case (first i e)
    from caps_update [OF caps len first(5)] first(12) show ?thesis by simp
  qed
qed

lemma release_keeps_caps:
  assumes inv: "registry_inv h s" and caps: "caps_ok s"
  shows "caps_ok (laser_release h tk s)"
proof -
  have len: "length (g_entries s) = LASER_MAX_DEVICES"
    using inv registry_okD(1) unfolding registry_inv_def by blast
  from inv show ?thesis
  proof (cases rule: laser_release_cases [where tk = tk])
    case unknown
    with caps show ?thesis by simp
  next
    case (others i)
    from caps_update [OF caps len others(4)] claimed_cap [OF caps others(1)] show ?thesis by simp
  next
    case (last i d)
    from caps_update [OF caps len last(7)] show ?thesis by (simp add: zero_entry_def)
  qed
qed

section \<open>The library provides the contract\<close>

definition library_inv :: "('u, 'w udf_io) udf_lib \<Rightarrow> 'w timed_wait \<Rightarrow> 'w host \<Rightarrow> 'w sys \<Rightarrow> bool" where
  "library_inv lib wait h s \<longleftrightarrow> registry_inv h s \<and> caps_ok s \<and> threads_keep_claims h \<and>
     (\<exists>now_ns. wait_until_deadline wait now_ns) \<and> wait_keeps wait \<and> udf_lib_confined lib"

interpretation library: service_registry "library_inv lib wait h" claims "try_acquire h" "laser_release h"
  "api_serve lib wait h" for lib wait h
proof
  fix s s' k b
  assume inv: "library_inv lib wait h s" and "try_acquire h k s = Some (b, s')"
  then obtain st where run: "laser_acquire h k s = Some (st, s')" "b = (st = LASER_OK)"
    by (auto simp: try_acquire_def)
  from inv have r: "registry_inv h s" "caps_ok s" by (simp_all add: library_inv_def)
  from acquire_keeps(1) [OF r(1) run(1)] acquire_keeps_caps [OF r run(1)] inv
  show "library_inv lib wait h s'" by (simp add: library_inv_def)
  from acquire_keeps(2) [OF r(1) run(1)] run(2)
  show "claims s' = (if b then (claims s)(k := claims s k + 1) else claims s)" by simp
next
  fix s k
  assume inv: "library_inv lib wait h s"
  then have r: "registry_inv h s" "caps_ok s" by (simp_all add: library_inv_def)
  from release_keeps(1) [OF r(1)] release_keeps_caps [OF r] inv
  show "library_inv lib wait h (laser_release h k s)" by (simp add: library_inv_def)
  show "claims (laser_release h k s) = (claims s)(k := claims s k - 1)" by (rule release_keeps(2) [OF r(1)])
next
  fix s c r s'
  assume inv: "library_inv lib wait h s" and run: "api_serve lib wait h c s = Some (r, s')"
  obtain now_ns where env: "registry_inv h s" "caps_ok s" "threads_keep_claims h"
    "wait_until_deadline wait now_ns" "wait_keeps wait" "udf_lib_confined lib"
    using inv unfolding library_inv_def by blast
  from run have "api_serve lib wait h (fst c, snd c) s = Some (r, s')" by simp
  from keeps_claims_registry [OF env(1,2) call_keeps_claims [OF env(3-6) this]] env
  show "library_inv lib wait h s' \<and> claims s' = claims s" unfolding library_inv_def by blast
qed

section \<open>Every call returns\<close>

lemma api_serve_returns:
  assumes host: "serviceable h" and wait: "wait_until_deadline wait now_ns" "wait_keeps wait"
    and lib: "udf_lib_returns lib"
  shows "api_serve lib wait h (tk, c) s \<noteq> None"
proof -
  obtain clock changes where docs: "clock_monotonic h clock"
    "finitely_many_changes (laser_bot_send_locked h) h changes"
    using host by (auto simp: serviceable_def)
  note answers = scsi_command_answers [OF docs]
  have reads: "read_chunked (scsi_command h tk) h tk lba n bs m build bytes s \<noteq> None" for lba n bs m build bytes s
    using read_loop_answers [where cmd = "scsi_command h tk", OF answers] by (simp add: read_chunked_def)
  show ?thesis
  proof (cases c)
    case (Scsi_Cdb cdb n data len inward act)
    with answers [of tk _ n data len inward act s] show ?thesis
      by (cases cdb) (simp_all add: scsi_command_def laser_scsi_cdb_def [of _ _ None])
  next
    case (Read_Blocks lba n bytes)
    with reads show ?thesis by (simp add: laser_read_blocks_def)
  next
    case (Read_Cd_Blocks lba n sector bytes)
    with reads show ?thesis by (simp add: laser_read_cd_blocks_def split: option.split)
  next
    case (Css_Session_Begin owner)
    have "css_wait_loop wait dl k d \<noteq> None" for dl k d
      using css_wait_loop_result [OF wait, of dl k d] by auto
    with Css_Session_Begin show ?thesis
      by (simp add: laser_css_session_begin_def case_prod_unfold split: option.split)
  next
    case (Region_Mismatch dm xm)
    have bytes: "eight_bytes (scsi_command h tk) cdb x \<noteq> None" for cdb x
      using answers by (simp add: eight_bytes_def split: option.split prod.split)
    obtain rpc s1 where 1: "report_rpc_state (scsi_command h tk) s = Some (rpc, s1)"
      using bytes [of report_rpc_cdb s] by (auto simp: report_rpc_state_def)
    obtain mask s2 where 2: "read_disc_region_mask (scsi_command h tk) s1 = Some (mask, s2)"
      using bytes [of dvd_copyright_cdb s1] by (auto simp: read_disc_region_mask_def)
    from 1 2 Region_Mismatch show ?thesis
      by (cases rpc; cases mask) (auto simp: laser_region_mismatch_def region_check_def Let_def)
  next
    case Disc_Identify
    from identify_returns [OF host lib, of tk s] Disc_Identify show ?thesis by auto
  qed simp
qed

end
