(* ===== verification/Client_Props.thy ===== *)
theory Client_Props
  imports Client Css_Props
begin

text \<open>
  Properties of whole histories: whatever a client calls, in whatever order and on whatever tokens, the
  registry stays in order, every call returns, and a client that gives back what it took leaves nothing
  behind.
\<close>

section \<open>From the empty table\<close>

lemma history_start:
  assumes "unpublished h" and "threads_keep_claims h" and "wait_until_deadline wait now_ns"
    and "wait_keeps wait" and "udf_lib_confined lib"
  shows "library_inv lib wait h (empty_table w)"
proof -
  have "caps_ok (empty_table w)" by (simp add: caps_ok_def empty_table_def zero_entry_def)
  with empty_table_inv(1) [OF assms(1) threads_keep_rely [OF assms(2)], of w] assms
  show ?thesis unfolding library_inv_def by blast
qed

lemma histories_refine:
  assumes "unpublished h" and "threads_keep_claims h" and "wait_until_deadline wait now_ns"
    and "wait_keeps wait" and "udf_lib_confined lib"
    and "run_client (try_acquire h) (laser_release h) (api_serve lib wait h) ops (empty_table w) = Some (steps, s')"
  shows "library_inv lib wait h s'" and "claims s' = claims_after steps (\<lambda>_. 0)"
  using library.client_refines [OF history_start [OF assms(1-5)] assms(6)]
    empty_table_inv(2) [OF assms(1) threads_keep_rely [OF assms(2)], of w] by simp_all

lemma history_returns:
  assumes "serviceable h" and "wait_until_deadline wait now_ns" and "wait_keeps wait" and "udf_lib_returns lib"
  shows "\<exists>steps s'. run_client (try_acquire h) (laser_release h) (api_serve lib wait h) ops s = Some (steps, s')"
proof (rule run_client_returns)
  obtain clock where "clock_monotonic h clock" using assms(1) by (auto simp: serviceable_def)
  from laser_acquire_returns [OF this] show "try_acquire h k s \<noteq> None" for k s
    by (simp add: try_acquire_def not_None_eq)
  show "api_serve lib wait h c s \<noteq> None" for c s
    using api_serve_returns [OF assms, of "fst c" "snd c" s] by simp
qed

text \<open>No claim, no entry: what is registered is claimed.\<close>

lemma unclaimed_table:
  assumes ok: "registry_ok s" and none: "\<And>tk. claims s tk = 0"
  shows "\<forall>e \<in> set (g_entries s). \<not> in_use e"
proof (rule ballI, rule notI)
  fix e assume "e \<in> set (g_entries s)" "in_use e"
  then obtain i where i: "i < LASER_MAX_DEVICES" "e = g_entries s ! i" "in_use (g_entries s ! i)"
    using registry_okD(1) [OF ok] by (metis in_set_conv_nth)
  then have "laser_lookup (token e) s = Some i" using lookup_iff [OF ok] by simp
  with none [of "token e"] registry_okD(2) [OF ok i(1,3)] show False by (simp add: claims_def)
qed

lemma threads_keep_sim: "threads_keep_claims sim_host"
  using sim_threads_rely by (simp add: threads_keep_claims_def sim_host_def)

text \<open>A sample history: a drive is claimed, identified, read under a session, and given back.\<close>

definition sample_calls :: "(int, int \<times> api_call) client_op list" where
  "sample_calls = [Take 42, Use (42, Disc_Identify), Use (42, Css_Session_Begin (Some 1)),
     Use (42, Read_Blocks 16 1 (replicate 2048 0)), Use (42, Css_Session_End (Some 1)), Give 42]"

lemma sample_history:
  "\<exists>steps s'. run_client (try_acquire sim_host) (laser_release sim_host)
      (api_serve (table_udf dvd_files []) held_wait sim_host) sample_calls (empty_table (sim_world script)) =
      Some (steps, s') \<and> claims_after steps (\<lambda>_. 0) = (\<lambda>_. 0)"
proof -
  obtain steps s' where run: "run_client (try_acquire sim_host) (laser_release sim_host)
      (api_serve (table_udf dvd_files []) held_wait sim_host) sample_calls (empty_table (sim_world script)) =
      Some (steps, s')"
    using history_returns [OF sim_serviceable sample_waits(1,2) table_udf_returns] by blast
  then have "\<exists>b r1 r2 r3 r4. steps = [Took 42 b, Used (42, Disc_Identify) r1,
      Used (42, Css_Session_Begin (Some 1)) r2, Used (42, Read_Blocks 16 1 (replicate 2048 0)) r3,
      Used (42, Css_Session_End (Some 1)) r4, Gave 42]"
    by (auto simp: sample_calls_def simp del: api_serve.simps split: option.splits)
  then have "claims_after steps (\<lambda>_. 0) = (\<lambda>_. 0)" by (auto simp: fun_eq_iff)
  with run show ?thesis by blast
qed

section \<open>The properties\<close>

text \<open>C4: whatever is called, in whatever order and with whatever outcomes, the table stays well formed (no
  registered entry without claims, no token twice), the transfer caps stay in their range, and the
  trace is accounted for: nothing is given back that is not held, no transfer goes to a handle that is
  not open with its interface claimed, and every lock, context, handle and interface set up and not
  given back belongs to a registered entry; once every claim has been given back, every slot is free
  and only detached kernel drivers are held.\<close>

theorem client_histories_keep_registry:
  assumes "unpublished h" and "threads_keep_claims h" and "wait_until_deadline wait now_ns"
    and "wait_keeps wait" and "udf_lib_confined lib"
    and "run_client (try_acquire h) (laser_release h) (api_serve lib wait h) ops (empty_table w) = Some (steps, s')"
  shows "registry_ok s' \<and> accounted s' \<and> caps_ok s' \<and>
    ((\<forall>tk. claims_after steps (\<lambda>_. 0) tk = 0) \<longrightarrow>
       (\<forall>e \<in> set (g_entries s'). \<not> in_use e) \<and>
       (\<exists>K. resources (trace s') {#} = Some K \<and> (\<forall>r \<in># K. \<exists>hn n. r = Res_Kernel_Driver hn n)))"
proof -
  have inv: "registry_ok s'" "accounted s'" "caps_ok s'"
    using histories_refine(1) [OF assms] by (simp_all add: library_inv_def registry_inv_def)
  have "(\<forall>e \<in> set (g_entries s'). \<not> in_use e) \<and>
      (\<exists>K. resources (trace s') {#} = Some K \<and> (\<forall>r \<in># K. \<exists>hn n. r = Res_Kernel_Driver hn n))"
    if "\<forall>tk. claims_after steps (\<lambda>_. 0) tk = 0"
  proof -
    have free: "\<forall>e \<in> set (g_entries s'). \<not> in_use e"
      by (rule unclaimed_table [OF inv(1)]) (use that histories_refine(2) [OF assms] in simp)
    then have "owned (g_entries s') = {#}" by (intro owned_free) blast
    with free inv(2) show ?thesis unfolding accounted_def by simp
  qed
  with inv show ?thesis by blast
qed

theorem client_histories_keep_registry_witness:
  "\<exists>steps s'. run_client (try_acquire sim_host) (laser_release sim_host)
      (api_serve (table_udf dvd_files []) held_wait sim_host) sample_calls (empty_table (sim_world [])) =
      Some (steps, s') \<and> registry_ok s' \<and> accounted s' \<and> caps_ok s' \<and>
    (\<forall>e \<in> set (g_entries s'). \<not> in_use e) \<and>
    (\<exists>K. resources (trace s') {#} = Some K \<and> (\<forall>r \<in># K. \<exists>hn n. r = Res_Kernel_Driver hn n))"
proof -
  obtain steps s' where run: "run_client (try_acquire sim_host) (laser_release sim_host)
      (api_serve (table_udf dvd_files []) held_wait sim_host) sample_calls (empty_table (sim_world [])) =
      Some (steps, s')" "claims_after steps (\<lambda>_. 0) = (\<lambda>_. 0)"
    using sample_history by blast
  note kept = client_histories_keep_registry [OF sim_unpublished threads_keep_sim sample_waits(1,2)
      table_udf_confined run(1)]
  have "\<forall>tk. claims_after steps (\<lambda>_. 0) tk = 0" using run(2) by simp
  with kept run(1) show ?thesis by (intro exI [of _ steps] exI [of _ s']) simp
qed

text \<open>C7: every history of calls returns, and the registry counts claims as the abstract counter does: a
  token's count is its successful acquires less its releases, whatever else was called between.\<close>

theorem client_histories_count_claims:
  assumes "unpublished h" and "threads_keep_claims h" and "serviceable h"
    and "wait_until_deadline wait now_ns" and "wait_keeps wait"
    and "udf_lib_confined lib" and "udf_lib_returns lib"
  shows "\<exists>steps s'. run_client (try_acquire h) (laser_release h) (api_serve lib wait h) ops (empty_table w) =
      Some (steps, s') \<and> (\<forall>tk. claims s' tk = claims_after steps (\<lambda>_. 0) tk)"
proof -
  obtain steps s' where
    run: "run_client (try_acquire h) (laser_release h) (api_serve lib wait h) ops (empty_table w) = Some (steps, s')"
    using history_returns [OF assms(3-5,7)] by blast
  with histories_refine(2) [OF assms(1,2,4,5,6) run] show ?thesis by auto
qed

theorem client_histories_count_claims_witness:
  "\<exists>steps s'. run_client (try_acquire sim_host) (laser_release sim_host)
      (api_serve (table_udf dvd_files []) held_wait sim_host) (Take 43 # sample_calls) (empty_table (sim_world [])) =
      Some (steps, s') \<and> (\<forall>tk. claims s' tk = claims_after steps (\<lambda>_. 0) tk)"
  by (rule client_histories_count_claims [OF sim_unpublished threads_keep_sim sim_serviceable
        sample_waits(1,2) table_udf_confined table_udf_returns])

end
