(* ===== verification/In_Flight.thy ===== *)
theory In_Flight
  imports Claims Keeps
begin

text \<open>
  One entry, its I/O lock, and any number of threads at work on it while the last claim is dropped. A
  step is what one thread does between two points where another can get in: a read of the cancellation
  flag, the part of an attempt that follows it, a critical section. The steps run the library's own
  definitions; \<open>laser_release()\<close> appears as the raising of the flag and the drain that closes the device.
  Destroying the lock comes after and is not part of it: the comments leave it to callers that nothing
  uses the entry by then.
\<close>

section \<open>Calls in flight\<close>

text \<open>The arguments of one \<open>laser_scsi_cdb()\<close>.\<close>

record cdb_call =
  k_cdb :: "byte list"
  k_len :: int
  k_data :: "byte list option"
  k_data_len :: int
  k_in :: bool
  k_actual :: "int option"

definition call_transact ::
  "'w host \<Rightarrow> cdb_call \<Rightarrow> cdb_locals \<Rightarrow> 'w dev \<Rightarrow> laser_status option \<times> cdb_locals \<times> 'w dev" where
  "call_transact h c = cdb_transact (laser_bot_send_locked h) h (k_cdb c) (k_len c) (k_data_len c) (k_in c)
     (cdb_idempotent (k_cdb c) (k_len c) (k_data_len c) (k_in c))"

text \<open>\<open>laser_token_settle()\<close> up to the lock, and under it: whether it returns there.\<close>

definition settle_checks :: "'w host \<Rightarrow> 'w dev \<Rightarrow> bool \<times> 'w dev" where
  "settle_checks h d = (if device_gone (ent d) then (True, d) else laser_is_cancelled h d)"

definition settle_polls :: "'w host \<Rightarrow> 'w dev \<Rightarrow> bool \<times> 'w dev" where
  "settle_polls h d =
     (case test_unit_ready_locked (laser_bot_send_locked h) d of (r, d') \<Rightarrow>
        (r = BOT_OK \<or> r = BOT_FAIL_NO_DEVICE, d'))"

text \<open>With nothing in between the pieces are the whole call.\<close>

lemma settle_pieces:
  "laser_token_settle h tk s =
     (case laser_lookup tk s of
        None \<Rightarrow> Some s
      | Some i \<Rightarrow>
          (case settle_checks h (dev_of i s) of (gone, d1) \<Rightarrow>
             if gone then Some (put_dev i d1 s)
             else case settle_polls h (lock_io h d1) of (done_already, d2) \<Rightarrow>
               if done_already then Some (put_dev i d2 s)
               else map_option (\<lambda>(_, _, d3). put_dev i d3 s)
                      (laser_wait_until_ready (laser_bot_send_locked h) h d2)))"
  by (auto simp: laser_token_settle_def settle_checks_def settle_polls_def case_prod_unfold
      split: option.split)

section \<open>The steps\<close>

datatype call_phase =
    Cmd_Called cdb_call
  | Cmd_Queued cdb_call
  | Cmd_Locked cdb_call cdb_locals
  | Cmd_Sending cdb_call cdb_locals
  | Settle_Called
  | Settle_Queued
  | Wait_Called
  | Returned "cdb_out option"

datatype teardown = Claimed | Cancelling | Closed

record 'w flight =
  shared :: "'w dev"
  io_owner :: "nat option"
  threads :: "nat \<Rightarrow> call_phase"
  teardown :: teardown

datatype flight_event =
    Fl_Checks nat | Fl_Locks nat | Fl_Looks nat | Fl_Sends nat | Fl_Polls nat | Fl_Waits nat
  | Fl_Cancels | Fl_Closes

definition cdb_leave :: "laser_status \<Rightarrow> cdb_locals \<Rightarrow> nat \<Rightarrow> 'w dev \<Rightarrow> 'w flight \<Rightarrow> 'w flight" where
  "cdb_leave result L t d s =
     (case cdb_finish result L d of (st, d') \<Rightarrow>
        s\<lparr>shared := d', io_owner := None,
          threads := (threads s)(t := Returned (Some \<lparr>status = st, o_data = c_data L, o_actual = c_actual L\<rparr>))\<rparr>)"

inductive flight_step :: "'w host \<Rightarrow> 'w flight \<Rightarrow> flight_event \<Rightarrow> 'w flight \<Rightarrow> bool" for h where
  Cmd_Refused: "threads s t = Cmd_Called c \<Longrightarrow> cdb_checks h (k_cdb c) (k_len c) (shared s) = (Some st, d) \<Longrightarrow>
    flight_step h s (Fl_Checks t) (s\<lparr>shared := d, threads := (threads s)(t :=
      Returned (Some \<lparr>status = st, o_data = k_data c, o_actual = k_actual c\<rparr>))\<rparr>)"
| Cmd_Passes: "threads s t = Cmd_Called c \<Longrightarrow> cdb_checks h (k_cdb c) (k_len c) (shared s) = (None, d) \<Longrightarrow>
    flight_step h s (Fl_Checks t) (s\<lparr>shared := d, threads := (threads s)(t := Cmd_Queued c)\<rparr>)"
| Cmd_Locks: "threads s t = Cmd_Queued c \<Longrightarrow> io_owner s = None \<Longrightarrow>
    flight_step h s (Fl_Locks t) (s\<lparr>io_owner := Some t,
      threads := (threads s)(t := Cmd_Locked c (cdb_start (k_data c) (k_actual c)))\<rparr>)"
| Cmd_Exhausted: "threads s t = Cmd_Locked c L \<Longrightarrow> LASER_MAX_RETRIES < attempt L \<Longrightarrow>
    flight_step h s (Fl_Looks t) (cdb_leave LASER_ERR_IO L t (shared s) s)"
| Cmd_Gives_Up: "threads s t = Cmd_Locked c L \<Longrightarrow> attempt L \<le> LASER_MAX_RETRIES \<Longrightarrow>
    laser_is_cancelled h (shared s) = (True, d) \<Longrightarrow>
    flight_step h s (Fl_Looks t) (cdb_leave LASER_ERR_CANCELLED (L\<lparr>attempts_made := attempt L\<rparr>) t d s)"
| Cmd_Goes_On: "threads s t = Cmd_Locked c L \<Longrightarrow> attempt L \<le> LASER_MAX_RETRIES \<Longrightarrow>
    laser_is_cancelled h (shared s) = (False, d) \<Longrightarrow>
    flight_step h s (Fl_Looks t) (s\<lparr>shared := d,
      threads := (threads s)(t := Cmd_Sending c (L\<lparr>attempts_made := attempt L\<rparr>))\<rparr>)"
| Cmd_Retries: "threads s t = Cmd_Sending c L \<Longrightarrow>
    call_transact h c L (shared s) = (None, L', d) \<Longrightarrow>
    flight_step h s (Fl_Sends t) (s\<lparr>shared := d,
      threads := (threads s)(t := Cmd_Locked c (L'\<lparr>attempt := attempt L' + 1\<rparr>))\<rparr>)"
| Cmd_Stops: "threads s t = Cmd_Sending c L \<Longrightarrow>
    call_transact h c L (shared s) = (Some st, L', d) \<Longrightarrow>
    flight_step h s (Fl_Sends t) (cdb_leave st L' t d s)"
| Settle_Checks: "threads s t = Settle_Called \<Longrightarrow> settle_checks h (shared s) = (gone, d) \<Longrightarrow>
    flight_step h s (Fl_Checks t) (s\<lparr>shared := d,
      threads := (threads s)(t := if gone then Returned None else Settle_Queued)\<rparr>)"
| Settle_Polls: "threads s t = Settle_Queued \<Longrightarrow> io_owner s = None \<Longrightarrow>
    settle_polls h (shared s) = (done_already, d) \<Longrightarrow>
    flight_step h s (Fl_Polls t) (s\<lparr>shared := d, threads := (threads s)(t :=
      if done_already then Returned None else Wait_Called)\<rparr>)"
| Settle_Waits: "threads s t = Wait_Called \<Longrightarrow> io_owner s = None \<Longrightarrow>
    laser_wait_until_ready (laser_bot_send_locked h) h (shared s) = Some (r, L, d) \<Longrightarrow>
    flight_step h s (Fl_Waits t) (s\<lparr>shared := d, threads := (threads s)(t := Returned None)\<rparr>)"
| Cancels: "teardown s = Claimed \<Longrightarrow>
    flight_step h s Fl_Cancels (s\<lparr>shared := upd_ent laser_set_cancelled (shared s), teardown := Cancelling\<rparr>)"
| Closes: "teardown s = Cancelling \<Longrightarrow> io_owner s = None \<Longrightarrow>
    flight_step h s Fl_Closes (s\<lparr>shared := close_device h (shared s), teardown := Closed\<rparr>)"

section \<open>What the steps keep\<close>

text \<open>Threads that only run commands: a settle is another story, below.\<close>

fun runs_command :: "call_phase \<Rightarrow> bool" where
  "runs_command Settle_Called = False"
| "runs_command Settle_Queued = False"
| "runs_command Wait_Called = False"
| "runs_command _ = True"

fun in_lock :: "call_phase \<Rightarrow> bool" where
  "in_lock (Cmd_Locked _ _) = True"
| "in_lock (Cmd_Sending _ _) = True"
| "in_lock _ = False"

definition held_when :: "teardown \<Rightarrow> laser_entry \<Rightarrow> resource multiset" where
  "held_when td e = (if td = Closed then {#Res_Css_Cv, Res_Css_Mtx, Res_Io_Lock#} else base_of e)"

definition flight_inv :: "resource multiset \<Rightarrow> 'w flight \<Rightarrow> bool" where
  "flight_inv K s \<longleftrightarrow>
     resources (trace (shared s)) {#} = Some (held_when (teardown s) (ent (shared s)) + K) \<and>
     (teardown s \<noteq> Claimed \<longrightarrow> cancelled (ent (shared s))) \<and>
     (\<forall>t. in_lock (threads s t) \<longleftrightarrow> io_owner s = Some t) \<and>
     (teardown s = Closed \<longrightarrow> (\<forall>t c L. threads s t \<noteq> Cmd_Sending c L \<and> (threads s t = Cmd_Locked c L \<longrightarrow> attempt L = 1))) \<and>
     (\<forall>t. runs_command (threads s t))"

lemma base_of_rely: "entry_rely e e' \<Longrightarrow> base_of e' = base_of e"
  by (simp add: base_of_def entry_rely_def)

text \<open>What reading the flag leaves, and what ending a call does.\<close>

lemma look_keeps:
  assumes "laser_is_cancelled h d = (r, d')"
  shows "trace d' = trace d" and "entry_rely (ent d) (ent d')" and "cancelled (ent d) \<Longrightarrow> r"
  using assms is_cancelled_rely [of d h] laser_is_cancelled_frame [of h d] 
  by (auto simp: laser_is_cancelled_def laser_set_cancelled_def Let_def split: if_splits prod.splits)

lemma checks_keep:
  assumes "cdb_checks h cdb n d = (r, d')"
  shows "trace d' = trace d" and "entry_rely (ent d) (ent d')"
    and "cancelled (ent d) \<Longrightarrow> r \<in> {Some LASER_ERR_CANCELLED, Some LASER_ERR_INVALID}"
  using assms look_keeps [of h d]
  by (auto simp: cdb_checks_def split: if_splits prod.splits)

lemma finish_keeps:
  "trace (snd (cdb_finish result L d)) = trace d"
  "entry_rely (ent d) (ent (snd (cdb_finish result L d)))"
  by (simp_all add: cdb_finish_def entry_rely_def)

lemma transact_keeps:
  assumes "call_transact h c L d = (r, L', d')"
  shows "quiet_step d d'" and "entry_rely (ent d) (ent d')"
  using bot.transact_rely [OF assms [unfolded call_transact_def]]
    quiet_bot.undisturbed_transact [OF assms [unfolded call_transact_def] undisturbed_refl]
  by (simp_all add: undisturbed_def)

text \<open>A thread's move leaves the account and the flag as they were if it is quiet on an open device, or
  makes no call at all.\<close>

lemma flight_inv_move:
  assumes inv: "flight_inv K s" and rely: "entry_rely (ent (shared s)) (ent d)"
    and calls: "trace d = trace (shared s) \<or> (quiet_step (shared s) d \<and> teardown s \<noteq> Closed)"
    and threads: "\<And>t'. t' \<noteq> t \<Longrightarrow> in_lock (threads s t') \<longleftrightarrow> owner = Some t'"
    and mine: "in_lock p \<longleftrightarrow> owner = Some t" "runs_command p"
    and closed: "\<And>c L. teardown s = Closed \<Longrightarrow> p \<noteq> Cmd_Sending c L \<and> (p = Cmd_Locked c L \<longrightarrow> attempt L = 1)"
  shows "flight_inv K (s\<lparr>shared := d, io_owner := owner, threads := (threads s)(t := p)\<rparr>)"
proof -
  note base = base_of_rely [OF rely]
  have "resources (trace d) {#} = resources (trace (shared s)) {#}"
    using calls
  proof
    assume q: "quiet_step (shared s) d \<and> teardown s \<noteq> Closed"
    then obtain evs where evs: "trace d = trace (shared s) @ evs"
      "quiet (\<lambda>hn. hn = handle (ent (shared s))) evs" by (auto simp: quiet_step_def)
    have "resources evs (base_of (ent (shared s)) + K) = Some (base_of (ent (shared s)) + K)"
      using evs(2) by (rule resources_quiet) (auto simp: usable_def base_of_def)
    with inv q evs(1) show ?thesis by (simp add: flight_inv_def held_when_def resources_append)
  qed simp
  with inv rely base threads mine closed show ?thesis
    by (auto simp: flight_inv_def held_when_def entry_rely_def)
qed

text \<open>A step of a thread is such a move.\<close>

lemma thread_step_cases:
  assumes "flight_step (h :: 'w host) s ev s'" and "ev \<noteq> Fl_Cancels" and "ev \<noteq> Fl_Closes" and "flight_inv K s"
  obtains t d owner p where "s' = s\<lparr>shared := d, io_owner := owner, threads := (threads s)(t := p)\<rparr>"
    and "entry_rely (ent (shared s)) (ent d)"
    and "trace d = trace (shared s) \<or> (quiet_step (shared s) d \<and> teardown s \<noteq> Closed)"
    and "\<And>t'. t' \<noteq> t \<Longrightarrow> in_lock (threads s t') \<longleftrightarrow> owner = Some t'"
    and "in_lock p \<longleftrightarrow> owner = Some t" and "runs_command p"
    and "\<And>c L. teardown s = Closed \<Longrightarrow> p \<noteq> Cmd_Sending c L \<and> (p = Cmd_Locked c L \<longrightarrow> attempt L = 1)"
    and "\<And>out. teardown s = Closed \<Longrightarrow> p = Returned out \<Longrightarrow>
      \<exists>r. out = Some r \<and> status r \<in> {LASER_ERR_CANCELLED, LASER_ERR_INVALID}"
proof -
  have inv: "\<And>t. runs_command (threads s t)" "\<And>t. in_lock (threads s t) \<longleftrightarrow> io_owner s = Some t"
    "teardown s \<noteq> Claimed \<Longrightarrow> cancelled (ent (shared s))"
    "\<And>t c L. teardown s = Closed \<Longrightarrow> threads s t \<noteq> Cmd_Sending c L"
    "\<And>t c L. teardown s = Closed \<Longrightarrow> threads s t = Cmd_Locked c L \<Longrightarrow> attempt L = 1"
    using assms(4) by (auto simp: flight_inv_def)
  have own: "io_owner s = Some t" if "threads s t = Cmd_Locked c L \<or> threads s t = Cmd_Sending c L" for t c L
    using inv(2) [of t] that by auto
  have free: "io_owner s \<noteq> Some t" if "threads s t = Cmd_Called c" for t c
    using inv(2) [of t] that by auto
  have gone: "cdb_finish LASER_ERR_CANCELLED L d = (LASER_ERR_CANCELLED, d)" for L and d :: "'w dev"
    by (simp add: cdb_finish_def cdb_never_left_def cdb_normalise_def)
  from assms(1) show thesis
  proof cases
    case (Cmd_Refused t c st d)
    then show thesis
      using checks_keep [OF Cmd_Refused(4)] inv free [of t c]
      by (intro that [where t = t and d = d and owner = "io_owner s" and p = "Returned (Some \<lparr>status = st, o_data = k_data c, o_actual = k_actual c\<rparr>)"]) auto
  next
    case (Cmd_Passes t c d)
    then show thesis
      using checks_keep [OF Cmd_Passes(4)] inv free [of t c]
      by (intro that [where t = t and d = d and owner = "io_owner s" and p = "Cmd_Queued c"]) auto
  next
    case (Cmd_Locks t c)
    then show thesis
      using inv
      by (intro that [where t = t and d = "shared s" and owner = "Some t" and p = "Cmd_Locked c (cdb_start (k_data c) (k_actual c))"])
        (auto simp: cdb_start_def)
  next
    case (Cmd_Exhausted t c L)
    let ?f = "cdb_finish LASER_ERR_IO L (shared s)"
    show thesis
      using Cmd_Exhausted finish_keeps [where result = LASER_ERR_IO and L = L and d = "shared s"] inv own [of t c L]
      by (intro that [where t = t and d = "snd ?f" and owner = None and p = "Returned (Some \<lparr>status = fst ?f, o_data = c_data L, o_actual = c_actual L\<rparr>)"])
        (auto simp: cdb_leave_def case_prod_unfold)
  next
    case (Cmd_Gives_Up t c L d)
    show thesis
      using Cmd_Gives_Up look_keeps [OF Cmd_Gives_Up(5)] inv own [of t c L]
      by (intro that [where t = t and d = d and owner = None and p = "Returned (Some \<lparr>status = LASER_ERR_CANCELLED, o_data = c_data L, o_actual = c_actual L\<rparr>)"])
        (auto simp: cdb_leave_def gone)
  next
    case (Cmd_Goes_On t c L d)
    show thesis
      using Cmd_Goes_On look_keeps [OF Cmd_Goes_On(5)] inv own [of t c L]
      by (intro that [where t = t and d = d and owner = "io_owner s" and p = "Cmd_Sending c (L\<lparr>attempts_made := attempt L\<rparr>)"]) auto
  next
    case (Cmd_Retries t c L L' d)
    show thesis
      using Cmd_Retries transact_keeps [OF Cmd_Retries(4)] inv own [of t c L]
      by (intro that [where t = t and d = d and owner = "io_owner s" and p = "Cmd_Locked c (L'\<lparr>attempt := attempt L' + 1\<rparr>)"]) auto
  next
    case (Cmd_Stops t c L st L' d)
    let ?f = "cdb_finish st L' d"
    have "quiet_step (shared s) (snd ?f)" "entry_rely (ent (shared s)) (ent (snd ?f))"
      using transact_keeps [OF Cmd_Stops(4)] finish_keeps [where result = st and L = L' and d = d]
      by (auto simp: quiet_step_def cdb_finish_def intro: entry_rely_trans)
    then show thesis
      using Cmd_Stops inv own [of t c L]
      by (intro that [where t = t and d = "snd ?f" and owner = None and p = "Returned (Some \<lparr>status = fst ?f, o_data = c_data L', o_actual = c_actual L'\<rparr>)"])
        (auto simp: cdb_leave_def case_prod_unfold)
  next
    case (Settle_Checks t gone d) then show thesis using inv(1) [of t] by simp
  next
    case (Settle_Polls t r d) then show thesis using inv(1) [of t] by simp
  next
    case (Settle_Waits t r L d) then show thesis using inv(1) [of t] by simp
  qed (use assms(2,3) in auto)
qed

text \<open>The teardown's own two steps.\<close>

lemma close_device_resources:
  assumes "resources (trace d) {#} = Some (base_of (ent d) + K)"
  shows "resources (trace (close_device h d)) {#} = Some ({#Res_Css_Cv, Res_Css_Mtx, Res_Io_Lock#} + K)"
proof -
  let ?d = "if \<not> device_gone (ent d) then laser_mass_storage_reset h d else d"
  have "quiet_step d ?d" by (simp add: quiet_reset)
  then obtain evs where evs: "trace ?d = trace d @ evs" "quiet (\<lambda>hn. hn = handle (ent d)) evs"
    by (auto simp: quiet_step_def)
  have "resources evs (base_of (ent d) + K) = Some (base_of (ent d) + K)"
    using evs(2) by (rule resources_quiet) (auto simp: usable_def base_of_def)
  moreover have "handle (ent ?d) = handle (ent d)" "iface_num (ent ?d) = iface_num (ent d)"
    "ctx (ent ?d) = ctx (ent d)" by (simp_all add: laser_mass_storage_reset_frame)
  moreover have "trace (close_device h d) = trace ?d @ [Ev_Release (Res_Interface (handle (ent ?d)) (iface_num (ent ?d))),
      Ev_Release (Res_Handle (handle (ent ?d))), Ev_Release (Res_Context (ctx (ent ?d)))]"
    by (simp add: close_device_def Let_def do_exit_def do_close_def do_release_interface_def)
  ultimately show ?thesis
    using assms evs(1) by (simp add: resources_append base_of_def del: append_assoc)
qed

lemma flight_inv_step:
  assumes step: "flight_step h s ev s'" and inv: "flight_inv K s"
  shows "flight_inv K s'"
proof (cases "ev = Fl_Cancels \<or> ev = Fl_Closes")
  case False
  show ?thesis
  proof (rule thread_step_cases [OF step _ _ inv])
    show "ev \<noteq> Fl_Cancels" "ev \<noteq> Fl_Closes" using False by auto
  qed (simp add: flight_inv_move [OF inv])
next
  case True
  from step show ?thesis
  proof cases
    case Cancels
    then show ?thesis
      using inv by (simp add: flight_inv_def held_when_def laser_set_cancelled_def base_of_def upd_ent_def)
  next
    case Closes
    have idle: "\<not> in_lock (threads s t)" for t using inv Closes(4) by (auto simp: flight_inv_def)
    have "threads s t \<noteq> Cmd_Locked c L" "threads s t \<noteq> Cmd_Sending c L" for t c L
      using idle [of t] by auto
    moreover have "cancelled (ent (close_device h (shared s)))"
      using inv Closes(3)
      by (simp add: flight_inv_def close_device_def Let_def do_exit_def do_close_def do_release_interface_def
          laser_mass_storage_reset_frame)
    ultimately show ?thesis
      using inv Closes close_device_resources [of "shared s" K h] by (simp add: flight_inv_def held_when_def)
  qed (use True in auto)
qed

lemma flight_inv_run: "labelled_run (flight_step h) s evs s' \<Longrightarrow> flight_inv K s \<Longrightarrow> flight_inv K s'"
  by (induction rule: labelled_run.induct) (auto intro: flight_inv_step)

section \<open>After the close\<close>

lemma after_close_step:
  assumes step: "flight_step h s ev s'" and inv: "flight_inv K s" and closed: "teardown s = Closed"
  shows "teardown s' = Closed" and "trace (shared s') = trace (shared s)"
    and "threads s' t = threads s t \<or> (\<forall>out. threads s' t = Returned out \<longrightarrow>
      (\<exists>r. out = Some r \<and> status r \<in> {LASER_ERR_CANCELLED, LASER_ERR_INVALID}))"
proof -
  have "ev \<noteq> Fl_Cancels" "ev \<noteq> Fl_Closes" using step closed by (auto elim: flight_step.cases)
  then have "teardown s' = Closed \<and> trace (shared s') = trace (shared s) \<and>
      (threads s' t = threads s t \<or> (\<forall>out. threads s' t = Returned out \<longrightarrow>
        (\<exists>r. out = Some r \<and> status r \<in> {LASER_ERR_CANCELLED, LASER_ERR_INVALID})))"
    by (rule thread_step_cases [OF step _ _ inv]) (use closed in auto)
  then show "teardown s' = Closed" and "trace (shared s') = trace (shared s)"
    and "threads s' t = threads s t \<or> (\<forall>out. threads s' t = Returned out \<longrightarrow>
      (\<exists>r. out = Some r \<and> status r \<in> {LASER_ERR_CANCELLED, LASER_ERR_INVALID}))" by simp_all
qed

lemma returned_stays:
  assumes "flight_step h s ev s'" and "threads s t = Returned out"
  shows "threads s' t = Returned out"
  using assms by cases (auto simp: cdb_leave_def case_prod_unfold)

lemma after_close_run:
  assumes "labelled_run (flight_step h) s evs s'" and "flight_inv K s" and "teardown s = Closed"
  shows "teardown s' = Closed \<and> trace (shared s') = trace (shared s) \<and>
    (\<forall>t. (\<exists>out. threads s t = Returned out) \<or>
      (\<forall>out. threads s' t = Returned out \<longrightarrow>
        (\<exists>r. out = Some r \<and> status r \<in> {LASER_ERR_CANCELLED, LASER_ERR_INVALID})))"
  using assms
proof (induction rule: labelled_run.induct)
  case (Step s evs s' ev s'')
  have inv: "flight_inv K s'" using flight_inv_run [OF Step.hyps(1)] Step.prems(1) by simp
  note here = after_close_step [OF Step.hyps(2) inv]
  show ?case
    using Step.IH [OF Step.prems] here by metis
qed auto

lemma returned_stays_run:
  "labelled_run (flight_step h) s evs s' \<Longrightarrow> threads s t = Returned out \<Longrightarrow> threads s' t = Returned out"
  by (induction rule: labelled_run.induct) (auto intro: returned_stays)

text \<open>How many steps a command may still take once the handle is closed: the checks, the lock, the look.\<close>

fun thread_of :: "flight_event \<Rightarrow> nat option" where
  "thread_of (Fl_Checks t) = Some t"
| "thread_of (Fl_Locks t) = Some t"
| "thread_of (Fl_Looks t) = Some t"
| "thread_of (Fl_Sends t) = Some t"
| "thread_of (Fl_Polls t) = Some t"
| "thread_of (Fl_Waits t) = Some t"
| "thread_of Fl_Cancels = None"
| "thread_of Fl_Closes = None"

fun steps_left :: "call_phase \<Rightarrow> nat" where
  "steps_left (Cmd_Called _) = 3"
| "steps_left (Cmd_Queued _) = 2"
| "steps_left (Cmd_Locked _ _) = 1"
| "steps_left _ = 0"

lemma after_close_spends:
  assumes step: "flight_step h s ev s'" and inv: "flight_inv K s" and closed: "teardown s = Closed"
  shows "steps_left (threads s' t) + (if thread_of ev = Some t then 1 else 0) \<le> steps_left (threads s t)"
proof -
  have cancelled: "cancelled (ent (shared s))" and cmd: "\<And>t. runs_command (threads s t)"
    and idle: "\<And>t c L. threads s t \<noteq> Cmd_Sending c L"
    using inv closed by (auto simp: flight_inv_def)
  from step show ?thesis
  proof cases
    case (Cmd_Goes_On t' c L d)
    with look_keeps(3) [OF Cmd_Goes_On(5) cancelled] show ?thesis by simp
  next
    case (Settle_Checks t' gone d) then show ?thesis using cmd [of t'] by simp
  next
    case (Settle_Polls t' r d) then show ?thesis using cmd [of t'] by simp
  next
    case (Settle_Waits t' r L d) then show ?thesis using cmd [of t'] by simp
  qed (use idle closed in \<open>auto simp: cdb_leave_def case_prod_unfold\<close>)
qed

lemma after_close_spends_run:
  assumes "labelled_run (flight_step h) s evs s'" and "flight_inv K s" and "teardown s = Closed"
  shows "steps_left (threads s' t) + length (filter (\<lambda>ev. thread_of ev = Some t) evs) \<le> steps_left (threads s t)"
  using assms
proof (induction rule: labelled_run.induct)
  case (Step s evs s' ev s'')
  have inv: "flight_inv K s'" using flight_inv_run [OF Step.hyps(1)] Step.prems(1) by simp
  have "teardown s' = Closed" using after_close_run [OF Step.hyps(1) Step.prems] by blast
  from after_close_spends [OF Step.hyps(2) inv this, of t] Step.IH [OF Step.prems] show ?case
    by (auto split: if_splits)
qed simp

text \<open>And as long as one has not returned, some thread can take its step: nobody waits for a lock that is
  never given back.\<close>

lemma after_close_progress:
  assumes inv: "flight_inv K s" and closed: "teardown s = Closed" and waiting: "\<And>out. threads s t \<noteq> Returned out"
  shows "\<exists>ev s'. flight_step h s ev s'"
proof (cases "io_owner s")
  case (Some u)
  have "in_lock (threads s u)" using inv Some by (simp add: flight_inv_def)
  then obtain c L where u: "threads s u = Cmd_Locked c L" "attempt L = 1"
    using inv closed unfolding flight_inv_def by (cases "threads s u") auto
  obtain r d where look: "laser_is_cancelled h (shared s) = (r, d)" by fastforce
  have "r" using look_keeps(3) [OF look] inv closed by (simp add: flight_inv_def)
  with flight_step.Cmd_Gives_Up [OF u(1), of h d] u(2) look show ?thesis by auto
next
  case None
  have "\<not> in_lock (threads s t)" using inv None by (simp add: flight_inv_def)
  moreover have "runs_command (threads s t)" using inv by (simp add: flight_inv_def)
  ultimately consider c where "threads s t = Cmd_Called c" | c where "threads s t = Cmd_Queued c"
    using waiting by (cases "threads s t") auto
  then show ?thesis
  proof cases
    case (1 c)
    obtain r d where checks: "cdb_checks h (k_cdb c) (k_len c) (shared s) = (r, d)" by fastforce
    with flight_step.Cmd_Refused [OF 1] flight_step.Cmd_Passes [OF 1] show ?thesis by (cases r) blast+
  next
    case (2 c)
    with flight_step.Cmd_Locks [OF 2 None] show ?thesis by blast
  qed
qed

section \<open>One thread alone\<close>

text \<open>A command run with nothing in between is the call of the code.\<close>

definition at_phase :: "'w flight \<Rightarrow> nat \<Rightarrow> nat option \<Rightarrow> call_phase \<Rightarrow> 'w dev \<Rightarrow> 'w flight" where
  "at_phase s t owner p d = s\<lparr>shared := d, io_owner := owner, threads := (threads s)(t := p)\<rparr>"

lemma solo_steps:
  assumes "threads s t = p" and "shared s = d" and "io_owner s = w"
  shows "s = at_phase s t w p d"
  using assms by (auto simp: at_phase_def fun_upd_idem)

lemma at_phase_simps [simp]:
  "threads (at_phase s t w p d) t = p" "shared (at_phase s t w p d) = d" "io_owner (at_phase s t w p d) = w"
  "at_phase (at_phase s t w p d) t w' p' d' = at_phase s t w' p' d'"
  by (simp_all add: at_phase_def)

lemma at_phase_moves:
  "(at_phase s t w p d)\<lparr>shared := d', threads := (threads (at_phase s t w p d))(t := p')\<rparr> = at_phase s t w p' d'"
  "(at_phase s t w p d)\<lparr>io_owner := w', threads := (threads (at_phase s t w p d))(t := p')\<rparr> = at_phase s t w' p' d"
  by (simp_all add: at_phase_def)

lemma leave_at_phase:
  "cdb_finish result L d' = (st, d'') \<Longrightarrow>
     cdb_leave result L t d' (at_phase s t w p d) =
       at_phase s t None (Returned (Some \<lparr>status = st, o_data = c_data L, o_actual = c_actual L\<rparr>)) d''"
  by (simp add: cdb_leave_def at_phase_def)

lemma solo_step:
  assumes "labelled_run (flight_step h) s evs (at_phase s t w p d)"
    and "flight_step h (at_phase s t w p d) ev (at_phase s t w' p' d')"
  shows "labelled_run (flight_step h) s (evs @ [ev]) (at_phase s t w' p' d')"
  using assms by (rule labelled_run.Step)

lemma solo_attempt:
  assumes run: "labelled_run (flight_step h) s evs (at_phase s t (Some t) (Cmd_Locked c L) d)"
    and "attempt L \<le> LASER_MAX_RETRIES"
    and att: "cdb_attempt (laser_bot_send_locked h) h (k_cdb c) (k_len c) (k_data_len c) (k_in c)
      (cdb_idempotent (k_cdb c) (k_len c) (k_data_len c) (k_in c)) L d = (res, L', d')"
  shows "\<exists>evs. labelled_run (flight_step h) s evs
    (case res of None \<Rightarrow> at_phase s t (Some t) (Cmd_Locked c (L'\<lparr>attempt := attempt L' + 1\<rparr>)) d'
     | Some st \<Rightarrow> (case cdb_finish st L' d' of (st', d'') \<Rightarrow>
         at_phase s t None (Returned (Some \<lparr>status = st', o_data = c_data L', o_actual = c_actual L'\<rparr>)) d''))"
proof -
  obtain gone d1 where look: "laser_is_cancelled h d = (gone, d1)" by fastforce
  show ?thesis
  proof (cases gone)
    case True
    with att look have out: "res = Some LASER_ERR_CANCELLED" "L' = L\<lparr>attempts_made := attempt L\<rparr>" "d' = d1"
      by (simp_all add: cdb_attempt_def Let_def)
    obtain st' d'' where fin: "cdb_finish LASER_ERR_CANCELLED L' d1 = (st', d'')" by fastforce
    have "flight_step h (at_phase s t (Some t) (Cmd_Locked c L) d) (Fl_Looks t)
        (cdb_leave LASER_ERR_CANCELLED L' t d1 (at_phase s t (Some t) (Cmd_Locked c L) d))"
      unfolding out(2) by (rule flight_step.Cmd_Gives_Up) (use assms(2) look True in simp_all)
    from solo_step [OF run this [unfolded leave_at_phase [OF fin]]] fin out show ?thesis by auto
  next
    case False
    let ?L = "L\<lparr>attempts_made := attempt L\<rparr>"
    let ?S = "at_phase s t (Some t) (Cmd_Sending c ?L) d1"
    have "flight_step h (at_phase s t (Some t) (Cmd_Locked c L) d) (Fl_Looks t) ?S"
      using flight_step.Cmd_Goes_On [of "at_phase s t (Some t) (Cmd_Locked c L) d" t c L h d1] assms(2) look False
      by (simp add: at_phase_moves)
    note sending = solo_step [OF run this]
    have go: "call_transact h c ?L d1 = (res, L', d')"
      using att look False by (simp add: cdb_attempt_def call_transact_def Let_def)
    show ?thesis
    proof (cases res)
      case None
      have "flight_step h ?S (Fl_Sends t) (at_phase s t (Some t) (Cmd_Locked c (L'\<lparr>attempt := attempt L' + 1\<rparr>)) d')"
        using flight_step.Cmd_Retries [of ?S t c ?L h L' d'] go None by (simp add: at_phase_moves)
      from solo_step [OF sending this] None show ?thesis by auto
    next
      case (Some st)
      obtain st' d'' where fin: "cdb_finish st L' d' = (st', d'')" by fastforce
      have "flight_step h ?S (Fl_Sends t) (cdb_leave st L' t d' ?S)"
        by (rule flight_step.Cmd_Stops) (use go Some in simp_all)
      from solo_step [OF sending this [unfolded leave_at_phase [OF fin]]] fin Some show ?thesis by auto
    qed
  qed
qed

lemma solo_loop:
  assumes loop: "cdb_loop (laser_bot_send_locked h) h (k_cdb c) (k_len c) (k_data_len c) (k_in c)
      (cdb_idempotent (k_cdb c) (k_len c) (k_data_len c) (k_in c)) L d = Some (st, L', d')"
    and run: "\<exists>evs. labelled_run (flight_step h) s evs (at_phase s t (Some t) (Cmd_Locked c L) d)"
  shows "\<exists>evs. labelled_run (flight_step h) s evs (case cdb_finish st L' d' of (st', d'') \<Rightarrow>
    at_phase s t None (Returned (Some \<lparr>status = st', o_data = c_data L', o_actual = c_actual L'\<rparr>)) d'')"
  using loop
proof (rule cdb_loop_invariant [where
    I = "\<lambda>L d. \<exists>evs. labelled_run (flight_step h) s evs (at_phase s t (Some t) (Cmd_Locked c L) d)"])
  fix L :: cdb_locals and d :: "'a dev"
  assume "\<exists>evs. labelled_run (flight_step h) s evs (at_phase s t (Some t) (Cmd_Locked c L) d)"
    and out: "LASER_MAX_RETRIES < attempt L"
  then obtain evs where at: "labelled_run (flight_step h) s evs (at_phase s t (Some t) (Cmd_Locked c L) d)" by blast
  obtain st' d'' where fin: "cdb_finish LASER_ERR_IO L d = (st', d'')" by fastforce
  have "flight_step h (at_phase s t (Some t) (Cmd_Locked c L) d) (Fl_Looks t)
      (cdb_leave LASER_ERR_IO L t d (at_phase s t (Some t) (Cmd_Locked c L) d))"
    using flight_step.Cmd_Exhausted [of "at_phase s t (Some t) (Cmd_Locked c L) d" t c L h] out by simp
  from solo_step [OF at this [unfolded leave_at_phase [OF fin]]] fin
  show "\<exists>evs. labelled_run (flight_step h) s evs (case cdb_finish LASER_ERR_IO L d of (st', d'') \<Rightarrow>
      at_phase s t None (Returned (Some \<lparr>status = st', o_data = c_data L, o_actual = c_actual L\<rparr>)) d'')" by auto
qed (use run solo_attempt in \<open>fastforce+\<close>)

section \<open>Runs written out\<close>

lemma run_snoc: "labelled_run step s (evs @ [ev]) s'' \<longleftrightarrow> (\<exists>s'. labelled_run step s evs s' \<and> step s' ev s'')"
  by (auto elim: labelled_run.cases intro: labelled_run.Step)

lemma run_nil: "labelled_run step s [] s' \<longleftrightarrow> s' = s"
  by (auto elim: labelled_run.cases intro: labelled_run.Stop)

lemma run_four:
  "labelled_run step s [a, b] s2 \<longleftrightarrow> (\<exists>s1. step s a s1 \<and> step s1 b s2)"
  "labelled_run step s [a, b, c] s3 \<longleftrightarrow> (\<exists>s1 s2. step s a s1 \<and> step s1 b s2 \<and> step s2 c s3)"
  "labelled_run step s [a, b, c, d] s4 \<longleftrightarrow> (\<exists>s1 s2 s3. step s a s1 \<and> step s1 b s2 \<and> step s2 c s3 \<and> step s3 d s4)"
  using run_snoc [of step s "[]" a] run_snoc [of step s "[a]" b] run_snoc [of step s "[a, b]" c]
    run_snoc [of step s "[a, b, c]" d]
  by (auto simp: run_nil)

section \<open>A settle against the close\<close>

lemma checks_of_step:
  assumes "flight_step h s (Fl_Checks t) s'"
  shows "trace (shared s') = trace (shared s)" and "entry_rely (ent (shared s)) (ent (shared s'))"
proof -
  have "trace (shared s') = trace (shared s) \<and> entry_rely (ent (shared s)) (ent (shared s'))"
    using assms
  proof cases
    case (Cmd_Refused c st d)
    with checks_keep(1,2) [OF Cmd_Refused(3)] show ?thesis by simp
  next
    case (Cmd_Passes c d)
    with checks_keep(1,2) [OF Cmd_Passes(3)] show ?thesis by simp
  next
    case (Settle_Checks gone d)
    with look_keeps(1,2) [of h "shared s" gone d] show ?thesis
      by (cases "device_gone (ent (shared s))") (simp_all add: settle_checks_def)
  qed
  then show "trace (shared s') = trace (shared s)" and "entry_rely (ent (shared s)) (ent (shared s'))" by simp_all
qed

text \<open>The poll of a queued settle sends its wrapper, closed or not.\<close>

lemma poll_goes_out:
  assumes "settle_polls h d = (r, d')"
    and "resources (trace d) {#} = Some held" and "\<not> usable held (handle (ent d))"
  shows "resources (trace d') {#} = None"
proof -
  obtain out where "laser_bot_send_locked h test_unit_ready_cdb 6 None 0 False None (Some (-1)) d = (out, d')"
    using assms(1) by (auto simp: settle_polls_def test_unit_ready_locked_def split: prod.splits)
  then obtain bs ret k evs where
    "trace d' = trace d @ Ev_Bulk_Out CBW_Phase (handle (ent d)) (ep_out (ent d)) bs ret k # evs"
    using send_goes_out [of h test_unit_ready_cdb 6 None 0 False None "Some (-1)" d out d'] by auto
  with assms(2,3) show ?thesis by (simp add: resources_append)
qed

end
