(* ===== verification/In_Flight_Props.thy ===== *)
theory In_Flight_Props
  imports In_Flight Sample_Runs
begin

text \<open>
  What the last release may count on from the threads still at work, and what it may not: the
  properties of \<open>In_Flight\<close>, on any interleaving, and runs of the sample drive that reach them.
\<close>

section \<open>Commands\<close>

text \<open>A claimed entry nobody holds the lock of, with any number of commands called on it.\<close>

definition flight_start :: "resource multiset \<Rightarrow> 'w flight \<Rightarrow> bool" where
  "flight_start K s \<longleftrightarrow> io_owner s = None \<and> teardown s = Claimed \<and>
     resources (trace (shared s)) {#} = Some (base_of (ent (shared s)) + K) \<and>
     (\<forall>t. (\<exists>c. threads s t = Cmd_Called c) \<or> (\<exists>out. threads s t = Returned out))"

lemma flight_start_inv:
  assumes "flight_start K s"
  shows "flight_inv K s"
proof -
  have "\<not> in_lock (threads s t) \<and> runs_command (threads s t)" for t
    using assms unfolding flight_start_def by (metis in_lock.simps(3,8) runs_command.simps(4,8))
  with assms show ?thesis by (simp add: flight_inv_def flight_start_def held_when_def)
qed

text \<open>C9: however commands on other threads interleave with the last release, none of them transfers on
  the handle once the release has closed it: at every moment the trace accounts for what is held, which
  after the close is the entry's locks alone.\<close>

theorem commands_never_use_a_closed_handle:
  assumes "flight_start K s" and "labelled_run (flight_step h) s evs s'"
  shows "resources (trace (shared s')) {#} =
    Some ((if teardown s' = Closed then {#Res_Css_Cv, Res_Css_Mtx, Res_Io_Lock#} else base_of (ent (shared s'))) + K)"
  using flight_inv_run [OF assms(2) flight_start_inv [OF assms(1)]]
  by (simp add: flight_inv_def held_when_def)

text \<open>C16: a command that has not returned when the last release closes the handle makes no call on the
  bus any more, returns after at most three more steps of its own, whatever the others do, and with the
  cancellation (or the refusal of a key command outside a session); and the threads never block each other:
  where no step is left every one has returned.\<close>

theorem commands_leave_after_the_close:
  assumes "flight_start K s" and "labelled_run (flight_step h) s evs closed" and "teardown closed = Closed"
    and "labelled_run (flight_step h) closed evs' s'"
  shows "trace (shared s') = trace (shared closed) \<and>
    (\<forall>t. length (filter (\<lambda>ev. thread_of ev = Some t) evs') \<le> 3) \<and>
    ((\<forall>ev s''. \<not> flight_step h s' ev s'') \<longrightarrow> (\<forall>t. \<exists>out. threads s' t = Returned out)) \<and>
    (\<forall>t out. threads s' t = Returned out \<longrightarrow> threads closed t = Returned out \<or>
      (\<exists>r. out = Some r \<and> status r \<in> {LASER_ERR_CANCELLED, LASER_ERR_INVALID}))"
proof (intro conjI allI impI)
  note inv = flight_inv_run [OF assms(2) flight_start_inv [OF assms(1)]]
  note run = after_close_run [OF assms(4) inv assms(3)]
  show "trace (shared s') = trace (shared closed)" using run by blast
  fix t
  have "steps_left p \<le> 3" for p by (cases p) simp_all
  from le_trans [OF after_close_spends_run [OF assms(4) inv assms(3), of t] this]
  show "length (filter (\<lambda>ev. thread_of ev = Some t) evs') \<le> 3" by simp
  show "\<exists>out. threads s' t = Returned out" if "\<forall>ev s''. \<not> flight_step h s' ev s''"
    using after_close_progress [OF flight_inv_run [OF assms(4) inv], of t h] run that by blast
  show "threads closed t = Returned out \<or> (\<exists>r. out = Some r \<and> status r \<in> {LASER_ERR_CANCELLED, LASER_ERR_INVALID})"
    if "threads s' t = Returned out" for out
    using run returned_stays_run [OF assms(4), of t] that by (metis call_phase.inject(5))
qed

text \<open>The steps and the whole call agree: a command with nothing interleaved takes the steps of the model to exactly the outcome, and the
  entry, of the whole call: \<open>laser_scsi_cdb()\<close> after its lookup is one of the interleavings.\<close>

theorem command_alone_is_the_call:
  assumes "threads s t = Cmd_Called c" and "io_owner s = None" and "\<And>e w. other_threads h e w = (e, w)"
    and call: "scsi_cdb_entry (laser_bot_send_locked h) h (k_cdb c) (k_len c) (k_data c) (k_data_len c) (k_in c)
      (k_actual c) (shared s) = Some (res, d')"
  shows "\<exists>evs. labelled_run (flight_step h) s evs
    (s\<lparr>shared := d', io_owner := None, threads := (threads s)(t := Returned (Some res))\<rparr>)"
proof -
  let ?p = "Cmd_Called c"
  have s: "s = at_phase s t None ?p (shared s)" by (rule solo_steps) (use assms in simp_all)
  have start: "labelled_run (flight_step h) s [] (at_phase s t None ?p (shared s))"
    using labelled_run.Stop [of "flight_step h" s] s by simp
  have lock: "lock_io h d = d" for d using assms(3) by (simp add: lock_io_def)
  obtain early d1 where checks: "cdb_checks h (k_cdb c) (k_len c) (shared s) = (early, d1)" by fastforce
  have "\<exists>evs. labelled_run (flight_step h) s evs (at_phase s t None (Returned (Some res)) d')"
  proof (cases early)
    case (Some st)
    with call checks have "res = \<lparr>status = st, o_data = k_data c, o_actual = k_actual c\<rparr>" "d' = d1"
      by (simp_all add: scsi_cdb_entry_def)
    with flight_step.Cmd_Refused [of "at_phase s t None ?p (shared s)" t c h st d1] checks Some
    have "flight_step h (at_phase s t None ?p (shared s)) (Fl_Checks t) (at_phase s t None (Returned (Some res)) d')"
      by (simp add: at_phase_moves)
    from solo_step [OF start this] show ?thesis by blast
  next
    case None
    let ?L = "cdb_start (k_data c) (k_actual c)"
    have "flight_step h (at_phase s t None ?p (shared s)) (Fl_Checks t) (at_phase s t None (Cmd_Queued c) d1)"
      using flight_step.Cmd_Passes [of "at_phase s t None ?p (shared s)" t c h d1] checks None
      by (simp add: at_phase_moves)
    note queued = solo_step [OF start this]
    have "flight_step h (at_phase s t None (Cmd_Queued c) d1) (Fl_Locks t) (at_phase s t (Some t) (Cmd_Locked c ?L) d1)"
      using flight_step.Cmd_Locks [of "at_phase s t None (Cmd_Queued c) d1" t c h] by (simp add: at_phase_moves)
    note locked = solo_step [OF queued this]
    from call checks None obtain st L d2 where
      loop: "cdb_loop (laser_bot_send_locked h) h (k_cdb c) (k_len c) (k_data_len c) (k_in c)
        (cdb_idempotent (k_cdb c) (k_len c) (k_data_len c) (k_in c)) ?L d1 = Some (st, L, d2)"
      and out: "res = \<lparr>status = fst (cdb_finish st L d2), o_data = c_data L, o_actual = c_actual L\<rparr>"
        "d' = snd (cdb_finish st L d2)"
      by (auto simp: scsi_cdb_entry_def lock case_prod_unfold split: option.splits)
    from solo_loop [OF loop] locked out show ?thesis by (auto simp: case_prod_unfold)
  qed
  then show ?thesis by (simp add: at_phase_def)
qed

section \<open>A settle\<close>

text \<open>C17: \<open>laser_token_settle()\<close> looks at the flag once, before it queues on the lock. If the last release
  raises the flag and closes the device between the two, the settle's TEST UNIT READY goes out on a handle
  that is closed.\<close>

theorem settle_polls_a_closed_handle:
  assumes "resources (trace (shared s)) {#} = Some (base_of (ent (shared s)) + K)"
    and "Res_Handle (handle (ent (shared s))) \<notin># K"
    and "labelled_run (flight_step h) s [Fl_Checks t, Fl_Cancels, Fl_Closes, Fl_Polls t] s'"
  shows "resources (trace (shared s')) {#} = None"
proof -
  from assms(3) obtain s1 s2 s3 where steps: "flight_step h s (Fl_Checks t) s1" "flight_step h s1 Fl_Cancels s2"
    "flight_step h s2 Fl_Closes s3" "flight_step h s3 (Fl_Polls t) s'"
    unfolding run_four by blast
  let ?e = "ent (shared s)"
  have one: "trace (shared s1) = trace (shared s)" "entry_rely ?e (ent (shared s1))"
    using steps(1) checks_of_step by blast+
  then have same: "base_of (ent (shared s1)) = base_of ?e" "handle (ent (shared s1)) = handle ?e"
    by (simp_all add: base_of_rely entry_rely_def)
  from steps(2) have two: "shared s2 = upd_ent laser_set_cancelled (shared s1)" by cases auto
  have "base_of (ent (shared s2)) = base_of (ent (shared s1))"
    using two by (simp add: laser_set_cancelled_def base_of_def)
  then have "resources (trace (shared s2)) {#} = Some (base_of (ent (shared s2)) + K)"
    using assms(1) one(1) same(1) two by simp
  note closed = close_device_resources [OF this, of h]
  from steps(3) closed
  have three: "resources (trace (shared s3)) {#} = Some ({#Res_Css_Cv, Res_Css_Mtx, Res_Io_Lock#} + K)"
    by cases auto
  have "handle (ent (shared s3)) = handle ?e"
    using steps(3) same(2) two
    by cases (auto simp: close_device_def Let_def do_exit_def do_close_def do_release_interface_def
        laser_mass_storage_reset_frame laser_set_cancelled_def)
  with assms(2) have "\<not> usable ({#Res_Css_Cv, Res_Css_Mtx, Res_Io_Lock#} + K) (handle (ent (shared s3)))"
    by (auto simp: usable_def)
  note polled = poll_goes_out [OF _ three this]
  from steps(4) show ?thesis by cases (auto dest: polled)
qed

section \<open>Runs of the sample drive\<close>

text \<open>The registered drive, with one call on another thread than the one that releases it.\<close>

definition flight_of :: "answer list \<Rightarrow> call_phase \<Rightarrow> sim flight" where
  "flight_of script p = \<lparr>shared = (sim_dev script)\<lparr>trace :=
      [Ev_Acquire Res_Io_Lock, Ev_Acquire Res_Css_Mtx, Ev_Acquire Res_Css_Cv, Ev_Acquire (Res_Context 1),
       Ev_Acquire (Res_Handle 7), Ev_Acquire (Res_Interface 7 1)]\<rparr>,
    io_owner = None, threads = (\<lambda>t. Returned None)(1 := p), teardown = Claimed\<rparr>"

definition tur_call :: cdb_call where
  "tur_call = \<lparr>k_cdb = test_unit_ready_cdb, k_len = 6, k_data = None, k_data_len = 0, k_in = False, k_actual = None\<rparr>"

lemma flight_of_resources: "resources (trace (shared (flight_of script p))) {#} = Some (base_of (ent (shared (flight_of script p))) + {#})"
  by (simp add: flight_of_def base_of_def sim_dev_def sim_entry_def)

lemma flight_of_start: "flight_start {#} (flight_of script (Cmd_Called c))"
  using flight_of_resources [of script "Cmd_Called c"] by (simp add: flight_start_def flight_of_def)

lemma sim_look: "cancels (world d) = [] \<Longrightarrow> laser_is_cancelled sim_host d = (cancelled (ent d), d)"
  by (simp add: laser_is_cancelled_def sim_host_def sim_cancel_def)

text \<open>The last release after the call's checks: the flag, and the close.\<close>

lemma sim_release_run:
  assumes p: "p = Cmd_Called tur_call \<and> q = Cmd_Queued tur_call \<or> p = Settle_Called \<and> q = Settle_Queued"
  obtains s where "labelled_run (flight_step sim_host) (flight_of script p) [Fl_Checks 1, Fl_Cancels, Fl_Closes] s"
    and "threads s 1 = q" and "teardown s = Closed" and "io_owner s = None" and "cancelled (ent (shared s))"
    and "cancels (world (shared s)) = []"
proof -
  let ?s1 = "(flight_of script p)\<lparr>shared := shared (flight_of script p), threads := (threads (flight_of script p))(1 := q)\<rparr>"
  let ?s2 = "?s1\<lparr>shared := upd_ent laser_set_cancelled (shared ?s1), teardown := Cancelling\<rparr>"
  let ?s3 = "?s2\<lparr>shared := close_device sim_host (shared ?s2), teardown := Closed\<rparr>"
  have dev: "cancels (world (shared (flight_of script p))) = []" "\<not> cancelled (ent (shared (flight_of script p)))"
    "\<not> device_gone (ent (shared (flight_of script p)))"
    by (simp_all add: flight_of_def sim_dev_def sim_world_def sim_entry_def zero_entry_def)
  have "flight_step sim_host (flight_of script p) (Fl_Checks 1) ?s1"
    using p
  proof
    assume "p = Cmd_Called tur_call \<and> q = Cmd_Queued tur_call"
    moreover have "cdb_checks sim_host (k_cdb tur_call) (k_len tur_call) (shared (flight_of script p)) = (None, shared (flight_of script p))"
      using dev by (simp add: cdb_checks_def sim_look tur_call_def laser_cdb_changes_css_state_def test_unit_ready_cdb_def)
    ultimately show ?thesis
      using flight_step.Cmd_Passes [of "flight_of script p" 1 tur_call sim_host "shared (flight_of script p)"] by (simp add: flight_of_def)
  next
    assume "p = Settle_Called \<and> q = Settle_Queued"
    then show ?thesis
      using flight_step.Settle_Checks [of "flight_of script p" 1 sim_host False "shared (flight_of script p)"] dev
      by (simp add: settle_checks_def sim_look) (simp add: flight_of_def)
  qed
  moreover have "flight_step sim_host ?s1 Fl_Cancels ?s2"
    by (rule flight_step.Cancels) (simp add: flight_of_def)
  moreover have "flight_step sim_host ?s2 Fl_Closes ?s3"
    by (rule flight_step.Closes) (simp_all add: flight_of_def)
  ultimately have "labelled_run (flight_step sim_host) (flight_of script p) [Fl_Checks 1, Fl_Cancels, Fl_Closes] ?s3"
    unfolding run_four by blast
  moreover have "cancels (world (close_device sim_host d)) = cancels (world d)" for d
    by (simp add: close_device_def Let_def do_exit_def do_close_def do_release_interface_def
        do_interface_def do_call_def laser_mass_storage_reset_def do_control_def do_clear_halt_def do_usleep_def sim_host_def case_prod_unfold)
  moreover have "cancelled (ent (close_device sim_host d)) = cancelled (ent d)" for d
    by (simp add: close_device_def Let_def do_exit_def do_close_def do_release_interface_def laser_mass_storage_reset_frame)
  ultimately show thesis
    using dev by (intro that [of ?s3]) (simp_all add: laser_set_cancelled_def flight_of_def)
qed

theorem commands_never_use_a_closed_handle_witness:
  "\<exists>s. labelled_run (flight_step sim_host) (flight_of [] (Cmd_Called tur_call)) [Fl_Checks 1, Fl_Cancels, Fl_Closes] s \<and>
     resources (trace (shared s)) {#} = Some {#Res_Css_Cv, Res_Css_Mtx, Res_Io_Lock#}"
proof -
  obtain s where run: "labelled_run (flight_step sim_host) (flight_of [] (Cmd_Called tur_call)) [Fl_Checks 1, Fl_Cancels, Fl_Closes] s"
    and closed: "teardown s = Closed"
    by (rule sim_release_run [of "Cmd_Called tur_call" "Cmd_Queued tur_call"]) auto
  from commands_never_use_a_closed_handle [OF flight_of_start run] closed run show ?thesis by auto
qed

text \<open>The queued command gets the lock, sees the flag, and goes.\<close>

theorem commands_leave_after_the_close_witness:
  "\<exists>closed r s'.
     labelled_run (flight_step sim_host) (flight_of [] (Cmd_Called tur_call)) [Fl_Checks 1, Fl_Cancels, Fl_Closes] closed \<and>
     labelled_run (flight_step sim_host) closed [Fl_Locks 1, Fl_Looks 1] s' \<and>
     threads s' 1 = Returned (Some r) \<and> status r = LASER_ERR_CANCELLED \<and> trace (shared s') = trace (shared closed)"
proof -
  obtain s where run: "labelled_run (flight_step sim_host) (flight_of [] (Cmd_Called tur_call)) [Fl_Checks 1, Fl_Cancels, Fl_Closes] s"
    and s: "threads s 1 = Cmd_Queued tur_call" "teardown s = Closed" "io_owner s = None" "cancelled (ent (shared s))"
      "cancels (world (shared s)) = []"
    by (rule sim_release_run [of "Cmd_Called tur_call" "Cmd_Queued tur_call"]) auto
  let ?L = "cdb_start None None"
  let ?s1 = "s\<lparr>io_owner := Some 1, threads := (threads s)(1 := Cmd_Locked tur_call ?L)\<rparr>"
  let ?s2 = "cdb_leave LASER_ERR_CANCELLED (?L\<lparr>attempts_made := attempt ?L\<rparr>) 1 (shared s) ?s1"
  have "flight_step sim_host s (Fl_Locks 1) ?s1"
    using flight_step.Cmd_Locks [of s 1 tur_call sim_host] s by (simp add: tur_call_def)
  moreover have "flight_step sim_host ?s1 (Fl_Looks 1) ?s2"
    by (rule flight_step.Cmd_Gives_Up) (use s in \<open>simp_all add: sim_look cdb_start_def\<close>)
  ultimately have leaves: "labelled_run (flight_step sim_host) s [Fl_Locks 1, Fl_Looks 1] ?s2"
    unfolding run_four by blast
  have ret: "threads ?s2 1 = Returned (Some \<lparr>status = LASER_ERR_CANCELLED, o_data = None, o_actual = None\<rparr>)"
    by (simp add: cdb_leave_def cdb_finish_def cdb_never_left_def cdb_normalise_def cdb_start_def)
  from commands_leave_after_the_close [OF flight_of_start run s(2) leaves] run leaves ret show ?thesis
    by (intro exI [of _ s] exI [of _ "\<lparr>status = LASER_ERR_CANCELLED, o_data = None, o_actual = None\<rparr>"] exI [of _ ?s2]) simp
qed

text \<open>The settle polls where the command gave up.\<close>

theorem settle_polls_a_closed_handle_witness:
  "\<exists>s. labelled_run (flight_step sim_host) (flight_of [] Settle_Called) [Fl_Checks 1, Fl_Cancels, Fl_Closes, Fl_Polls 1] s \<and>
     resources (trace (shared s)) {#} = None"
proof -
  obtain s where run: "labelled_run (flight_step sim_host) (flight_of [] Settle_Called) [Fl_Checks 1, Fl_Cancels, Fl_Closes] s"
    and s: "threads s 1 = Settle_Queued" "io_owner s = None"
    by (rule sim_release_run [of Settle_Called Settle_Queued]) auto
  obtain r d where "settle_polls sim_host (shared s) = (r, d)" by fastforce
  from flight_step.Settle_Polls [OF s this] obtain s' where "flight_step sim_host s (Fl_Polls 1) s'" by blast
  with run have all: "labelled_run (flight_step sim_host) (flight_of [] Settle_Called)
      [Fl_Checks 1, Fl_Cancels, Fl_Closes, Fl_Polls 1] s'"
    unfolding run_four by blast
  from settle_polls_a_closed_handle [OF flight_of_resources _ all] all show ?thesis by auto
qed

text \<open>A command alone that the drive answers.\<close>

theorem command_alone_is_the_call_witness:
  "\<exists>evs s r. labelled_run (flight_step sim_host) (flight_of [Answer [] 0] (Cmd_Called tur_call)) evs s \<and>
     threads s 1 = Returned (Some r) \<and> status r = LASER_OK"
proof -
  let ?s = "flight_of [Answer [] 0] (Cmd_Called tur_call)"
  have "case scsi_cdb_entry (laser_bot_send_locked sim_host) sim_host (k_cdb tur_call) (k_len tur_call)
      (k_data tur_call) (k_data_len tur_call) (k_in tur_call) (k_actual tur_call) (shared ?s) of
      None \<Rightarrow> False | Some (r, d) \<Rightarrow> status r = LASER_OK"
    by code_simp
  then obtain r d where ok: "status r = LASER_OK" and call: "scsi_cdb_entry (laser_bot_send_locked sim_host) sim_host
      (k_cdb tur_call) (k_len tur_call) (k_data tur_call) (k_data_len tur_call) (k_in tur_call) (k_actual tur_call)
      (shared ?s) = Some (r, d)"
    by (auto split: option.splits)
  have "\<exists>evs. labelled_run (flight_step sim_host) ?s evs
      (?s\<lparr>shared := d, io_owner := None, threads := (threads ?s)(1 := Returned (Some r))\<rparr>)"
    by (rule command_alone_is_the_call [OF _ _ _ call]) (simp_all add: flight_of_def sim_host_def)
  with ok show ?thesis by fastforce
qed

end
