(* ===== verification/Registration.thy ===== *)
theory Registration
  imports Claims_Props Sample_Disc
begin

text \<open>
  What a first claim publishes: every field of the new entry, traced back to what libusb and the drive
  answered while it was registered. \<open>Registry_Laws\<close> accounts for the resources of a registration; here
  is what its result is for.
\<close>

section \<open>What registration fixes\<close>

text \<open>The fields commands use to reach the device, and the session state.\<close>

definition wired :: "laser_entry \<Rightarrow> handle \<times> nat \<times> byte \<times> byte \<times> byte \<times> u16 \<times> bool" where
  "wired e = (handle e, ctx e, iface_num e, ep_in e, ep_out e, ep_max_packet e, css_open e)"

lemma wired_frame: "entry_frame e e' \<Longrightarrow> wired e' = wired e \<and> lun e' = lun e \<and> probe_timeouts e' = probe_timeouts e"
  by (auto simp: entry_frame_def wired_def)

lemma wired_probe: "probe_frame e e' \<Longrightarrow> wired e' = wired e"
  by (auto simp: probe_frame_def wired_def)

text \<open>Endpoints the active configuration offers, over a handle made from the descriptor, claimed.\<close>

definition wired_to :: "'w host \<Rightarrow> int \<Rightarrow> laser_entry \<Rightarrow> bool" where
  "wired_to h fd e \<longleftrightarrow>
     (\<exists>w. fst (libusb_init_context h w) = (LIBUSB_SUCCESS, ctx e)) \<and>
     (\<exists>w. fst (libusb_wrap_sys_device h (ctx e) fd w) = (LIBUSB_SUCCESS, handle e)) \<and>
     (\<exists>w cfg ifc i out. fst (libusb_get_active_config_descriptor h (handle e) w) = Some cfg \<and>
        bulk_interface_spec cfg = Some (ifc, i, out) \<and> iface_num e = bInterfaceNumber ifc \<and>
        ep_in e = bEndpointAddress i \<and> ep_out e = bEndpointAddress out \<and>
        ep_max_packet e = min (wMaxPacketSize i AND 0x07ff) (wMaxPacketSize out AND 0x07ff)) \<and>
     (\<exists>w. fst (libusb_interface h Op_Claim (handle e) (iface_num e) w) = LIBUSB_SUCCESS)"

lemma wired_to_cong: "wired e = wired e' \<Longrightarrow> wired_to h fd e = wired_to h fd e'"
  by (simp add: wired_def wired_to_def)

section \<open>Along one registration\<close>

lemma open_device_wires:
  assumes "open_device h fd d = (None, d')"
  shows "(\<exists>w. fst (libusb_init_context h w) = (LIBUSB_SUCCESS, ctx (ent d'))) \<and>
    (\<exists>w. fst (libusb_wrap_sys_device h (ctx (ent d')) fd w) = (LIBUSB_SUCCESS, handle (ent d'))) \<and>
    css_open (ent d') = css_open (ent d)"
proof -
  obtain ret1 c w1 where 1: "libusb_init_context h (world d) = ((ret1, c), w1)" by (rule reply2_exhaust)
  obtain ret2 hn w2 where 2: "libusb_wrap_sys_device h c fd w1 = ((ret2, hn), w2)" by (rule reply2_exhaust)
  have ok: "ret1 = LIBUSB_SUCCESS" "ret2 = LIBUSB_SUCCESS" and e: "ctx (ent d') = c" "handle (ent d') = hn"
    "css_open (ent d') = css_open (ent d)"
    using assms 1 2
    by (auto simp: open_device_def do_call_def logged_def Let_def split: if_splits option.splits prod.splits)
  have "fst (libusb_init_context h (world d)) = (LIBUSB_SUCCESS, c)"
    "fst (libusb_wrap_sys_device h c fd w1) = (LIBUSB_SUCCESS, hn)" using 1 2 ok by simp_all
  with e show ?thesis by blast
qed

lemma detach_wired: "wired (ent (detach_kernel_driver h d)) = wired (ent d)"
  by (simp add: detach_kernel_driver_def case_prod_unfold wired_def)

lemma claim_device_wires:
  assumes "claim_device h d = (None, d')"
  shows "(\<exists>w cfg ifc i out. fst (libusb_get_active_config_descriptor h (handle (ent d')) w) = Some cfg \<and>
      bulk_interface_spec cfg = Some (ifc, i, out) \<and> iface_num (ent d') = bInterfaceNumber ifc \<and>
      ep_in (ent d') = bEndpointAddress i \<and> ep_out (ent d') = bEndpointAddress out \<and>
      ep_max_packet (ent d') = min (wMaxPacketSize i AND 0x07ff) (wMaxPacketSize out AND 0x07ff)) \<and>
    (\<exists>w. fst (libusb_interface h Op_Claim (handle (ent d')) (iface_num (ent d')) w) = LIBUSB_SUCCESS) \<and>
    handle (ent d') = handle (ent d) \<and> ctx (ent d') = ctx (ent d) \<and> css_open (ent d') = css_open (ent d)"
proof -
  obtain found d1 where f: "laser_find_bulk_endpoints h d = (found, d1)" by fastforce
  let ?k = "detach_kernel_driver h d1"
  obtain ret d3 where cl: "do_interface h Op_Claim ?k = (ret, d3)" by fastforce
  then have e3: "ent d3 = ent ?k" using do_interface_sel [of h Op_Claim ?k] by simp
  have ok: "found" "ret = LIBUSB_SUCCESS" "ent d' = ent d3"
    using assms f cl by (auto simp: claim_device_def split: if_splits)
  have same: "wired (ent d') = wired (ent d1)" using ok(3) e3 detach_wired [of h d1] by simp
  obtain cfg w where c: "libusb_get_active_config_descriptor h (handle (ent d)) (world d) = (cfg, w)" by fastforce
  then obtain x where x: "cfg = Some x" "choose_interface x (ent d) = Some (ent d1)"
    using f ok(1) by (auto simp: laser_find_bulk_endpoints_def Let_def split: option.splits)
  then obtain ifc i out where spec: "bulk_interface_spec x = Some (ifc, i, out)"
    and e1: "ent d1 = (ent d)\<lparr>iface_num := bInterfaceNumber ifc, ep_in := bEndpointAddress i,
      ep_out := bEndpointAddress out,
      ep_max_packet := min (wMaxPacketSize i AND 0x07ff) (wMaxPacketSize out AND 0x07ff)\<rparr>"
    by (auto simp: choose_interface_spec)
  have cfg: "fst (libusb_get_active_config_descriptor h (handle (ent d)) (world d)) = Some x" using c x by simp
  have "fst (libusb_interface h Op_Claim (handle (ent ?k)) (iface_num (ent ?k)) (world ?k)) = LIBUSB_SUCCESS"
    using cl ok(2) by (simp add: do_interface_def do_call_def split: prod.splits)
  moreover have "handle (ent ?k) = handle (ent d')" "iface_num (ent ?k) = iface_num (ent d')"
    using e3 ok(3) by simp_all
  ultimately have claimed: "\<exists>w. fst (libusb_interface h Op_Claim (handle (ent d')) (iface_num (ent d')) w) = LIBUSB_SUCCESS"
    by metis
  have "handle (ent d') = handle (ent d)" "ctx (ent d') = ctx (ent d)" "css_open (ent d') = css_open (ent d)"
    "iface_num (ent d') = bInterfaceNumber ifc" "ep_in (ent d') = bEndpointAddress i"
    "ep_out (ent d') = bEndpointAddress out"
    "ep_max_packet (ent d') = min (wMaxPacketSize i AND 0x07ff) (wMaxPacketSize out AND 0x07ff)"
    using same unfolding wired_def e1 by simp_all
  with cfg spec claimed show ?thesis by metis
qed

context bot_transport
begin

lemma allow_removal_wired:
  assumes "unpublished h" and "\<not> in_use (ent d)"
  shows "\<exists>e. ent (laser_allow_medium_removal send h d) = e \<and> entry_frame (ent d) e"
  using assms entry_frame_trans [OF send_frame request_sense_frame] send_frame
  by (simp add: laser_allow_medium_removal_def case_prod_unfold)
    (metis unpublished_lock)

lemma wait_until_ready_wired:
  assumes "unpublished h" and "\<not> in_use (ent d)"
    and run: "laser_wait_until_ready send h d = Some (r, L', d')"
  shows "wired (ent d') = wired (ent d) \<and> lun (ent d') = lun (ent d) \<and>
    probe_timeouts (ent d') = probe_timeouts (ent d) \<and> (not_ready (ent d') \<longleftrightarrow> r \<noteq> Unit_Ready)"
proof -
  obtain started d1 where t1: "do_clock h d = (started, d1)" by fastforce
  obtain nm d2 where t2: "do_clock h (spin_up_locked send (lock_io h d1)) = (nm, d2)" by fastforce
  let ?d = "upd_ent (\<lambda>e. e\<lparr>not_ready := True\<rparr>) d2"
  have loop: "wait_loop send h started nm wait_start ?d = Some (r, L', d')"
    using run t1 t2 by (simp add: laser_wait_until_ready_def)
  have "entry_frame (ent (lock_io h d1)) (ent d2)"
    using spin_up_frame [of "lock_io h d1"] do_clock_frame(1) [of h "spin_up_locked send (lock_io h d1)"] t2 by simp
  moreover have "ent (lock_io h d1) = ent d"
    using unpublished_lock [OF assms(1), of d1] assms(2) do_clock_frame(1) [of h d] t1 by simp
  ultimately have "wired (ent ?d) = wired (ent d) \<and> lun (ent ?d) = lun (ent d) \<and>
      probe_timeouts (ent ?d) = probe_timeouts (ent d)"
    using wired_frame [of "ent d" "ent d2"] by (simp add: wired_def)
  moreover have "wired (ent d') = wired (ent ?d) \<and> lun (ent d') = lun (ent ?d) \<and>
      probe_timeouts (ent d') = probe_timeouts (ent ?d) \<and> (not_ready (ent d') \<longleftrightarrow> r \<noteq> Unit_Ready)"
  proof (cases "r = Unit_Ready")
    case True
    with wait_loop_frame [OF loop] obtain e where "entry_frame (ent ?d) e" "ent d' = e\<lparr>not_ready := False\<rparr>" by auto
    with wired_frame [of "ent ?d" e] True show ?thesis by (simp add: wired_def)
  next
    case False
    with wait_loop_frame [OF loop] have "entry_frame (ent ?d) (ent d')" by simp
    with wired_frame [of "ent ?d" "ent d'"] False show ?thesis by (auto simp: entry_frame_def)
  qed
  ultimately show ?thesis by simp
qed

end

text \<open>
  How a drive that is kept was prepared, in the run that ended with the given world and trace: the
  probe after the reset said optical and chose the unit, the tray was unlocked if the kernel driver
  had been taken off, and the wait that followed, the last thing done, settled readiness.
\<close>

definition prepared :: "'w host \<Rightarrow> 'w \<Rightarrow> event list \<Rightarrow> laser_entry \<Rightarrow> bool" where
  "prepared h w tr e \<longleftrightarrow> \<not> probe_timeouts e \<and>
     (\<exists>d d1 r L d2. wired (ent d) = wired e \<and>
        laser_probe_lun (laser_bot_send_locked h) h (laser_mass_storage_reset h d) =
          (LASER_OPTICAL_YES, d1) \<and> lun e = lun (ent d1) \<and>
        laser_wait_until_ready (laser_bot_send_locked h) h
          (if kernel_driver_detached (ent d1)
           then laser_allow_medium_removal (laser_bot_send_locked h) h d1 else d1) = Some (r, L, d2) \<and>
        (not_ready e \<longleftrightarrow> r \<noteq> Unit_Ready) \<and> world d2 = w \<and> trace d2 = tr)"

lemma prepare_drive_result:
  assumes "unpublished h" and hidden: "\<not> in_use (ent d)" and quick: "\<not> probe_timeouts (ent d)"
    and run: "prepare_drive (laser_bot_send_locked h) h d = Some (None, d')"
  shows "wired (ent d') = wired (ent d)" and "prepared h (world d') (trace d') (ent d')"
proof -
  let ?send = "laser_bot_send_locked h" and ?r = "laser_mass_storage_reset h d"
  have reset: "ent ?r = ent d" by (simp add: laser_mass_storage_reset_frame)
  obtain optical d1 where p: "laser_probe_lun ?send h ?r = (optical, d1)" by fastforce
  let ?d2 = "if kernel_driver_detached (ent d1) then laser_allow_medium_removal ?send h d1 else d1"
  obtain r L d3 where opt: "optical = LASER_OPTICAL_YES"
    and w: "laser_wait_until_ready ?send h ?d2 = Some (r, L, d3)" and d': "d' = upd_ent (\<lambda>e. e\<lparr>in_use := True\<rparr>) d3"
    using run p by (cases optical) (auto simp: prepare_drive_def Let_def split: option.splits)
  have f1: "probe_frame (ent d) (ent d1)" "\<not> probe_timeouts (ent d1)"
    using bot.probe_lun_frame [OF assms(1) _ _ p] reset hidden quick by simp_all
  have h1: "\<not> in_use (ent d1)" using probe_frameD(5) [OF f1(1)] hidden by simp
  have f2: "entry_frame (ent d1) (ent ?d2)"
    using bot.allow_removal_wired [OF assms(1) h1] by simp
  have h2: "\<not> in_use (ent ?d2)" using entry_frameD [OF f2] h1 by simp
  note f3 = bot.wait_until_ready_wired [OF assms(1) h2 w]
  have same: "wired (ent d1) = wired (ent d)" "wired (ent ?d2) = wired (ent d)" "wired (ent d3) = wired (ent d)"
    "lun (ent ?d2) = lun (ent d1)" "lun (ent d3) = lun (ent d1)"
    using wired_probe [OF f1(1)] wired_frame [OF f2] f3 by simp_all
  have e': "wired (ent d') = wired (ent d3)" "lun (ent d') = lun (ent d3)" "not_ready (ent d') = not_ready (ent d3)"
    "probe_timeouts (ent d') = probe_timeouts (ent d3)" using d' by (simp_all add: wired_def)
  show "wired (ent d') = wired (ent d)" using e' same by simp
  have "laser_probe_lun ?send h ?r = (LASER_OPTICAL_YES, d1)" using p opt by simp
  moreover have "\<not> probe_timeouts (ent d')" using e' f3 wired_frame [OF f2] f1(2) by simp
  moreover have "wired (ent d) = wired (ent d')" "lun (ent d') = lun (ent d1)"
    "not_ready (ent d') \<longleftrightarrow> r \<noteq> Unit_Ready" "world d3 = world d'" "trace d3 = trace d'"
    using d' e' same f3 by simp_all
  ultimately show "prepared h (world d') (trace d') (ent d')" using w unfolding prepared_def by blast
qed

lemma register_device_entry:
  assumes "unpublished h" and start: "ent d = zero_entry\<lparr>token := fd\<rparr>"
    and run: "register_device (laser_bot_send_locked h) h fd d = Some (None, d')"
  shows "wired_to h fd (ent d') \<and> prepared h (world d') (trace d') (ent d') \<and> \<not> css_open (ent d')"
proof -
  let ?d1 = "register_identity h fd d"
  obtain d2 where locks: "register_locks h ?d1 = (None, d2)"
    using run by (auto simp: register_device_def split: prod.splits option.splits)
  obtain d3 where opened: "open_device h fd d2 = (None, d3)"
    using run locks by (auto simp: register_device_def split: prod.splits option.splits)
  obtain d4 where claimed: "claim_device h d3 = (None, d4)"
    using run locks opened by (auto simp: register_device_def split: prod.splits option.splits)
  have prep: "prepare_drive (laser_bot_send_locked h) h d4 = Some (None, d')"
    using run locks opened claimed by (simp add: register_device_def)
  have e2: "\<not> css_open (ent d2)" "\<not> probe_timeouts (ent d2)" "\<not> in_use (ent d2)"
    using register_locks_acquired(2) [OF locks acquired_start [of ?d1 ?d1]] start
    by (simp_all add: register_identity_def case_prod_unfold zero_entry_def split: option.split)
  note o3 = open_device_wires [OF opened] and c4 = claim_device_wires [OF claimed]
  have quick: "\<not> probe_timeouts (ent d4)"
    using claim_device_probe [of h d3] open_device_probe [of h fd d2] claimed opened e2 by simp
  have "in_use (ent d3) = in_use (ent d2)"
    using opened by (auto simp: open_device_def do_call_def logged_def Let_def split: if_splits option.splits prod.splits)
  moreover have "in_use (ent d4) = in_use (ent d3)"
  proof -
    obtain found x where f: "laser_find_bulk_endpoints h d3 = (found, x)" by fastforce
    have "in_use (ent x) = in_use (ent d3)"
      using find_endpoints_acquired(2) [OF f acquired_start [of d3 d3]] by auto
    moreover have "in_use (ent (detach_kernel_driver h x)) = in_use (ent x)"
      by (simp add: detach_kernel_driver_def case_prod_unfold)
    moreover obtain ret y where c: "do_interface h Op_Claim (detach_kernel_driver h x) = (ret, y)" by fastforce
    then have "ent y = ent (detach_kernel_driver h x)"
      using do_interface_sel [of h Op_Claim "detach_kernel_driver h x"] by simp
    moreover have "ent d4 = ent y" using claimed f c by (auto simp: claim_device_def split: if_splits)
    ultimately show ?thesis by simp
  qed
  ultimately have hidden: "\<not> in_use (ent d4)" using e2 by simp
  note p = prepare_drive_result [OF assms(1) hidden quick prep]
  have "wired_to h fd (ent d4)" using o3 c4 unfolding wired_to_def by metis
  with p(1) have "wired_to h fd (ent d')" by (simp only: wired_to_cong [OF p(1)])
  moreover have "\<not> css_open (ent d')" using p(1) o3 c4 e2 by (simp add: wired_def)
  ultimately show ?thesis using p(2) by blast
qed

lemma registered_entry:
  assumes "unpublished h" and eight: "length (g_entries s) = LASER_MAX_DEVICES"
    and run: "laser_register h fd s = Some (ok, s')" and "ok"
    and i: "i < LASER_MAX_DEVICES" "\<not> in_use (g_entries s ! i)" and es: "g_entries s' = (g_entries s)[i := e]"
    and "in_use e"
  shows "wired_to h fd e \<and> prepared h (world s') (trace s') e \<and> \<not> css_open e"
proof -
  obtain j s1 where slot: "reserve_slot fd s = (Some j, s1)"
    using run \<open>ok\<close> by (auto simp: laser_register_def split: prod.splits option.splits)
  then have s1: "s1 = s\<lparr>g_entries := (g_entries s)[j := zero_entry\<lparr>token := fd\<rparr>]\<rparr>"
    "find_slot (\<lambda>e. \<not> in_use e) (take LASER_MAX_DEVICES (g_entries s)) = Some j"
    by (auto simp: reserve_slot_def split: if_splits option.splits)
  from find_slot_Some [OF s1(2)] eight have j: "j < LASER_MAX_DEVICES" "\<not> in_use (g_entries s ! j)" by auto
  obtain d' where dev: "register_device (laser_bot_send_locked h) h fd (dev_of j s1) = Some (None, d')"
    and s': "s' = put_dev j d' s1"
    using run slot \<open>ok\<close> by (auto simp: laser_register_def split: option.splits)
  have start: "ent (dev_of j s1) = zero_entry\<lparr>token := fd\<rparr>" using s1(1) j eight by simp
  have es': "g_entries s' = (g_entries s)[j := ent d']" using s' s1(1) by simp
  have "e = ent d'"
  proof (cases "i = j")
    case True
    then show ?thesis using arg_cong [OF es, of "\<lambda>xs. xs ! i"] es' i(1) eight by simp
  next
    case False
    then have "e = g_entries s ! i" using arg_cong [OF es, of "\<lambda>xs. xs ! i"] es' i(1) eight by simp
    with i(2) \<open>in_use e\<close> show ?thesis by simp
  qed
  moreover have "world s' = world d'" "trace s' = trace d'" using s' by (simp_all add: put_dev_def)
  ultimately show ?thesis using register_device_entry [OF assms(1) start dev] by simp
qed

section \<open>The property\<close>

text \<open>C13: a first claim that succeeds publishes, in a slot that was free and with every other slot as it
  was, an entry under the token with one claim, nothing cancelled and no session, whose interface and
  endpoints are those the active configuration of the device behind the descriptor offers, addressing the
  unit the probe of this registration found optical, and whose readiness is what the wait after it, the
  last thing the registration did, made of it.\<close>

theorem first_claim_publishes_the_drive:
  assumes "unpublished h" and "threads_rely h" and "length (g_entries s) = LASER_MAX_DEVICES"
    and "laser_lookup tk s = None" and "laser_acquire h tk s = Some (LASER_OK, s')"
  shows "\<exists>i e. i < LASER_MAX_DEVICES \<and> \<not> in_use (g_entries s ! i) \<and> g_entries s' = (g_entries s)[i := e] \<and>
    in_use e \<and> token e = tk \<and> refs e = 1 \<and> \<not> cancelled e \<and> \<not> device_gone e \<and> \<not> css_open e \<and>
    max_transfer_bytes e = LASER_MAX_BYTES_PER_TRANSFER \<and> wired_to h tk e \<and>
    prepared h (world s') (trace s') e"
proof -
  obtain ok s1 where reg: "laser_register h tk s = Some (ok, s1)"
    using assms(4,5) by (auto simp: laser_acquire_def split: option.splits)
  from assms(1,2) reg assms(3) show ?thesis
  proof (cases rule: laser_register_cases)
    case refused
    with assms(4,5) reg show ?thesis by (simp add: laser_acquire_def)
  next
    case (failed i)
    have "laser_lookup tk s1 = None"
      using lookup_fresh [OF assms(4,3) failed(2,5)] by (simp add: zero_entry_def)
    with assms(4,5) reg show ?thesis by (simp add: laser_acquire_def)
  next
    case (kept i e)
    have "laser_lookup tk s1 = Some i" using lookup_fresh [OF assms(4,3) kept(2,5)] kept(6,7) by simp
    with assms(4,5) reg have s': "s' = add_claim i s1" by (simp add: laser_acquire_def)
    have es: "g_entries s' = (g_entries s)[i := e\<lparr>refs := 1\<rparr>]" using kept(2,5,8) s' assms(3) by simp
    have "wired_to h tk e \<and> prepared h (world s1) (trace s1) e \<and> \<not> css_open e"
      by (rule registered_entry [OF assms(1,3) reg kept(1,2,3,5,6)])
    moreover have "wired (e\<lparr>refs := 1\<rparr>) = wired e" by (simp add: wired_def)
    moreover from this have "wired_to h tk (e\<lparr>refs := 1\<rparr>) = wired_to h tk e" 
      "prepared h w tr (e\<lparr>refs := 1\<rparr>) = prepared h w tr e" for w tr
      by (simp_all add: wired_to_cong [OF \<open>wired (e\<lparr>refs := 1\<rparr>) = wired e\<close>] prepared_def)
    moreover have "world s' = world s1" "trace s' = trace s1"
      using s' by (simp_all add: add_claim_def put_dev_def)
    ultimately show ?thesis
      using kept es by (intro exI [of _ i] exI [of _ "e\<lparr>refs := 1\<rparr>"]) simp
  qed
qed

section \<open>A drive that registers\<close>

text \<open>An optical drive that answers INQUIRY, and passes every command without data.\<close>

definition play_drive :: "byte list \<Rightarrow> byte list option" where
  "play_drive cb = (if cb ! 0 = 0x12 then Some [0x05] else Some [])"

lemma drive_probe: "\<exists>d1. laser_probe_lun (laser_bot_send_locked (player_host play_drive)) (player_host play_drive) d =
    (LASER_OPTICAL_YES, d1)"
proof -
  let ?h = "player_host play_drive"
  have plays: "play_drive (pad16 (take (nat 6) inquiry_cdb)) = Some [0x05]" by code_simp
  have type: "(write_prefix [0x05] (replicate 36 0) :: byte list) ! 0 AND 0x1f = 0x05" by code_simp
  have inq: "\<exists>d1. inquiry_pdt (laser_bot_send_locked ?h) ?h 7 x = (Inq_Type 0x05, d1)" for x
  proof -
    obtain out d1 where "inquiry_try (laser_bot_send_locked ?h) ?h x = (out, d1)" "rc out = BOT_OK"
      "buf out = Some (write_prefix [0x05] (replicate 36 0))" "actual_len out = Some 1"
      using player_send [where play = play_drive and n = 6 and cdb = inquiry_cdb and len = 36, OF plays,
          of "replicate 36 0" "Some 0" None "upd_ent (\<lambda>e. e\<lparr>probe_timeouts := True\<rparr>) (lock_io ?h x)"]
      by (auto simp: inquiry_try_def)
    then have "inquiry_tries (laser_bot_send_locked ?h) ?h 1 (Suc 6) x = (Inq_Type 0x05, d1)"
      using type by (simp only: inquiry_tries.simps(2)) simp
    moreover have "(7 :: nat) = Suc 6" by simp
    ultimately show ?thesis unfolding inquiry_pdt_def by (metis (no_types))
  qed
  let ?d0 = "upd_ent (\<lambda>e. e\<lparr>lun := 0\<rparr>) d"
  obtain d1 where c: "do_control ?h USB_BOT_GETMAXLUN_bmREQUESTTYPE USB_BOT_GETMAXLUN_bREQUEST
      (iface_num (ent ?d0)) 1 ?d0 = ((1, [0]), d1)"
    by (simp add: do_control_def player_host_def sim_host_def)
  obtain d2 where "inquiry_pdt (laser_bot_send_locked ?h) ?h 7 (upd_ent (\<lambda>e. e\<lparr>lun := 0\<rparr>) d1) = (Inq_Type 0x05, d2)"
    using inq by blast
  then have "probe_units (laser_bot_send_locked ?h) ?h [0] None d1 = (LASER_OPTICAL_YES, d2)" by simp
  moreover have "[0..<Suc (probed_max_lun 1 [0])] = [0]" by (simp add: probed_max_lun_def)
  ultimately have "laser_probe_lun (laser_bot_send_locked ?h) ?h d = (LASER_OPTICAL_YES, d2)"
    using c by (simp add: laser_probe_lun_def del: upt_Suc)
  then show ?thesis by blast
qed

lemma drive_registers:
  assumes "laser_lookup 42 s = None" and "length (g_entries s) = LASER_MAX_DEVICES"
    and "\<not> in_use (g_entries s ! 0)"
  shows "\<exists>s'. laser_acquire (player_host play_drive) 42 s = Some (LASER_OK, s')"
proof -
  let ?h = "player_host play_drive"
  have locks: "\<exists>d1. register_locks ?h d = (None, d1)" for d
    by (simp add: register_locks_def do_pthread_init_def do_call_def player_host_def sim_host_def)
  have opened: "\<exists>d1. open_device ?h 42 d = (None, d1)" for d
    by (simp add: open_device_def do_call_def player_host_def sim_host_def)
  have "bulk_interface_spec sim_config \<noteq> None" by code_simp
  then have "choose_interface sim_config e \<noteq> None" for e by (simp add: choose_interface_spec)
  then have found: "fst (laser_find_bulk_endpoints ?h d)" for d
    by (auto simp: laser_find_bulk_endpoints_def Let_def player_host_def sim_host_def split: option.split)
  have claims: "fst (do_interface ?h Op_Claim d) = LIBUSB_SUCCESS" for d
    by (simp add: do_interface_def do_call_def player_host_def sim_host_def)
  have claimed: "\<exists>d1. claim_device ?h d = (None, d1)" for d
    by (simp add: claim_device_def case_prod_unfold found claims)
  have prepared: "\<exists>d1. prepare_drive (laser_bot_send_locked ?h) ?h d = Some (None, d1)" for d
  proof -
    obtain w where "laser_wait_until_ready (laser_bot_send_locked ?h) ?h = (\<lambda>x. Some (w x))"
      using bot.wait_until_ready_total [OF player_clock_monotonic] by blast
    then show ?thesis
      using drive_probe [of "laser_mass_storage_reset ?h d"] by (auto simp: prepare_drive_def case_prod_unfold Let_def)
  qed
  have registers: "\<exists>d1. register_device (laser_bot_send_locked ?h) ?h 42 d = Some (None, d1)" for d
  proof -
    obtain d1 where 1: "register_locks ?h (register_identity ?h 42 d) = (None, d1)" using locks by blast
    obtain d2 where 2: "open_device ?h 42 d1 = (None, d2)" using opened by blast
    obtain d3 where 3: "claim_device ?h d2 = (None, d3)" using claimed by blast
    obtain d4 where "prepare_drive (laser_bot_send_locked ?h) ?h d3 = Some (None, d4)" using prepared by blast
    with 1 2 3 show ?thesis by (simp add: register_device_def)
  qed
  have "find_slot (\<lambda>e. \<not> in_use e) (take LASER_MAX_DEVICES (g_entries s)) = Some 0"
    using assms(2,3) by (cases "g_entries s") simp_all
  then obtain s1 where slot: "reserve_slot 42 s = (Some 0, s1)"
    using assms(1) by (simp add: reserve_slot_def laser_lookup_def find_slot_None)
  obtain d where "register_device (laser_bot_send_locked ?h) ?h 42 (dev_of 0 s1) = Some (None, d)"
    using registers by blast
  with slot have reg: "laser_register ?h 42 s = Some (True, put_dev 0 d s1)" by (simp add: laser_register_def)
  have env: "unpublished ?h" by (simp add: unpublished_def)
  from env player_threads_rely reg assms(2) show ?thesis
  proof (cases rule: laser_register_cases)
    case (kept i e)
    have "laser_lookup 42 (put_dev 0 d s1) = Some i" using lookup_fresh [OF assms(1,2) kept(2,5)] kept(6,7) by simp
    with reg assms(1) show ?thesis by (simp add: laser_acquire_def)
  qed simp_all
qed

theorem first_claim_publishes_the_drive_witness:
  "\<exists>s' e. laser_acquire (player_host play_drive) 42 (empty_table (sim_world [])) = Some (LASER_OK, s') \<and>
    e \<in> set (g_entries s') \<and> in_use e \<and> token e = 42 \<and> refs e = 1 \<and> wired_to (player_host play_drive) 42 e \<and>
    prepared (player_host play_drive) (world s') (trace s') e"
proof -
  let ?h = "player_host play_drive" and ?s = "empty_table (sim_world [])"
  have env: "unpublished ?h" by (simp add: unpublished_def)
  have free: "laser_lookup 42 ?s = None" "length (g_entries ?s) = LASER_MAX_DEVICES" "\<not> in_use (g_entries ?s ! 0)"
    by (simp_all add: laser_lookup_def empty_table_def zero_entry_def find_slot_None)
  obtain s' where run: "laser_acquire ?h 42 ?s = Some (LASER_OK, s')" using drive_registers [OF free] by blast
  obtain i e where e: "i < LASER_MAX_DEVICES" "g_entries s' = (g_entries ?s)[i := e]"
    "in_use e" "token e = 42" "refs e = 1" "wired_to ?h 42 e"
    "prepared ?h (world s') (trace s') e"
    using first_claim_publishes_the_drive [OF env player_threads_rely free(2,1) run] by blast
  have "e \<in> set (g_entries s')" using e(1,2) free(2) by (simp add: set_update_memI)
  with run e show ?thesis by blast
qed

end
