(* ===== verification/Identify.thy ===== *)
theory Identify
  imports Video_CD
begin

text \<open>
  What identification answers, as a function of what is in the drive: its family, its table of contents,
  the ISO9660 image behind the data track and the UDF volume. The specification knows nothing of commands,
  sectors or states; the code agrees with it on any drive that answers.
\<close>

section \<open>The specification\<close>

text \<open>A UDF volume is its files and its label. The candidates in the order of preference: on a CD the Video
  CD layouts, on a medium of no known family UDF first, elsewhere UDF alone.\<close>

type_synonym volume = "(byte list \<Rightarrow> byte list option) \<times> byte list"

definition video_cd :: "image \<Rightarrow> u32 \<Rightarrow> laser_disc option" where
  "video_cd disc base = map_option (\<lambda>p. \<lparr>kind = the (iso_kind (probe_kind p)), volume_id = volume_label disc base\<rparr>)
     (video_layout disc base)"

definition udf_video :: "volume option \<Rightarrow> laser_disc option" where
  "udf_video vol =
     (case vol of None \<Rightarrow> None
      | Some (files, label) \<Rightarrow>
          map_option (\<lambda>k. \<lparr>kind = k, volume_id = copy_volume_id label\<rparr>) (udf_kind (volume_layout files)))"

definition candidates :: "medium \<Rightarrow> cd_toc \<Rightarrow> u32 \<Rightarrow> image \<Rightarrow> volume option \<Rightarrow> laser_disc option list" where
  "candidates m toc base disc vol =
     (if m = MEDIUM_CD \<and> toc = CD_TOC_DATA then [video_cd disc base, udf_video vol]
      else if m = MEDIUM_UNKNOWN \<and> toc = CD_TOC_DATA then [udf_video vol, video_cd disc base]
      else [udf_video vol])"

definition identification :: "medium \<Rightarrow> cd_toc \<Rightarrow> u32 \<Rightarrow> image \<Rightarrow> volume option \<Rightarrow> laser_disc" where
  "identification m toc base disc vol =
     (if (m = MEDIUM_CD \<or> m = MEDIUM_UNKNOWN) \<and> toc = CD_TOC_AUDIO then \<lparr>kind = LASER_DISC_CD_AUDIO, volume_id = []\<rparr>
      else case List.map_filter id (candidates m toc base disc vol) of
          [] \<Rightarrow> \<lparr>kind = LASER_DISC_UNKNOWN, volume_id = []\<rparr>
        | found # _ \<Rightarrow> found)"

section \<open>What is in the drive\<close>

text \<open>A drive that answers from the states of \<open>I\<close>: what family the medium is of, which contents it lists,
  and every sector asked for.\<close>

definition answers_with ::
  "('w sys \<Rightarrow> bool) \<Rightarrow> 'w command \<Rightarrow> 'w block_reader \<Rightarrow> medium \<Rightarrow> cd_toc \<Rightarrow> u32 \<Rightarrow> bool" where
  "answers_with I cmd reader m toc base \<longleftrightarrow>
     (\<forall>s. I s \<longrightarrow> (\<exists>s'. read_medium cmd s = Some (m, s') \<and> I s') \<and>
        (\<exists>s'. read_cd_toc cmd s = Some ((toc, base), s') \<and> I s') \<and> reads_work I reader s)"

text \<open>What libudfread does with it: it refuses a medium without a volume, and serves one that has.\<close>

definition mounts :: "('s \<Rightarrow> bool) \<Rightarrow> ('u, 's) udf_lib \<Rightarrow> 's udf_input \<Rightarrow> volume option \<Rightarrow> bool" where
  "mounts I lib inp vol \<longleftrightarrow>
     (\<forall>s. I s \<longrightarrow> (\<exists>u s1 ret u' s2. udfread_init lib s = (Some u, s1) \<and>
        udfread_open_input lib inp u s1 = Some ((ret, u'), s2) \<and> I s2 \<and> (ret = 0 \<longleftrightarrow> vol \<noteq> None))) \<and>
     (\<forall>u s. I s \<longrightarrow> I (udfread_close lib u s)) \<and>
     (\<forall>files label. vol = Some (files, label) \<longrightarrow> volume_holds I lib inp files \<and>
        (\<forall>u. udfread_get_volume_id lib u = Some label))"

lemma detect_udf_decides:
  assumes "mounts (\<lambda>io. I (snd io)) lib (scsi_block_input reader) vol" and "I s"
  shows "\<exists>s'. detect_udf_disc lib reader label s = Some ((case vol of None \<Rightarrow> (UDF_DISC_NONE, label)
      | Some (files, name) \<Rightarrow> (volume_layout files,
          if volume_layout files = UDF_DISC_NONE then label else copy_volume_id name)), s') \<and> I s'"
proof -
  let ?inp = "scsi_block_input reader"
  obtain u s1 ret u1 s2 where mounted: "udfread_init lib (False, s) = (Some u, s1)"
    "udfread_open_input lib ?inp u s1 = Some ((ret, u1), s2)" "I (snd s2)" "ret = 0 \<longleftrightarrow> vol \<noteq> None"
    using assms unfolding mounts_def by (metis snd_conv)
  have closed: "I (snd (udfread_close lib x io))" if "I (snd io)" for x io
    using assms(1) that unfolding mounts_def by blast
  show ?thesis
  proof (cases vol)
    case None
    with mounted closed [OF mounted(3)] show ?thesis by (auto simp: detect_udf_disc_def Let_def)
  next
    case (Some v)
    obtain files name where v: "v = (files, name)" by fastforce
    have served: "volume_holds (\<lambda>io. I (snd io)) lib ?inp files" "\<And>u. udfread_get_volume_id lib u = Some name"
      using assms(1) Some v unfolding mounts_def by blast+
    obtain u2 s3 where "udf_layout lib ?inp u1 s2 = Some ((volume_layout files, u2), s3)" "I (snd s3)"
      using layout_decides [OF served(1), where s = s2 and u = u1] mounted(3) by blast
    with mounted closed served(2) Some v show ?thesis by (simp add: detect_udf_disc_def Let_def)
  qed
qed

lemma identify_udf_decides:
  assumes "mounts (\<lambda>io. I (snd io)) lib (scsi_block_input reader) vol" and "I s"
  shows "\<exists>s'. identify_udf lib reader blank_disc s =
    Some (case udf_video vol of None \<Rightarrow> (False, blank_disc) | Some found \<Rightarrow> (True, found), s') \<and> I s'"
proof -
  obtain s' where "detect_udf_disc lib reader [] s = Some ((case vol of None \<Rightarrow> (UDF_DISC_NONE, [])
      | Some (files, name) \<Rightarrow> (volume_layout files,
          if volume_layout files = UDF_DISC_NONE then [] else copy_volume_id name)), s')" "I s'"
    using detect_udf_decides [OF assms, of "[]"] by blast
  then show ?thesis
    by (cases vol; cases "volume_layout (fst (the vol))")
      (auto simp: identify_udf_def udf_video_def blank_disc_def)
qed

lemma identify_iso_decides:
  assumes drive: "usb_bounded h \<and> drive_serves h build_read10_cdb 10 2048 disc" and "serviceable h"
    and works: "reads_work I (laser_read_blocks h tk) s"
  shows "\<exists>s'. identify_iso (laser_read_blocks h tk) base blank_disc s =
    Some (case video_cd disc base of None \<Rightarrow> (False, blank_disc) | Some found \<Rightarrow> (True, found), s') \<and> I s'"
proof -
  let ?reader = "laser_read_blocks h tk"
  obtain found label s' where run: "detect_iso_video ?reader base [] s = Some ((found, label), s')"
    using sector_reader.detect_iso_returns [OF blocks.sector_reader_axioms assms(2), of tk base "[]" s] by auto
  note agrees = image.detect_agrees [OF drive run]
  have I: "I s'" using agrees(3) [OF works] by (simp add: reads_work_def)
  show ?thesis
  proof (cases "video_layout disc base")
    case None
    with agrees(2) [OF works] detect_iso_label [OF run] run I show ?thesis
      by (simp add: identify_iso_def video_cd_def blank_disc_def)
  next
    case (Some p)
    then have "p \<in> set iso_probes"
      by (auto simp: video_layout_def find_Some_iff split: option.splits)
    with agrees(2) [OF works] Some have found: "found = probe_kind p" "found \<noteq> ISO_VIDEO_NONE"
      by (auto simp: iso_probes_def)
    have "label = volume_label disc base" using agrees(1) [OF found(2)] by blast
    with run found Some I show ?thesis
      by (cases found) (simp_all add: identify_iso_def video_cd_def blank_disc_def)
  qed
qed

section \<open>Identification agrees\<close>

lemma identify_ready_decides:
  assumes drive: "usb_bounded h \<and> drive_serves h build_read10_cdb 10 2048 disc" and live: "serviceable h"
    and answers: "answers_with I (scsi_command h tk) (laser_read_blocks h tk) m toc base"
    and vol: "mounts (\<lambda>io. I (snd io)) lib (scsi_block_input (laser_read_blocks h tk)) vol" and s: "I s"
  shows "\<exists>s'. identify_ready lib (scsi_command h tk) (laser_read_blocks h tk) s =
    Some (identification m toc base disc vol, s')"
proof -
  let ?cmd = "scsi_command h tk" and ?reader = "laser_read_blocks h tk"
  note udf = identify_udf_decides [OF vol]
  have iso: "\<exists>s'. identify_iso ?reader base blank_disc x =
      Some (case video_cd disc base of None \<Rightarrow> (False, blank_disc) | Some found \<Rightarrow> (True, found), s') \<and> I s'" if "I x" for x
    by (rule identify_iso_decides [OF drive live]) (use answers that in \<open>simp add: answers_with_def\<close>)
  obtain s1 where 1: "read_medium ?cmd s = Some (m, s1)" "I s1" using answers s unfolding answers_with_def by blast
  obtain s2 where 2: "read_cd_toc ?cmd s1 = Some ((toc, base), s2)" "I s2"
    using answers 1(2) unfolding answers_with_def by blast
  consider (audio) "m = MEDIUM_CD \<or> m = MEDIUM_UNKNOWN" "toc = CD_TOC_AUDIO"
    | (cd) "m = MEDIUM_CD" "toc = CD_TOC_DATA" | (unknown) "m = MEDIUM_UNKNOWN" "toc = CD_TOC_DATA"
    | (bare) "m = MEDIUM_CD \<or> m = MEDIUM_UNKNOWN" "toc = CD_TOC_NONE" | (disc) "m = MEDIUM_DVD \<or> m = MEDIUM_BD"
    by (cases m; cases toc) auto
  then show ?thesis
  proof cases
    case audio
    with 1 2 show ?thesis by (auto simp: identify_ready_def identification_def blank_disc_def)
  next
    case cd
    obtain s3 where 3: "identify_iso ?reader base blank_disc s2 =
        Some (case video_cd disc base of None \<Rightarrow> (False, blank_disc) | Some found \<Rightarrow> (True, found), s3)" "I s3"
      using iso [OF 2(2)] by blast
    obtain s4 where 4: "identify_udf lib ?reader blank_disc s3 =
        Some (case udf_video vol of None \<Rightarrow> (False, blank_disc) | Some found \<Rightarrow> (True, found), s4)"
      using udf [OF 3(2)] by blast
    from 1 2 3(1) 4 cd show ?thesis
      by (cases "video_cd disc base"; cases "udf_video vol")
        (simp_all add: identify_ready_def identification_def candidates_def blank_disc_def List.map_filter_simps)
  next
    case unknown
    obtain s3 where 3: "identify_udf lib ?reader blank_disc s2 =
        Some (case udf_video vol of None \<Rightarrow> (False, blank_disc) | Some found \<Rightarrow> (True, found), s3)" "I s3"
      using udf [OF 2(2)] by blast
    obtain s4 where 4: "identify_iso ?reader base blank_disc s3 =
        Some (case video_cd disc base of None \<Rightarrow> (False, blank_disc) | Some found \<Rightarrow> (True, found), s4)"
      using iso [OF 3(2)] by blast
    from 1 2 3(1) 4 unknown show ?thesis
      by (cases "udf_video vol"; cases "video_cd disc base")
        (simp_all add: identify_ready_def identification_def candidates_def blank_disc_def List.map_filter_simps)
  next
    case bare
    obtain s3 where 3: "identify_udf lib ?reader blank_disc s2 =
        Some (case udf_video vol of None \<Rightarrow> (False, blank_disc) | Some found \<Rightarrow> (True, found), s3)"
      using udf [OF 2(2)] by blast
    from 1 2 3 bare show ?thesis
      by (cases "udf_video vol")
        (auto simp: identify_ready_def identification_def candidates_def blank_disc_def List.map_filter_simps)
  next
    case disc
    obtain s3 where 3: "identify_udf lib ?reader blank_disc s1 =
        Some (case udf_video vol of None \<Rightarrow> (False, blank_disc) | Some found \<Rightarrow> (True, found), s3)"
      using udf [OF 1(2)] by blast
    from 1 3 disc show ?thesis
      by (cases "udf_video vol")
        (auto simp: identify_ready_def identification_def candidates_def blank_disc_def List.map_filter_simps)
  qed
qed

text \<open>C5: on a ready drive that answers and whose sectors read, identification gives exactly the
  specification's answer: an audio CD by its table of contents; on a CD the Video CD layouts before UDF, on
  a medium of no known family after it; a DVD or Blu-ray disc by its UDF volume alone; with the label of the
  filesystem recognised, and the unknown disc with none.\<close>

theorem identification_exact:
  assumes "usb_bounded h" and "drive_serves h build_read10_cdb 10 2048 disc" and "serviceable h"
    and "answers_with I (scsi_command h tk) (laser_read_blocks h tk) m toc base"
    and "mounts (\<lambda>io. I (snd io)) lib (scsi_block_input (laser_read_blocks h tk)) vol"
    and "\<not> laser_token_not_ready tk s" and "laser_token_settle h tk s = Some s1"
    and "\<not> laser_token_not_ready tk s1" and "I s1"
  shows "\<exists>s'. laser_disc_identify lib h tk s = Some (identification m toc base disc vol, s')"
  using identify_ready_decides [OF conjI [OF assms(1,2)] assms(3,4,5,9)] assms(6-8)
  by (simp add: laser_disc_identify_def)

text \<open>A data CD without a Video CD layout that carries a DVD-Video volume: the UDF probe's answer.\<close>

theorem identification_exact_witness:
  "\<exists>s'. laser_disc_identify (table_udf dvd_files (ascii ''MOVIE'')) (player_host (play_cd (\<lambda>_. replicate 2048 0) 0)) 42
      (sim_sys sim_entry []) = Some (\<lparr>kind = LASER_DISC_DVD_VIDEO, volume_id = ascii ''MOVIE''\<rparr>, s')"
proof -
  let ?disc = "\<lambda>_. replicate 2048 0" and ?lib = "table_udf dvd_files (ascii ''MOVIE'')"
  let ?h = "player_host (play_cd ?disc 0)" and ?vol = "Some (map_of dvd_files, ascii ''MOVIE'')"
  have ready: "\<not> laser_token_not_ready 42 s" if "idle s" for s :: "sim sys"
    using idle_facts(1,5) [OF that] by (simp add: laser_token_not_ready_def)
  obtain s1 where settled: "laser_token_settle ?h 42 (sim_sys sim_entry []) = Some s1" "idle s1"
    using player_settle [OF idle_sample, of "play_cd ?disc 0"] by (auto simp: play_cd_def)
  have live: "serviceable ?h"
    using player_usb_bounded player_clock_monotonic play_cd_no_changes unfolding serviceable_def by blast
  have answers: "answers_with idle (scsi_command ?h 42) (laser_read_blocks ?h 42) MEDIUM_CD CD_TOC_DATA 0"
    unfolding answers_with_def
    by (intro allI impI conjI play_cd_answers play_cd_reads_work) simp_all
  have vol: "mounts (\<lambda>io. idle (snd io)) ?lib (scsi_block_input (laser_read_blocks ?h 42)) ?vol"
    by (auto simp: mounts_def table_udf_def volume_holds_def dvd_files_def split: option.split)
  have "volume_root ?disc 0 = None" by code_simp
  then have "video_cd ?disc 0 = None" by (simp add: video_cd_def video_layout_def)
  moreover have "udf_video ?vol = Some \<lparr>kind = LASER_DISC_DVD_VIDEO, volume_id = ascii ''MOVIE''\<rparr>"
    by (simp add: udf_video_def volume_layout_def starts_with_def dvd_files_def ascii_def copy_volume_id_def)
  ultimately have answer: "identification MEDIUM_CD CD_TOC_DATA 0 ?disc ?vol =
      \<lparr>kind = LASER_DISC_DVD_VIDEO, volume_id = ascii ''MOVIE''\<rparr>"
    by (simp add: identification_def candidates_def List.map_filter_simps)
  have "drive_serves ?h build_read10_cdb 10 2048 ?disc" by (rule play_cd_serves) simp
  from identification_exact [OF player_usb_bounded this live answers vol ready [OF idle_sample] settled(1)
      ready [OF settled(2)] settled(2)]
  show ?thesis unfolding answer .
qed

end
