(* ===== verification/Spec2Isabelle.thy ===== *)
theory Spec2Isabelle
  imports Bot_Facts Command_Props Replay Livelock Spinup_Props Probe_Props Read_Props Region_Props Token
    Claims_Props Css_Props Iso_Props Disc_Props Video_CD Logging Client_Props In_Flight_Props
    Registration Identify
begin

text \<open>
  liblaser, a library that talks to USB optical drives over Bulk-Only transport, modelled from
  its C sources under src/src, with the theorems that make its operations correct.

  The program. A client names a device by a token, the file descriptor the platform handed out.
  registry.c keeps a table of eight entries: \<open>laser_acquire()\<close> registers a device on its first
  claim (context, handle, interface, probe, spin-up) and \<open>laser_release()\<close> tears it down with the
  last. scsi.c sends commands: \<open>laser_scsi_cdb()\<close> retries and classifies, the block reads
  split a range into transfers and negotiate their size, and smaller helpers probe, spin up and
  check the DVD region. Each attempt is one Bulk-Only transaction of bot.c, over libusb, with usb.c
  finding the endpoints and resetting. disc.c identifies what is in the drive through the reads.

  State. A \<open>laser_entry\<close> is the C struct's record (theory Device); a function on a
  \<open>laser_entry_t *\<close> is a function on a device context (\<open>dev\<close>: the outside world, the trace of calls
  made, the entry), and one on a token works on the whole table (\<open>sys\<close>, theory Table). The
  outside - libusb, pthread, the clock, other threads - is a record \<open>host\<close> of functions on a world
  that is a type variable, so every theorem holds for every drive; what a theorem relies on is a
  named hypothesis on that record (\<open>usb_bounded\<close>, \<open>clock_monotonic\<close>, \<open>threads_rely\<close>, \<open>unpublished\<close>,
  \<open>finitely_many_changes\<close>), and Sample_Drive gives a concrete drive that satisfies them. Other threads
  act where the I/O lock is taken, and may cancel where the code asks; \<open>entry_rely\<close> is what they
  promise, and what every operation here is shown to keep.

  Theories, by the code they model.
  Prelude: buffers, checked reads, C division. Api: laser.h's statuses and sector kinds.
  Token: \<open>laser_parse_token()\<close>. Device: laser_internal.h's entry, the host, the trace.
  Usb: usb.c. Bot: bot.c, one function per phase of a transaction. Transport: the contract
  between bot.c and scsi.c as the locale \<open>bot_transport\<close>, interpreted on \<open>laser_bot_send_locked\<close>.
  Table: lookup and slots of registry.c, and which commands are key commands. Sense: the
  single commands of scsi.c. Command: \<open>laser_scsi_cdb()\<close>, with Command_Facts, Command_Laws and
  Command_Total its case rules, promises and termination, and Replay the two ways a command is sent
  a second time. Spinup: the START STOP UNIT ladder and
  the readiness wait. Probe: GET MAX LUN and INQUIRY. Read: the chunked reads, against the locale
  \<open>block_command\<close>. Region: \<open>laser_region_mismatch()\<close>. Registry: registration, its unwind
  ladder, teardown and claims; Quiet says what a trace of calls holds and which calls set up and give
  back nothing (locale \<open>quiet_transport\<close>), Registry_Laws what each label of the ladder holds, and Claims states the
  registry's contract as the locale \<open>claim_registry\<close>, interpreted on the model in Claims_Props;
  Registration traces what a first claim publishes to the answers it rests on.
  Css: the authentication sessions. Iso and Disc: disc.c, the walk proved against any
  \<open>sector_reader\<close>. Iso_Image: what the walk finds, read off the disc as an image, and the walk's
  agreement with it for any \<open>image_reader\<close>; Video_CD interprets that on the library's reads. Identify: what identification
  answers, as a function of what is in the drive. Logging:
  the sink and the names log lines use. Keeps and Disc_Keeps: what commands, reads and all that works
  through them leave of the registry (locales \<open>through_commands\<close>, \<open>through_reads\<close>); Client: any
  sequence of the library's calls, against the locale \<open>service_registry\<close>, which extends
  \<open>claim_registry\<close>. In_Flight: the threads still at work on an entry while the last release cancels and
  closes it, as a step relation over the code's own pieces. Sample_Drive, Sample_Runs and Sample_Disc hold the drives of the witnesses. The
  theories named _Props, and Bot_Facts, Replay, Livelock, Video_CD, Registration and Identify, hold the properties.

  What the properties show. The transport keeps, for each return code, its promise of how often the
  device was handed the whole wrapper and of the one Reset Recovery, NOT_SENT allowing for a wrapper
  that moved whole in a transfer that failed; success means a valid status wrapper; no
  buffer is overrun. A command's status is explained by the sense data read last; a key
  command is handed over at most once but for such wrappers, each reset at once, and a command
  is offered again after each of them while attempts are left; caller errors touch nothing; the
  retry loop ends on drives whose clock runs and whose medium changes finitely often, and need not
  otherwise. The
  readiness wait always ends. Reads deliver the disc's blocks, however the range was split. Any
  history of calls returns; through it the table stays well formed, counts claims as an abstract
  counter does and accounts for every resource - no transfer uses a handle that is not open - and a
  client that gives back what it took leaves only detached kernel drivers. Sessions exclude each
  other; identification always answers, within its buffers, with a well-formed label, a disc it calls a Video CD is one, and when the drive answers and its
  sectors read the answer is exactly the specification's. A first claim publishes an entry wired as the
  device's configuration and units say. Where code and comment disagree a theorem shows the
  behaviour: a livelock of the command loop, a key command replayed after a transfer that failed with
  its wrapper out, or after a spin-up, a device declined as silent though one of its units
  answered, a tray closed against a comment's word, a session refused though none is open, and a
  settle that polls a handle the teardown has closed. Commands do not: however they interleave with the last release, they return without touching it.

  Bounds and recursion. The command loop and the readiness wait are \<open>partial_function (option)\<close>,
  so \<open>None\<close> is not returning; the theorems on them prove \<open>Some\<close>. The read loop, the unwind
  ladder and the directory scan are total with explicit measures; no fuel is used anywhere. Integers
  keep their width where the code lets them wrap (tags, residues, addresses); \<open>int\<close> stands for C
  ints whose ranges the code checks. The wait of a CSS session ends at its deadline by a hypothesis
  on the timed wait; libudfread returns when its callback does by another.

  Registration and teardown hold the registry lock from end to end and are one step each, except in
  In_Flight, which takes the teardown apart into raising the flag and closing under the I/O lock, and a
  command into its looks at the flag and what is between them; memory ordering and the lock order are not
  modelled, nor is a thread that uses an entry after its slot is released, which laser.h leaves to callers. Sleeps and clock readings act on the world.

  Histories are sequences of whole calls; inside a call other threads do what \<open>threads_keep_claims\<close>
  and \<open>wait_keeps\<close> allow. Of libudfread a history relies on \<open>udf_lib_confined\<close> (it touches nothing
  but through its callback) and \<open>udf_lib_returns\<close>.

  Not modelled. Log lines are represented by the value they would print, without the wording of each
  format string; their expansion is \<open>vsnprintf()\<close>'s. libusb, pthread and libudfread are not part of
  the repository and are parameters. The build description, the version template and the tools are
  not part of the running library.
\<close>

end
